(* ===== verification/LKM_Prelude.thy ===== *)
theory LKM_Prelude
  imports Main "HOL-Library.Word" "HOL-Library.Monad_Syntax"
begin

unbundle bit_operations_syntax

text \<open>
  What every example module shares: the error numbers, C strings in fixed arrays, the
  decimal conversions of the printf family, and the generic list facts behind them.

  Conventions of the whole library.
  \<^item> A \<open>char\<close> of the code is a HOL \<open>char\<close> (one byte), an array of them a list whose length
    is the size of the array.
  \<^item> A computation of type \<open>'a option\<close> is \<open>None\<close> exactly when the C code would leave the
    bounds of an array: its behaviour is then undefined.
  \<^item> A \<open>loff_t\<close> is an \<open>int\<close>, a \<open>size_t\<close> that only counts bytes of a buffer a \<open>nat\<close>; where a
    wrap-around can be reached the value is a word of its width.
\<close>

section \<open>Collections of facts\<close>

text \<open>
  The definitions of the load and unload functions and of their labels go into one collection, with
  which the modules are shown to keep the contracts \<open>lkm_module\<close> and \<open>module_leaving\<close>.
\<close>

named_theorems mod_init "the load and unload functions of the modules"

declare Let_def [mod_init]

section \<open>Error numbers\<close>

abbreviation (input) EIO :: int where "EIO \<equiv> 5"
abbreviation (input) EAGAIN :: int where "EAGAIN \<equiv> 11"
abbreviation (input) ENOMEM :: int where "ENOMEM \<equiv> 12"
abbreviation (input) EFAULT :: int where "EFAULT \<equiv> 14"
abbreviation (input) EBUSY :: int where "EBUSY \<equiv> 16"
abbreviation (input) ENODEV :: int where "ENODEV \<equiv> 19"
abbreviation (input) EINVAL :: int where "EINVAL \<equiv> 22"
abbreviation (input) ENOTTY :: int where "ENOTTY \<equiv> 25"
abbreviation (input) EINTR :: int where "EINTR \<equiv> 4"
abbreviation (input) ENOBUFS :: int where "ENOBUFS \<equiv> 105"
abbreviation (input) ETIMEDOUT :: int where "ETIMEDOUT \<equiv> 110"

text \<open>
  A call that returns a pointer is represented by the signed value of that pointer:
  \<open>IS_ERR\<close> recognises the last 4095 addresses, which carry a negated error number.
\<close>

definition is_err :: "int \<Rightarrow> bool" where [mod_init]:
  "is_err p \<longleftrightarrow> - 4095 \<le> p \<and> p < 0"

lemma is_err_neg [dest]: "is_err p \<Longrightarrow> p < 0"
  by (simp add: is_err_def)

section \<open>Arrays\<close>

definition char_at :: "char list \<Rightarrow> int \<Rightarrow> char option" where
  "char_at xs i = (if 0 \<le> i \<and> i < int (length xs) then Some (xs ! nat i) else None)"

lemma char_at_nat [simp]: "i < length xs \<Longrightarrow> char_at xs (int i) = Some (xs ! i)"
  by (simp add: char_at_def)

lemma char_at_None_iff: "char_at xs i = None \<longleftrightarrow> i < 0 \<or> int (length xs) \<le> i"
  by (auto simp: char_at_def)

text \<open>Storing a block \<open>ys\<close> at the front of an array.\<close>

definition put_front :: "'a list \<Rightarrow> 'a list \<Rightarrow> 'a list" where
  "put_front ys xs = ys @ drop (length ys) xs"

lemma length_put_front [simp]:
  "length ys \<le> length xs \<Longrightarrow> length (put_front ys xs) = length xs"
  by (simp add: put_front_def)

lemma put_front_Nil [simp]: "put_front [] xs = xs"
  by (simp add: put_front_def)

lemma put_front_nth_below: "i < length ys \<Longrightarrow> put_front ys xs ! i = ys ! i"
  by (simp add: put_front_def nth_append)

lemma put_front_nth_above:
  "length ys \<le> i \<Longrightarrow> i < length xs \<Longrightarrow> put_front ys xs ! i = xs ! i"
  by (simp add: put_front_def nth_append)

lemma put_front_update:
  "length ys < length xs \<Longrightarrow> (put_front ys xs)[length ys := y] = put_front (ys @ [y]) xs"
proof -
  assume "length ys < length xs"
  then have "drop (length ys) xs = xs ! length ys # drop (Suc (length ys)) xs"
    by (simp add: Cons_nth_drop_Suc)
  then show ?thesis by (simp add: put_front_def list_update_append)
qed

section \<open>C strings\<close>

abbreviation (input) NUL :: char where "NUL \<equiv> CHR 0x00"
abbreviation (input) NL :: char where "NL \<equiv> CHR 0x0A"

definition cstr :: "char list \<Rightarrow> char list" where
  "cstr xs = takeWhile (\<lambda>c. c \<noteq> NUL) xs"

definition terminated :: "char list \<Rightarrow> bool" where
  "terminated xs \<longleftrightarrow> NUL \<in> set xs"

lemma NUL_notin_cstr [simp]: "NUL \<notin> set (cstr xs)"
  unfolding cstr_def using set_takeWhileD[of NUL "\<lambda>c. c \<noteq> NUL" xs] by auto

lemma cstr_append_NUL [simp]: "NUL \<notin> set s \<Longrightarrow> cstr (s @ NUL # r) = s"
  unfolding cstr_def by (subst takeWhile_append2) auto

lemma cstr_snoc_NUL: "cstr (xs @ NUL # r) = cstr xs"
  unfolding cstr_def by (induction xs) auto

lemma cstr_no_NUL: "NUL \<notin> set s \<Longrightarrow> cstr s = s"
  unfolding cstr_def by (auto simp: takeWhile_eq_all_conv)

lemma length_cstr_le: "length (cstr xs) \<le> length xs"
  by (simp add: cstr_def length_takeWhile_le)

lemma cstr_nth: "i < length (cstr xs) \<Longrightarrow> xs ! i \<noteq> NUL"
proof -
  assume i: "i < length (cstr xs)"
  then have "cstr xs ! i = xs ! i" by (simp add: cstr_def takeWhile_nth)
  moreover from i have "cstr xs ! i \<in> set (cstr xs)" by simp
  ultimately show ?thesis by force
qed

lemma cstr_nth_eq: "i < length (cstr xs) \<Longrightarrow> cstr xs ! i = xs ! i"
  by (simp add: cstr_def takeWhile_nth)

lemma length_cstr_less: "terminated xs \<Longrightarrow> length (cstr xs) < length xs"
proof -
  assume t: "terminated xs"
  show ?thesis
  proof (rule ccontr)
    assume "\<not> length (cstr xs) < length xs"
    then have "length (takeWhile (\<lambda>c. c \<noteq> NUL) xs) = length xs"
      using length_cstr_le[of xs] by (simp add: cstr_def)
    then have "takeWhile (\<lambda>c. c \<noteq> NUL) xs = xs"
      by (metis takeWhile_eq_take take_all order_refl)
    then have "\<forall>x \<in> set xs. x \<noteq> NUL" by (simp add: takeWhile_eq_all_conv)
    with t show False by (auto simp: terminated_def)
  qed
qed

lemma nth_length_cstr: "terminated xs \<Longrightarrow> xs ! length (cstr xs) = NUL"
  using length_cstr_less[of xs] nth_length_takeWhile[of "\<lambda>c. c \<noteq> NUL" xs]
  by (simp add: cstr_def)

lemma cstr_split:
  "terminated xs \<Longrightarrow> xs = cstr xs @ NUL # drop (Suc (length (cstr xs))) xs"
proof -
  assume t: "terminated xs"
  then have "drop (length (cstr xs)) xs = NUL # drop (Suc (length (cstr xs))) xs"
    by (metis Cons_nth_drop_Suc length_cstr_less nth_length_cstr)
  moreover have "take (length (cstr xs)) xs = cstr xs"
    unfolding cstr_def by (rule takeWhile_eq_take[symmetric])
  ultimately show ?thesis by (metis append_take_drop_id)
qed

lemma drop_cstr: "drop i (cstr xs) = cstr (drop i xs)" if "i \<le> length (cstr xs)"
  using that
proof (induction i)
  case 0
  then show ?case by simp
next
  case (Suc i)
  then have i: "i < length (cstr xs)" by simp
  have "i < length xs" using i length_cstr_le[of xs] by simp
  have a: "drop i (cstr xs) = xs ! i # drop (Suc i) (cstr xs)"
    using i by (metis Cons_nth_drop_Suc cstr_nth_eq)
  have b: "drop i xs = xs ! i # drop (Suc i) xs"
    using \<open>i < length xs\<close> by (simp add: Cons_nth_drop_Suc)
  from Suc.IH i have "drop i (cstr xs) = cstr (drop i xs)" by simp
  with a b cstr_nth[OF i] show ?case by (simp add: cstr_def)
qed

lemma last_NUL_terminated: "xs \<noteq> [] \<Longrightarrow> last xs = NUL \<Longrightarrow> terminated xs"
  using last_in_set[of xs] by (simp add: terminated_def)

lemma put_front_last: "length ys < length xs \<Longrightarrow> last (put_front ys xs) = last xs"
  by (simp add: put_front_def last_drop)

text \<open>
  \<open>sprintf\<close> and \<open>strcpy\<close> into an array: the string and its terminator must fit.
\<close>

definition store_str :: "char list \<Rightarrow> char list \<Rightarrow> char list option" where
  "store_str buf s =
     (if length s < length buf then Some (put_front (s @ [NUL]) buf) else None)"

lemma store_str_Some:
  assumes "length s < length buf"
  shows "store_str buf s = Some (put_front (s @ [NUL]) buf)"
  using assms by (simp add: store_str_def)

lemma cstr_put_front_NUL [simp]: "NUL \<notin> set s \<Longrightarrow> cstr (put_front (s @ [NUL]) buf) = s"
  by (simp add: put_front_def)

lemma terminated_put_front_NUL [simp]: "terminated (put_front (s @ [NUL]) buf)"
  by (simp add: put_front_def terminated_def)

text \<open>\<open>strncmp (a, b, n) == 0\<close> for a terminated literal \<open>b\<close> of length \<open>n\<close>: \<open>b\<close> is a prefix.\<close>

definition has_prefix :: "char list \<Rightarrow> char list \<Rightarrow> bool" where
  "has_prefix xs b \<longleftrightarrow> take (length b) xs = b"

section \<open>Decimal conversions\<close>

definition digit :: "nat \<Rightarrow> char" where
  "digit d = char_of (48 + d)"

fun digits :: "nat \<Rightarrow> char list" where
  "digits n = (if n < 10 then [digit n] else digits (n div 10) @ [digit (n mod 10)])"

declare digits.simps [simp del]

lemma digit_values:
  "digit 0 = CHR ''0''" "digit (Suc 0) = CHR ''1''" "digit 2 = CHR ''2''" "digit 3 = CHR ''3''"
  "digit 4 = CHR ''4''" "digit 5 = CHR ''5''" "digit 6 = CHR ''6''" "digit 7 = CHR ''7''"
  "digit 8 = CHR ''8''" "digit 9 = CHR ''9''"
  by (simp_all add: digit_def char_of_def bit_0)

text \<open>\<open>dec\<close> is the conversion \<open>%d\<close>, \<open>dec_plus\<close> is \<open>%+d\<close>: the sign is always printed.\<close>

definition dec :: "int \<Rightarrow> char list" where
  "dec i = (if i < 0 then CHR ''-'' # digits (nat (- i)) else digits (nat i))"

definition dec_plus :: "int \<Rightarrow> char list" where
  "dec_plus i = (if i < 0 then CHR ''-'' # digits (nat (- i)) else CHR ''+'' # digits (nat i))"

lemma digit_code: "d < 10 \<Longrightarrow> (of_char (digit d) :: nat) = 48 + d"
  by (simp add: digit_def)

lemma digit_neq_NUL [simp]: "d < 10 \<Longrightarrow> digit d \<noteq> NUL"
proof
  assume "d < 10" "digit d = NUL"
  then have "(of_char NUL :: nat) = 48 + d" using digit_code[of d] by simp
  then show False by simp
qed

lemma NUL_notin_digits [simp]: "NUL \<notin> set (digits n)"
proof (induction n rule: digits.induct)
  case (1 n)
  show ?case
  proof (cases "n < 10")
    case True
    with digit_neq_NUL[OF True] show ?thesis by (subst digits.simps) (simp add: eq_commute)
  next
    case False
    have "digit (n mod 10) \<noteq> NUL" by (rule digit_neq_NUL) simp
    with 1 False show ?thesis by (subst digits.simps) (simp add: eq_commute)
  qed
qed

lemma NUL_notin_dec [simp]: "NUL \<notin> set (dec i)"
  by (simp add: dec_def)

lemma NUL_notin_dec_plus [simp]: "NUL \<notin> set (dec_plus i)"
  by (simp add: dec_plus_def)

lemma length_digits: "0 < k \<Longrightarrow> n < 10 ^ k \<Longrightarrow> length (digits n) \<le> k"
proof (induction n arbitrary: k rule: digits.induct)
  case (1 n)
  show ?case
  proof (cases "n < 10")
    case True
    with "1.prems" show ?thesis by (subst digits.simps) simp
  next
    case False
    with "1.prems"(2) have "k \<noteq> 1" by auto
    with "1.prems"(1) obtain m where k: "k = Suc m" and m: "0 < m"
      by (cases k) auto
    from "1.prems"(2) k have "n div 10 < 10 ^ m"
      by (simp add: div_less_iff_less_mult mult.commute)
    with "1.IH" False m have "length (digits (n div 10)) \<le> m" by blast
    with False k show ?thesis by (subst digits.simps) simp
  qed
qed

lemma length_dec: "0 < k \<Longrightarrow> \<bar>i\<bar> < 10 ^ k \<Longrightarrow> length (dec i) \<le> Suc k"
proof -
  assume k: "0 < k" and i: "\<bar>i\<bar> < 10 ^ k"
  have "nat \<bar>i\<bar> < 10 ^ k" using i by (metis nat_less_iff abs_ge_zero of_nat_numeral of_nat_power)
  then have "length (digits (nat \<bar>i\<bar>)) \<le> k" by (rule length_digits[OF k])
  then show ?thesis by (cases "i < 0") (simp_all add: dec_def)
qed

text \<open>An \<open>int\<close> of the code prints in at most eleven characters.\<close>

lemma length_dec_int32: "length (dec (sint (w :: 32 word))) \<le> 11"
proof -
  have "- (2 ^ 31) \<le> sint w \<and> sint w < 2 ^ 31"
    using sint_range_size[of w] by (simp add: word_size)
  then have "\<bar>sint w\<bar> \<le> 2147483648" by auto
  then have "\<bar>sint w\<bar> < 10 ^ 10" by simp
  from length_dec[OF _ this] show ?thesis by simp
qed

lemma digits_nonempty [simp]: "digits n \<noteq> []"
  by (subst digits.simps) simp

lemma dec_nonempty [simp]: "dec i \<noteq> []"
  by (simp add: dec_def)

text \<open>
  \<open>snprintf\<close> of the string \<open>s\<close> with the bound \<open>n\<close>: the length of \<open>s\<close> and the new array. At
  most \<open>n\<close> bytes are stored, the last one a terminator.
\<close>

definition snprintf :: "char list \<Rightarrow> nat \<Rightarrow> char list \<Rightarrow> (int \<times> char list) option" where
  "snprintf buf n s =
     (if n = 0 then Some (int (length s), buf)
      else (let w = take (n - 1) s @ [NUL]
            in if length w \<le> length buf then Some (int (length s), put_front w buf) else None))"

lemma snprintf_fits:
  "length s < n \<Longrightarrow> length s < length buf \<Longrightarrow>
    snprintf buf n s = Some (int (length s), put_front (s @ [NUL]) buf)"
  by (simp add: snprintf_def Let_def)

section \<open>Bit maps, lists and memory objects of the kernel\<close>

definition find_first_zero_bit :: "'a::len word \<Rightarrow> nat \<Rightarrow> nat" where
  "find_first_zero_bit w n = (case find (\<lambda>i. \<not> bit w i) [0..<n] of Some i \<Rightarrow> i | None \<Rightarrow> n)"

lemma find_first_zero_bit_unset:
  "find_first_zero_bit w n < n \<Longrightarrow> \<not> bit w (find_first_zero_bit w n)"
proof (cases "find (\<lambda>i. \<not> bit w i) [0..<n]")
  case None
  then show "find_first_zero_bit w n < n \<Longrightarrow> ?thesis" by (simp add: find_first_zero_bit_def)
next
  case (Some i)
  then have "\<not> bit w i" by (auto simp: find_Some_iff)
  with Some show ?thesis by (simp add: find_first_zero_bit_def)
qed

lemma find_first_zero_bit_full: "n \<le> find_first_zero_bit w n \<longleftrightarrow> (\<forall>i<n. bit w i)"
proof (cases "find (\<lambda>i. \<not> bit w i) [0..<n]")
  case None
  then have "\<forall>i<n. bit w i" by (simp add: find_None_iff)
  with None show ?thesis by (simp add: find_first_zero_bit_def)
next
  case (Some i)
  then have "i < n" "\<not> bit w i" by (auto simp: find_Some_iff)
  with Some show ?thesis by (auto simp: find_first_zero_bit_def)
qed

lemma unset_bit_set_bit: "\<not> bit w n \<Longrightarrow> unset_bit n (set_bit n w) = (w :: 'a::len word)"
  by (rule bit_word_eqI) (auto simp: bit_simps)

text \<open>Taking a node out of a list that does not hold it follows stale pointers: \<open>None\<close>.\<close>

definition list_del :: "'a \<Rightarrow> 'a list \<Rightarrow> 'a list option" where
  "list_del x xs = (if x \<in> set xs then Some (remove1 x xs) else None)"

text \<open>\<open>kfree\<close> of an object that is not allocated is \<open>None\<close>.\<close>

definition kfree :: "('a \<rightharpoonup> 'b) \<Rightarrow> 'a \<Rightarrow> ('a \<rightharpoonup> 'b) option" where
  "kfree heap a = (if heap a = None then None else Some (heap(a := None)))"

section \<open>Atomic integers\<close>

text \<open>
  \<open>atomic_cmpxchg (&v, old, new)\<close> returns the old value of \<open>v\<close> and replaces it when it was
  \<open>old\<close>: the pair of the value returned and the value after the call.
\<close>

definition atomic_cmpxchg :: "int \<Rightarrow> int \<Rightarrow> int \<Rightarrow> int \<times> int" where
  "atomic_cmpxchg v old new = (v, if v = old then new else v)"

end
