(* ===== verification/User_Memory.thy ===== *)
theory User_Memory
  imports LKM_Prelude
begin

text \<open>
  The memory of the calling process, which the modules reach only through \<open>get_user\<close>,
  \<open>put_user\<close>, \<open>copy_from_user\<close> and \<open>copy_to_user\<close>.

  User memory is a map from addresses to bytes; an address that faults has no entry.
  \<open>get_user\<close> stores 0 in its variable when it faults, and \<open>put_user\<close> stores nothing.
  How much of a block \<open>copy_from_user\<close> and \<open>copy_to_user\<close> transfer before a fault is
  up to the architecture: it is the parameter \<open>nc\<close>, the number of bytes not copied that
  these functions return. The locale \<open>user_access\<close> states what the kernel documents of it.
\<close>

section \<open>Bytes of user memory\<close>

type_synonym umem = "nat \<Rightarrow> char option"

definition get_user :: "umem \<Rightarrow> nat \<Rightarrow> char" where
  "get_user u a = (case u a of Some c \<Rightarrow> c | None \<Rightarrow> NUL)"

definition put_user :: "umem \<Rightarrow> nat \<Rightarrow> char \<Rightarrow> umem" where
  "put_user u a c = (if u a = None then u else u(a \<mapsto> c))"

definition put_user_ret :: "umem \<Rightarrow> nat \<Rightarrow> int" where
  "put_user_ret u a = (if u a = None then - EFAULT else 0)"

fun put_bytes :: "umem \<Rightarrow> nat \<Rightarrow> char list \<Rightarrow> umem" where
  "put_bytes u a [] = u"
| "put_bytes u a (c # cs) = put_bytes (put_user u a c) (Suc a) cs"

definition get_bytes :: "umem \<Rightarrow> nat \<Rightarrow> nat \<Rightarrow> char list" where
  "get_bytes u a n = map (\<lambda>i. get_user u (a + i)) [0..<n]"

definition mapped :: "umem \<Rightarrow> nat \<Rightarrow> nat \<Rightarrow> bool" where
  "mapped u a n \<longleftrightarrow> list_all (\<lambda>i. u (a + i) \<noteq> None) [0..<n]"

lemma mapped_iff: "mapped u a n \<longleftrightarrow> (\<forall>i < n. u (a + i) \<noteq> None)"
  by (auto simp: mapped_def list_all_iff)

lemma mapped_0 [simp]: "mapped u a 0"
  by (simp add: mapped_def)

lemma mapped_mono: "mapped u a n \<Longrightarrow> m \<le> n \<Longrightarrow> mapped u a m"
  by (simp add: mapped_iff)

lemma length_get_bytes [simp]: "length (get_bytes u a n) = n"
  by (simp add: get_bytes_def)

lemma get_bytes_0 [simp]: "get_bytes u a 0 = []"
  by (simp add: get_bytes_def)

lemma get_bytes_Suc: "get_bytes u a (Suc n) = get_bytes u a n @ [get_user u (a + n)]"
  by (simp add: get_bytes_def)

lemma get_bytes_nth [simp]: "i < n \<Longrightarrow> get_bytes u a n ! i = get_user u (a + i)"
  by (simp add: get_bytes_def)

lemma get_bytes_snoc_upd:
  "i < length xs \<Longrightarrow>
    (put_front (get_bytes u a i) xs)[i := get_user u (a + i)] = put_front (get_bytes u a (Suc i)) xs"
  using put_front_update[of "get_bytes u a i" xs] by (simp add: get_bytes_Suc)

lemma get_bytes_take: "k \<le> n \<Longrightarrow> take k (get_bytes u a n) = get_bytes u a k"
  by (simp add: get_bytes_def take_map min_def)

lemma put_user_apply: "put_user u a c b = (if b = a \<and> u a \<noteq> None then Some c else u b)"
  by (simp add: put_user_def)

lemma put_user_None [simp]: "put_user u a c b = None \<longleftrightarrow> u b = None"
  by (auto simp: put_user_apply)

lemma put_bytes_None [simp]: "put_bytes u a cs b = None \<longleftrightarrow> u b = None"
  by (induction cs arbitrary: u a) auto

lemma mapped_put_bytes [simp]: "mapped (put_bytes u a cs) b n = mapped u b n"
  by (simp add: mapped_iff)

lemma mapped_put_user [simp]: "mapped (put_user u a c) b n = mapped u b n"
  by (simp add: mapped_iff)

lemma put_bytes_append:
  "put_bytes u a (cs @ ds) = put_bytes (put_bytes u a cs) (a + length cs) ds"
  by (induction cs arbitrary: u a) auto

lemma put_bytes_below: "b < a \<Longrightarrow> put_bytes u a cs b = u b"
  by (induction cs arbitrary: u a) (auto simp: put_user_apply)

lemma put_bytes_above: "a + length cs \<le> b \<Longrightarrow> put_bytes u a cs b = u b"
  by (induction cs arbitrary: u a) (auto simp: put_user_apply)

lemma put_bytes_at:
  "i < length cs \<Longrightarrow> u (a + i) \<noteq> None \<Longrightarrow> put_bytes u a cs (a + i) = Some (cs ! i)"
proof (induction cs arbitrary: u a i)
  case Nil
  then show ?case by simp
next
  case (Cons c cs)
  show ?case
  proof (cases i)
    case 0
    with Cons.prems show ?thesis by (simp add: put_bytes_below put_user_apply)
  next
    case (Suc j)
    then have "put_user u a c (Suc a + j) \<noteq> None" using Cons.prems by simp
    with Cons.IH[of j "put_user u a c" "Suc a"] Cons.prems Suc show ?thesis by simp
  qed
qed

text \<open>What was put into mapped memory is read back.\<close>

lemma get_bytes_put_bytes:
  assumes "mapped u a (length cs)"
  shows "get_bytes (put_bytes u a cs) a (length cs) = cs"
  using assms
  by (intro nth_equalityI) (auto simp: get_user_def put_bytes_at mapped_iff)

lemma get_bytes_put_bytes_take:
  assumes "mapped u a (length cs)" and "k \<le> length cs"
  shows "get_bytes (put_bytes u a cs) a k = take k cs"
  using get_bytes_put_bytes[OF assms(1)] get_bytes_take[OF assms(2)] by metis

section \<open>Blocks of user memory\<close>

text \<open>
  \<open>nc u a n\<close> is the number of bytes that are not copied of a block of \<open>n\<close> bytes at user
  address \<open>a\<close>: at most \<open>n\<close>, 0 if and only if the whole block is accessible, and the bytes
  that are copied, the first ones, are accessible.
\<close>

type_synonym not_copied = "umem \<Rightarrow> nat \<Rightarrow> nat \<Rightarrow> nat"

locale user_access =
  fixes nc :: not_copied
  assumes nc_le: "nc u a n \<le> n"
    and nc_zero: "nc u a n = 0 \<longleftrightarrow> mapped u a n"
    and nc_copied: "mapped u a (n - nc u a n)"

text \<open>
  \<open>copy_from_user\<close>: the bytes that could not be copied are zeroed in the destination, whose
  array must have room for the \<open>n\<close> bytes asked for.
\<close>

definition copy_from_user ::
    "not_copied \<Rightarrow> umem \<Rightarrow> nat \<Rightarrow> nat \<Rightarrow> char list \<Rightarrow> (nat \<times> char list) option" where
  "copy_from_user nc u a n buf =
     (if n \<le> length buf
      then Some (nc u a n,
             put_front (get_bytes u a (n - nc u a n) @ replicate (nc u a n) NUL) buf)
      else None)"

definition copy_to_user :: "not_copied \<Rightarrow> umem \<Rightarrow> nat \<Rightarrow> char list \<Rightarrow> nat \<times> umem" where
  "copy_to_user nc u a bs =
     (let k = nc u a (length bs) in (k, put_bytes u a (take (length bs - k) bs)))"

context user_access begin

lemma copy_from_user_ok:
  assumes "mapped u a n" and "n \<le> length buf"
  shows "copy_from_user nc u a n buf = Some (0, put_front (get_bytes u a n) buf)"
  using assms nc_zero[of u a n] by (simp add: copy_from_user_def)

lemma copy_from_user_fault:
  assumes "\<not> mapped u a n" and "n \<le> length buf"
  shows "\<exists>k buf'. copy_from_user nc u a n buf = Some (k, buf') \<and> 0 < k \<and> k \<le> n \<and>
    length buf' = length buf"
  using assms nc_zero[of u a n] nc_le[of u a n] by (auto simp: copy_from_user_def)

lemma copy_to_user_ok:
  assumes "mapped u a (length bs)"
  shows "copy_to_user nc u a bs = (0, put_bytes u a bs)"
  using assms nc_zero[of u a "length bs"] by (simp add: copy_to_user_def)

lemma copy_to_user_fault:
  assumes "\<not> mapped u a (length bs)"
  shows "fst (copy_to_user nc u a bs) \<noteq> 0"
  using assms nc_zero[of u a "length bs"] by (simp add: copy_to_user_def Let_def)

lemma copy_to_user_zero_iff: "fst (copy_to_user nc u a bs) = 0 \<longleftrightarrow> mapped u a (length bs)"
  using nc_zero[of u a "length bs"] by (simp add: copy_to_user_def Let_def)

lemma copy_to_user_mapped [simp]:
  "mapped (snd (copy_to_user nc u a bs)) b n = mapped u b n"
  by (simp add: copy_to_user_def Let_def)

end

lemma length_copy_from_user:
  assumes "copy_from_user nc u a n buf = Some (k, buf')" and "user_access nc"
  shows "length buf' = length buf"
  using assms user_access.nc_le[of nc u a n]
  by (auto simp: copy_from_user_def split: if_splits)

text \<open>
  The byte-wise copy, which stops at the first address that faults, is an architecture
  that keeps the contract.
\<close>

definition bytewise :: not_copied where
  "bytewise u a n = n - length (takeWhile (\<lambda>i. u (a + i) \<noteq> None) [0..<n])"

lemma takeWhile_upt_length:
  "length (takeWhile P [0..<n]) = k \<Longrightarrow> i < k \<Longrightarrow> P i"
proof -
  assume k: "length (takeWhile P [0..<n]) = k" and i: "i < k"
  then have "takeWhile P [0..<n] ! i = i"
    by (metis (no_types, lifting) add_0 length_takeWhile_le length_upt less_le_trans
        minus_nat.diff_0 nth_upt takeWhile_nth)
  moreover have "takeWhile P [0..<n] ! i \<in> set (takeWhile P [0..<n])" using k i by simp
  ultimately show "P i" by (metis set_takeWhileD)
qed

lemma takeWhile_upt_all: "length (takeWhile P [0..<n]) = n \<longleftrightarrow> (\<forall>i<n. P i)"
proof
  assume "length (takeWhile P [0..<n]) = n"
  then show "\<forall>i<n. P i" by (blast intro: takeWhile_upt_length)
next
  assume "\<forall>i<n. P i"
  then have "takeWhile P [0..<n] = [0..<n]" by (subst takeWhile_eq_all_conv) simp
  then have "length (takeWhile P [0..<n]) = length [0..<n]" by (rule arg_cong)
  then show "length (takeWhile P [0..<n]) = n" by simp
qed

interpretation bytewise: user_access bytewise
proof
  fix u :: umem and a n :: nat
  let ?k = "length (takeWhile (\<lambda>i. u (a + i) \<noteq> None) [0..<n])"
  have le: "?k \<le> n" using length_takeWhile_le[of _ "[0..<n]"] by simp
  show "bytewise u a n \<le> n" by (simp add: bytewise_def)
  have "bytewise u a n = 0 \<longleftrightarrow> ?k = n" using le by (auto simp: bytewise_def)
  also have "\<dots> \<longleftrightarrow> mapped u a n" by (simp only: takeWhile_upt_all mapped_iff)
  finally show "bytewise u a n = 0 \<longleftrightarrow> mapped u a n" .
  have "n - bytewise u a n = ?k" using le by (simp add: bytewise_def)
  then show "mapped u a (n - bytewise u a n)"
    by (auto simp: mapped_iff dest: takeWhile_upt_length[OF refl])
qed

text \<open>A process memory that is accessible everywhere and holds the bytes \<open>bs\<close> at \<open>a\<close>.\<close>

definition umem_with :: "nat \<Rightarrow> char list \<Rightarrow> umem" where
  "umem_with a bs = put_bytes (\<lambda>_. Some NUL) a bs"

lemma mapped_umem_with [simp]: "mapped (umem_with a bs) b n"
  by (simp add: umem_with_def mapped_iff)

lemma get_bytes_umem_with: "n = length bs \<Longrightarrow> get_bytes (umem_with a bs) a n = bs"
  unfolding umem_with_def by (simp add: get_bytes_put_bytes mapped_iff)

lemma get_bytes_umem_with_NUL:
  "n = Suc (length bs) \<Longrightarrow> get_bytes (umem_with a bs) a n = bs @ [NUL]"
  using get_bytes_umem_with[of "length bs" bs a]
  by (simp add: get_bytes_Suc) (simp add: get_user_def umem_with_def put_bytes_above)

lemma get_user_umem_with: "bs \<noteq> [] \<Longrightarrow> get_user (umem_with a bs) a = hd bs"
  using get_bytes_umem_with[of "length bs" bs a] get_bytes_nth[of 0 "length bs" "umem_with a bs" a]
  by (cases bs) (simp_all add: hd_conv_nth)

end
