(* ===== verification/Vfs.thy ===== *)
theory Vfs
  imports User_Memory
begin

text \<open>
  How the kernel's file layer and the processes use the devices of the modules: the contract of
  a device that one process at a time may open, and the contract of a device whose content is
  read in pieces. The clients of the two contracts are the processes: some that open and close
  the device in any order, and a reader that reads until it gets 0 bytes.
\<close>

section \<open>Devices with exclusive open\<close>

text \<open>
  \<open>busy\<close> is the abstract state of the device; \<open>good\<close> is its invariant. \<open>open_op\<close> may leave the
  bounds of an array (\<open>None\<close>), which the contract excludes under the invariant.
\<close>

locale exclusive_device =
  fixes open_op :: "'s \<Rightarrow> (int \<times> 's) option"
    and release_op :: "'s \<Rightarrow> int \<times> 's"
    and busy :: "'s \<Rightarrow> bool"
    and good :: "'s \<Rightarrow> bool"
  assumes open_free:
      "good s \<Longrightarrow> \<not> busy s \<Longrightarrow> \<exists>s'. open_op s = Some (0, s') \<and> busy s' \<and> good s'"
    and open_busy: "good s \<Longrightarrow> busy s \<Longrightarrow> open_op s = Some (- EBUSY, s)"
    and release_free: "good s \<Longrightarrow> fst (release_op s) = 0 \<and>
      \<not> busy (snd (release_op s)) \<and> good (snd (release_op s))"

text \<open>
  The file layer calls \<open>release\<close> once for every open file, when its last reference goes, so
  the processes are described by the list of the files that are open. A process asks to open
  the device (the new file gets the number \<open>f\<close>) or gives up the file \<open>f\<close>.
\<close>

datatype vfs_event = Open nat | Close nat

fun vfs_step ::
    "('s \<Rightarrow> (int \<times> 's) option) \<Rightarrow> ('s \<Rightarrow> int \<times> 's) \<Rightarrow> 's \<times> nat list \<Rightarrow> vfs_event \<Rightarrow>
      ('s \<times> nat list) option"
  where
  "vfs_step open_op release_op (s, fs) (Open f) =
     (case open_op s of None \<Rightarrow> None
      | Some (r, s') \<Rightarrow> Some (s', if r = 0 then f # fs else fs))"
| "vfs_step open_op release_op (s, fs) (Close f) =
     (if f \<in> set fs then Some (snd (release_op s), remove1 f fs) else Some (s, fs))"

fun vfs_run ::
    "('s \<Rightarrow> (int \<times> 's) option) \<Rightarrow> ('s \<Rightarrow> int \<times> 's) \<Rightarrow> 's \<times> nat list \<Rightarrow> vfs_event list \<Rightarrow>
      ('s \<times> nat list) option"
  where
  "vfs_run open_op release_op c [] = Some c"
| "vfs_run open_op release_op c (e # es) =
     (case vfs_step open_op release_op c e of None \<Rightarrow> None
      | Some c' \<Rightarrow> vfs_run open_op release_op c' es)"

text \<open>The invariant that ties the device to the open files: busy if and only if one is open.\<close>

definition one_file :: "('s \<Rightarrow> bool) \<Rightarrow> ('s \<Rightarrow> bool) \<Rightarrow> 's \<times> nat list \<Rightarrow> bool" where
  "one_file busy good c \<longleftrightarrow>
     good (fst c) \<and> (if busy (fst c) then length (snd c) = 1 else snd c = [])"

context exclusive_device begin

lemma vfs_step_one_file:
  assumes "one_file busy good c"
  shows "\<exists>c'. vfs_step open_op release_op c e = Some c' \<and> one_file busy good c'"
proof (cases c)
  case (Pair s fs)
  with assms have i: "good s" by (simp add: one_file_def)
  show ?thesis
  proof (cases e)
    case (Open f)
    show ?thesis
    proof (cases "busy s")
      case True
      with open_busy i assms Open Pair show ?thesis by (simp add: one_file_def)
    next
      case False
      from open_free[OF i False] obtain s' where
        "open_op s = Some (0, s')" "busy s'" "good s'" by blast
      with False assms Open Pair show ?thesis by (simp add: one_file_def)
    qed
  next
    case (Close f)
    with assms Pair release_free[OF i] show ?thesis
      by (cases fs) (auto simp: one_file_def split: if_splits)
  qed
qed

text \<open>Whatever the processes do, no array is left and at most one file is open at any time.\<close>

lemma vfs_run_one_file:
  "one_file busy good c \<Longrightarrow> \<exists>c'. vfs_run open_op release_op c es = Some c' \<and> one_file busy good c'"
proof (induction es arbitrary: c)
  case Nil
  then show ?case by simp
next
  case (Cons e es)
  from vfs_step_one_file[OF Cons.prems, of e] Cons.IH show ?case by fastforce
qed

lemma at_most_one_file:
  assumes "good s" and "\<not> busy s"
  shows "\<exists>s' fs. vfs_run open_op release_op (s, []) es = Some (s', fs) \<and>
    length fs \<le> 1 \<and> (busy s' \<longleftrightarrow> fs \<noteq> []) \<and> good s'"
proof -
  from assms have "one_file busy good (s, [])" by (simp add: one_file_def)
  from vfs_run_one_file[OF this, of es] show ?thesis
    by (fastforce simp: one_file_def split: if_splits)
qed

end

section \<open>Devices read as a stream\<close>

text \<open>
  The result of a read: its return value, the file offset after it and the user memory after it.
\<close>

type_synonym read_result = "int \<times> int \<times> umem"

text \<open>
  A read inside the content puts the next piece into the buffer and moves the offset; a read
  at the end returns 0.
\<close>

locale stream_device =
  fixes read_op :: "'s \<Rightarrow> umem \<Rightarrow> nat \<Rightarrow> nat \<Rightarrow> int \<Rightarrow> read_result option"
    and content :: "'s \<Rightarrow> char list"
    and good :: "'s \<Rightarrow> bool"
  assumes read_piece:
      "good s \<Longrightarrow> mapped u a n \<Longrightarrow> off < length (content s) \<Longrightarrow>
        read_op s u a n (int off) =
          Some (int (min n (length (content s) - off)),
            int (off + min n (length (content s) - off)),
            put_bytes u a (take n (drop off (content s))))"
    and read_end:
      "good s \<Longrightarrow> mapped u a n \<Longrightarrow>
        \<exists>off'. read_op s u a n (int (length (content s))) = Some (0, off', u)"

text \<open>
  The reader: it reads into the same buffer of \<open>n\<close> bytes at \<open>a\<close> until it gets 0 bytes, and
  appends what it gets to its output. \<open>fuel\<close> bounds the number of reads; running out of it
  is \<open>None\<close>, like a read that leaves its array.
\<close>

fun read_all ::
    "nat \<Rightarrow> (umem \<Rightarrow> nat \<Rightarrow> nat \<Rightarrow> int \<Rightarrow> read_result option) \<Rightarrow> umem \<Rightarrow> nat \<Rightarrow> nat \<Rightarrow> int \<Rightarrow>
      char list \<Rightarrow> (int \<times> char list) option"
  where
  "read_all 0 rd u a n off out = None"
| "read_all (Suc fuel) rd u a n off out =
     (case rd u a n off of None \<Rightarrow> None
      | Some (r, off', u') \<Rightarrow>
          if r < 0 then Some (r, out)
          else if r = 0 then Some (0, out)
          else read_all fuel rd u' a n off' (out @ get_bytes u' a (nat r)))"

context stream_device begin

lemma read_all_from:
  assumes "good s" and "mapped u a n" and "0 < n" and "off \<le> length (content s)"
    and "length (content s) - off < fuel"
  shows "read_all fuel (read_op s) u a n (int off) out = Some (0, out @ drop off (content s))"
  using assms
proof (induction fuel arbitrary: u off out)
  case 0
  then show ?case by simp
next
  case (Suc fuel)
  show ?case
  proof (cases "off = length (content s)")
    case True
    with read_end[OF Suc.prems(1,2)] show ?thesis by auto
  next
    case False
    with Suc.prems(4) have off: "off < length (content s)" by simp
    let ?k = "min n (length (content s) - off)"
    let ?p = "take n (drop off (content s))"
    have k: "0 < ?k" using off Suc.prems(3) by simp
    have len: "length ?p = ?k" by (simp add: min.commute)
    have mp: "mapped u a (length ?p)" by (rule mapped_mono[OF Suc.prems(2)]) simp
    have g: "get_bytes (put_bytes u a ?p) a ?k = ?p"
      using get_bytes_put_bytes[OF mp] len by simp
    have rest: "read_all fuel (read_op s) (put_bytes u a ?p) a n (int (off + ?k)) (out @ ?p)
      = Some (0, (out @ ?p) @ drop (off + ?k) (content s))"
      by (rule Suc.IH) (use Suc.prems k off in auto)
    have "?p @ drop (off + ?k) (content s) = drop off (content s)"
      by (metis add.commute append_take_drop_id drop_drop len length_drop min.commute
          take_all_iff linorder_le_cases min.absorb_iff2 min_def)
    then show ?thesis using read_piece[OF Suc.prems(1,2) off] rest g k by simp
  qed
qed

text \<open>A reader with any buffer gets the whole content, in at most one read per byte and one more.\<close>

lemma read_all_content:
  assumes "good s" and "mapped u a n" and "0 < n"
  shows "read_all (Suc (length (content s))) (read_op s) u a n 0 [] = Some (0, content s)"
  using read_all_from[OF assms, of 0 "Suc (length (content s))" "[]"] by simp

end

section \<open>Devices that are opened exclusively and read as a stream\<close>

text \<open>
  A process like \<open>cat\<close>: it opens the device, reads it to the end and closes it. Its output is
  \<open>None\<close> when the open is refused.
\<close>

definition cat_file ::
    "nat \<Rightarrow> ('s \<Rightarrow> (int \<times> 's) option) \<Rightarrow> ('s \<Rightarrow> umem \<Rightarrow> nat \<Rightarrow> nat \<Rightarrow> int \<Rightarrow> read_result option) \<Rightarrow>
      ('s \<Rightarrow> int \<times> 's) \<Rightarrow> umem \<Rightarrow> nat \<Rightarrow> nat \<Rightarrow> 's \<Rightarrow> (char list option \<times> 's) option"
  where
  "cat_file fuel open_op read_op release_op u a n s =
     (case open_op s of None \<Rightarrow> None
      | Some (r, s1) \<Rightarrow>
          if r \<noteq> 0 then Some (None, s1)
          else (case read_all fuel (read_op s1) u a n 0 [] of None \<Rightarrow> None
                | Some (r', out) \<Rightarrow> Some (Some out, snd (release_op s1))))"

locale exclusive_stream =
  exclusive_device open_op release_op busy good + stream_device read_op content good
  for open_op :: "'s \<Rightarrow> (int \<times> 's) option"
    and release_op :: "'s \<Rightarrow> int \<times> 's"
    and busy :: "'s \<Rightarrow> bool"
    and good :: "'s \<Rightarrow> bool"
    and read_op :: "'s \<Rightarrow> umem \<Rightarrow> nat \<Rightarrow> nat \<Rightarrow> int \<Rightarrow> read_result option"
    and content :: "'s \<Rightarrow> char list"
begin

lemma cat_file_content:
  assumes "good s" and "\<not> busy s" and "mapped u a n" and "0 < n"
    and "open_op s = Some (0, s1)" and "length (content s1) < fuel"
  shows "cat_file fuel open_op read_op release_op u a n s =
    Some (Some (content s1), snd (release_op s1))"
proof -
  have "good s1" using open_free[OF assms(1,2)] assms(5) by auto
  from read_all_from[OF this assms(3,4), of 0 fuel "[]"] assms(5,6) show ?thesis
    by (simp add: cat_file_def)
qed

lemma cat_file_refused:
  assumes "good s" and "busy s"
  shows "cat_file fuel open_op read_op release_op u a n s = Some (None, s)"
  using open_busy[OF assms] by (simp add: cat_file_def)

end

end
