(* ===== verification/Msg_Read.thy ===== *)
theory Msg_Read
  imports Vfs
begin

text \<open>
  The function \<open>device_read\<close> that \<open>chardev.c\<close>, \<open>chardev2.c\<close> and \<open>static_key.c\<close> have in
  common, statement by statement: it copies a C string from an array of the module to the
  process, one \<open>put_user\<close> per byte, whose return values it ignores.
\<close>

section \<open>The read function\<close>

text \<open>
  \<open>while (length && *msg_ptr)\<close>, with \<open>p\<close> the index of \<open>msg_ptr\<close> in the array: the new user
  memory and \<open>bytes_read\<close>, or \<open>None\<close> if the pointer leaves the array.
\<close>

fun msg_read_loop ::
    "char list \<Rightarrow> umem \<Rightarrow> nat \<Rightarrow> nat \<Rightarrow> nat \<Rightarrow> nat \<Rightarrow> (umem \<times> nat) option"
  where
  "msg_read_loop msg u p buffer 0 bytes_read = Some (u, bytes_read)"
| "msg_read_loop msg u p buffer (Suc len) bytes_read =
     (case char_at msg (int p) of
        None \<Rightarrow> None
      | Some c \<Rightarrow>
          if c = NUL then Some (u, bytes_read)
          else msg_read_loop msg (put_user u buffer c) (Suc p) (Suc buffer) len
                 (Suc bytes_read))"

definition msg_read ::
    "char list \<Rightarrow> umem \<Rightarrow> nat \<Rightarrow> nat \<Rightarrow> int \<Rightarrow> read_result option" where
  "msg_read msg u buffer len off =
     (case char_at msg off of
        None \<Rightarrow> None
      | Some c \<Rightarrow>
          if c = NUL then Some (0, 0, u)
          else (case msg_read_loop msg u (nat off) buffer len 0 of
                  None \<Rightarrow> None
                | Some (u', bytes_read) \<Rightarrow>
                    Some (int bytes_read, off + int bytes_read, u')))"

section \<open>What it reads\<close>

lemma msg_read_loop_string:
  assumes "terminated msg" and "p \<le> length (cstr msg)"
  shows "msg_read_loop msg u p a n k =
    Some (put_bytes u a (take n (drop p (cstr msg))), k + min n (length (cstr msg) - p))"
  using assms
proof (induction n arbitrary: u p a k)
  case 0
  then show ?case by simp
next
  case (Suc n)
  have p: "p < length msg"
    using Suc.prems length_cstr_less[of msg] by simp
  show ?case
  proof (cases "p = length (cstr msg)")
    case True
    with p nth_length_cstr[OF Suc.prems(1)] show ?thesis by simp
  next
    case False
    with Suc.prems(2) have q: "p < length (cstr msg)" by simp
    then have "drop p (cstr msg) = msg ! p # drop (Suc p) (cstr msg)"
      by (metis Cons_nth_drop_Suc cstr_nth_eq)
    moreover have "k + min (Suc n) (length (cstr msg) - p) =
        Suc k + min n (length (cstr msg) - Suc p)" using q by simp
    ultimately show ?thesis using Suc.IH[of "Suc p"] Suc.prems(1) p q cstr_nth[OF q] by simp
  qed
qed

lemma msg_read_string:
  assumes t: "terminated msg" and off: "off < length (cstr msg)"
  shows "msg_read msg u a n (int off) =
    Some (int (min n (length (cstr msg) - off)),
      int (off + min n (length (cstr msg) - off)),
      put_bytes u a (take n (drop off (cstr msg))))"
proof -
  have "off < length msg" using off length_cstr_less[OF t] by simp
  with cstr_nth[OF off] msg_read_loop_string[OF t, of off u a n 0] off
  show ?thesis by (simp add: msg_read_def)
qed

lemma msg_read_end:
  assumes "terminated msg"
  shows "msg_read msg u a n (int (length (cstr msg))) = Some (0, 0, u)"
  using nth_length_cstr[OF assms] length_cstr_less[OF assms] by (simp add: msg_read_def)

section \<open>When it stays in the array\<close>

lemma msg_read_loop_safe:
  "p \<le> q \<Longrightarrow> q < length msg \<Longrightarrow> msg ! q = NUL \<Longrightarrow>
    \<exists>u' k'. msg_read_loop msg u p a n k = Some (u', k') \<and> k' \<le> k + n"
proof (induction n arbitrary: u p a k)
  case 0
  then show ?case by simp
next
  case (Suc n)
  then have p: "p < length msg" by simp
  show ?case
  proof (cases "msg ! p = NUL")
    case True
    with p show ?thesis by simp
  next
    case False
    with Suc.prems have "Suc p \<le> q" using le_neq_implies_less by fastforce
    from Suc.IH[OF this Suc.prems(2,3), of "put_user u a (msg ! p)" "Suc a" "Suc k"] p False
    show ?thesis by simp
  qed
qed

text \<open>
  With a terminator in the last byte of the array, the read leaves the array exactly when
  the file offset does: the offset is not checked.
\<close>

lemma msg_read_safe_iff:
  assumes "msg \<noteq> []" and "last msg = NUL"
  shows "msg_read msg u a n off = None \<longleftrightarrow> off < 0 \<or> int (length msg) \<le> off"
proof (cases "off < 0 \<or> int (length msg) \<le> off")
  case True
  then show ?thesis by (auto simp: msg_read_def char_at_def)
next
  case False
  then have off: "nat off \<le> length msg - 1" "char_at msg off = Some (msg ! nat off)"
    by (auto simp: char_at_def)
  have last: "length msg - 1 < length msg" "msg ! (length msg - 1) = NUL"
    using assms by (simp_all add: last_conv_nth)
  from msg_read_loop_safe[OF off(1) last, of u a n 0] False off(2)
  show ?thesis by (auto simp: msg_read_def split: option.splits)
qed

text \<open>The offset after it is still in the array, so that reads one after the other stay there.\<close>

lemma msg_read_loop_stops:
  "msg_read_loop msg u p a n k = Some (u', k') \<Longrightarrow> p \<le> q \<Longrightarrow> q < length msg \<Longrightarrow> msg ! q = NUL \<Longrightarrow>
    k \<le> k' \<and> p + (k' - k) \<le> q"
proof (induction n arbitrary: u p a k)
  case 0
  then show ?case by simp
next
  case (Suc n)
  then have p: "p < length msg" by simp
  show ?case
  proof (cases "msg ! p = NUL")
    case True
    with p Suc.prems show ?thesis by simp
  next
    case False
    with Suc.prems have "Suc p \<le> q" using le_neq_implies_less by fastforce
    from Suc.IH[OF _ this Suc.prems(3,4), of "put_user u a (msg ! p)" "Suc a" "Suc k"] Suc.prems(1) p False
    show ?thesis by auto
  qed
qed

lemma msg_read_stays:
  assumes l: "length msg = Suc q" and z: "last msg = NUL" and off: "0 \<le> off" "off \<le> int q"
  shows "\<exists>r off' u'. msg_read msg u a n off = Some (r, off', u') \<and> 0 \<le> r \<and> 0 \<le> off' \<and> off' \<le> int q"
proof -
  have ne: "msg \<noteq> []" using l by auto
  have q: "q < length msg" "msg ! q = NUL" using l z ne by (simp_all add: last_conv_nth)
  from msg_read_safe_iff[OF ne z, of u a n off] off l obtain r off' u' where
    r: "msg_read msg u a n off = Some (r, off', u')" by (cases "msg_read msg u a n off") auto
  from off obtain p where p: "off = int p" "p \<le> q" by (metis nat_0_le nat_le_iff)
  from r show ?thesis using p msg_read_loop_stops[OF _ p(2) q, of u a n 0]
    by (auto simp: msg_read_def split: option.splits if_splits)
qed

interpretation msg_stream: stream_device msg_read cstr terminated
  by unfold_locales (auto simp: msg_read_string msg_read_end)

end
