(* ===== verification/Resources.thy ===== *)
theory Resources
  imports LKM_Prelude
begin

text \<open>
  What the load and unload functions of the modules acquire from the kernel and give back.

  The calls themselves are kernel code: their return values are arguments of the models of
  the load functions, one record of return values per function, so that the theorems hold for
  every combination of successes and failures. What a load function does is the list of
  the acquisitions that succeeded and of the releases, in the order of the calls. The list is
  replayed against the multiset of what is held, which finds a release of something that is
  not held (a double free) and what is still held at the end (a leak).
\<close>

section \<open>Resources and events\<close>

datatype kres =
    Chrdev int              \<comment> \<open>a registered character device major\<close>
  | ChrRegion               \<comment> \<open>a region of device numbers\<close>
  | Cdev                    \<comment> \<open>an added \<open>struct cdev\<close>\<close>
  | DevClass                \<comment> \<open>a \<open>struct class\<close>\<close>
  | DevNode int             \<comment> \<open>the device node of a major number, minor 0\<close>
  | Gpio nat                \<comment> \<open>a requested GPIO line\<close>
  | GpioArray "nat list"    \<comment> \<open>an array of GPIO lines, requested at once\<close>
  | Irq int string          \<comment> \<open>a requested interrupt line with its \<open>dev_id\<close>\<close>
  | ProcEntry string        \<comment> \<open>a file below /proc\<close>
  | Blkdev int              \<comment> \<open>a registered block device major\<close>
  | Mem string              \<comment> \<open>a memory object, by the variable that points to it\<close>
  | TagSet | BlkQueue | GenDisk | DiskLive
  | Netdev | NetdevLive
  | PlatDev | PlatDevLive | PlatDrv
  | Kobject | KmemCache
  | Kprobe_at string        \<comment> \<open>a probe at a symbol\<close>
  | DebugDir string         \<comment> \<open>a directory of debugfs with what is in it\<close>
  | Workqueue | Timer
  | Devm string             \<comment> \<open>memory that belongs to a device, by the variable that points to it\<close>
  | DmaMapping              \<comment> \<open>a streaming mapping\<close>

datatype event =
    Acq kres    \<comment> \<open>a call that acquired the resource\<close>
  | Rel kres    \<comment> \<open>a call that releases the resource, which must be held\<close>
  | Drop kres   \<comment> \<open>a call that releases the resource if it is held, such as \<open>device_destroy\<close>\<close>

fun rm :: "'a \<Rightarrow> 'a list \<Rightarrow> 'a list option" where
  "rm x [] = None"
| "rm x (y # ys) = (if x = y then Some ys else map_option ((#) y) (rm x ys))"

fun replay1 :: "kres list \<Rightarrow> event \<Rightarrow> kres list option" where
  "replay1 h (Acq r) = Some (r # h)"
| "replay1 h (Rel r) = rm r h"
| "replay1 h (Drop r) = (case rm r h of None \<Rightarrow> Some h | Some h' \<Rightarrow> Some h')"

fun replay :: "kres list \<Rightarrow> event list \<Rightarrow> kres list option" where
  "replay h [] = Some h"
| "replay h (e # es) = (case replay1 h e of None \<Rightarrow> None | Some h' \<Rightarrow> replay h' es)"

lemma replay_append:
  "replay h (xs @ ys) = (case replay h xs of None \<Rightarrow> None | Some h' \<Rightarrow> replay h' ys)"
  by (induction xs arbitrary: h) (auto split: option.splits)

lemma rm_frame: "rm x h = Some h' \<Longrightarrow> rm x (h @ g) = Some (h' @ g)"
  by (induction h arbitrary: h') (auto split: if_splits)

lemma replay1_frame:
  assumes "replay1 h e = Some h'" and "\<forall>r. e \<noteq> Drop r"
  shows "replay1 (h @ g) e = Some (h' @ g)"
  using assms by (cases e) (auto simp: rm_frame)

section \<open>Modules\<close>

text \<open>
  The contract of a module with the kernel's loader. \<open>load e s\<close> is the load function on the
  return values \<open>e\<close> and the module's variables \<open>s\<close>: its return value, the variables after
  it and its events. \<open>unload s\<close> is the unload function's list of events.
  A load that fails holds \<open>leaves e\<close> in the end; a load that succeeds holds what unloading
  gives back. The modules of the repository leave nothing but interrupts, and release none that they
  do not hold.
\<close>

fun is_irq :: "kres \<Rightarrow> bool" where
  "is_irq (Irq n d) \<longleftrightarrow> True"
| "is_irq _ \<longleftrightarrow> False"

fun spares_irqs :: "event \<Rightarrow> bool" where
  "spares_irqs (Drop r) \<longleftrightarrow> \<not> is_irq r"
| "spares_irqs _ \<longleftrightarrow> True"

lemma rm_None: "rm x h = None \<longleftrightarrow> x \<notin> set h"
  by (induction h) auto

lemma replay_frame:
  assumes "replay h es = Some h'" and "list_all spares_irqs es" and "list_all is_irq g"
  shows "replay (h @ g) es = Some (h' @ g)"
  using assms(1,2)
proof (induction es arbitrary: h)
  case Nil
  then show ?case by simp
next
  case (Cons e es)
  then obtain h1 where h1: "replay1 h e = Some h1" "replay h1 es = Some h'" by (auto split: option.splits)
  have "replay1 (h @ g) e = Some (h1 @ g)"
  proof (cases "\<exists>r. e = Drop r \<and> rm r h = None")
    case True
    then obtain r where r: "e = Drop r" "rm r h = None" by blast
    with Cons.prems(2) assms(3) have "rm r (h @ g) = None" by (auto simp: rm_None list_all_iff)
    with r h1(1) show ?thesis by simp
  next
    case False
    with h1(1) show ?thesis by (cases e) (auto simp: rm_frame split: option.splits)
  qed
  with Cons.IH[OF h1(2)] Cons.prems(2) show ?case by simp
qed

locale module_leaving =
  fixes load :: "'e \<Rightarrow> 's \<Rightarrow> int \<times> 's \<times> event list"
    and unload :: "'s \<Rightarrow> event list" and leaves :: "'e \<Rightarrow> kres list"
  assumes load_fails: "load e s = (r, s', t) \<Longrightarrow> r \<noteq> 0 \<Longrightarrow> replay [] t = Some (leaves e)"
    and load_succeeds:
      "load e s = (0, s', t) \<Longrightarrow>
        leaves e = [] \<and> (\<exists>h. replay [] t = Some h \<and> replay h (unload s') = Some [])"
    and leaves_irqs: "list_all is_irq (leaves e)"
    and spares: "load e s = (r, s', t) \<Longrightarrow> list_all spares_irqs (t @ unload s'')"

text \<open>A module that leaves nothing.\<close>

locale lkm_module = module_leaving load unload "\<lambda>_. []"
  for load :: "'e \<Rightarrow> 's \<Rightarrow> int \<times> 's \<times> event list" and unload :: "'s \<Rightarrow> event list"

text \<open>
  A session of the administrator: the module is loaded again and again, and unloaded after
  every load that succeeded.
\<close>

fun session ::
    "('e \<Rightarrow> 's \<Rightarrow> int \<times> 's \<times> event list) \<Rightarrow> ('s \<Rightarrow> event list) \<Rightarrow> 'e list \<Rightarrow> 's \<Rightarrow> event list"
  where
  "session load unload [] s = []"
| "session load unload (e # es) s =
     (case load e s of (r, s', t) \<Rightarrow>
        t @ (if r = 0 then unload s' else []) @ session load unload es s')"

fun left_over :: "('e \<Rightarrow> kres list) \<Rightarrow> 'e list \<Rightarrow> kres list" where
  "left_over leaves [] = []"
| "left_over leaves (e # es) = left_over leaves es @ leaves e"

lemma left_over_nothing [simp]: "left_over (\<lambda>_. []) es = []"
  by (induction es) simp_all

context module_leaving begin

lemma left_over_irqs: "list_all is_irq (left_over leaves es)"
  by (induction es) (simp_all add: leaves_irqs)

lemma one_load_balanced:
  assumes "load e s = (r, s', t)"
  shows "replay [] (t @ (if r = 0 then unload s' else [])) = Some (leaves e)"
proof (cases "r = 0")
  case True
  with assms load_succeeds obtain h where
    "replay [] t = Some h" "replay h (unload s') = Some []" "leaves e = []" by blast
  with True show ?thesis by (simp add: replay_append)
next
  case False
  with assms load_fails show ?thesis by (simp add: replay_append)
qed

text \<open>A session after others that have left the interrupts \<open>g\<close>.\<close>

lemma session_balanced:
  "list_all is_irq g \<Longrightarrow> replay g (session load unload es s) = Some (left_over leaves es @ g)"
proof (induction es arbitrary: s g)
  case Nil
  then show ?case by simp
next
  case (Cons e es)
  obtain r s' t where l: "load e s = (r, s', t)" by (cases "load e s") auto
  have "session load unload (e # es) s =
      (t @ (if r = 0 then unload s' else [])) @ session load unload es s'"
    by (simp add: l)
  moreover have "list_all spares_irqs (t @ (if r = 0 then unload s' else []))" using spares[OF l, of s'] by simp
  from replay_frame[OF one_load_balanced[OF l] this Cons.prems]
  have "replay g (t @ (if r = 0 then unload s' else [])) = Some (leaves e @ g)" by simp
  moreover have "list_all is_irq (leaves e @ g)" using leaves_irqs[of e] Cons.prems by simp
  note Cons.IH[OF this, of s']
  ultimately show ?case by (simp only: replay_append[of _ "t @ _"]) simp
qed

end

lemma module_leavingI:
  assumes "\<And>e s r s' t. load e s = (r, s', t) \<Longrightarrow>
      (if r = 0 then leaves e = [] \<and> (case replay [] t of None \<Rightarrow> None | Some h \<Rightarrow> replay h (unload s')) = Some []
       else replay [] t = Some (leaves e))"
    and "\<And>e. list_all is_irq (leaves e)"
    and "\<And>e s r s' t s''. load e s = (r, s', t) \<Longrightarrow> list_all spares_irqs (t @ unload s'')"
  shows "module_leaving load unload leaves"
proof
  fix e s r s' t
  assume "load e s = (r, s', t)" "r \<noteq> 0"
  with assms(1)[of e s r s' t] show "replay [] t = Some (leaves e)" by simp
next
  fix e s s' t
  assume "load e s = (0, s', t)"
  with assms(1)[of e s 0 s' t]
  show "leaves e = [] \<and> (\<exists>h. replay [] t = Some h \<and> replay h (unload s') = Some [])"
    by (auto split: option.splits)
qed (fact assms)+

lemma lkm_moduleI:
  assumes "\<And>e s r s' t. load e s = (r, s', t) \<Longrightarrow>
      (if r = 0 then (case replay [] t of None \<Rightarrow> None | Some h \<Rightarrow> replay h (unload s')) = Some []
       else replay [] t = Some [])"
    and "\<And>e s r s' t s''. load e s = (r, s', t) \<Longrightarrow> list_all spares_irqs (t @ unload s'')"
  shows "lkm_module load unload"
  unfolding lkm_module_def using assms by (intro module_leavingI) auto

end
