(* ===== verification/Chardev.thy ===== *)
theory Chardev
  imports Msg_Read Resources
begin

text \<open>
  \<open>chardev.c\<close>: a read-only device that tells how many times it was opened. One process at a
  time may open it, which the module enforces with an atomic flag.
\<close>

section \<open>State\<close>

abbreviation (input) CDEV_NOT_USED :: int where "CDEV_NOT_USED \<equiv> 0"
abbreviation (input) CDEV_EXCLUSIVE_OPEN :: int where "CDEV_EXCLUSIVE_OPEN \<equiv> 1"

record chardev =
  cd_major :: int
  cd_already_open :: int
  cd_msg :: "char list"
  cd_counter :: "32 word"

definition chardev_BUF_LEN :: nat where
  "chardev_BUF_LEN = 80"

definition chardev_zero :: chardev where
  "chardev_zero = \<lparr>cd_major = 0, cd_already_open = CDEV_NOT_USED,
     cd_msg = replicate (chardev_BUF_LEN + 1) NUL, cd_counter = 0\<rparr>"

section \<open>Load and unload\<close>

text \<open>
  The return values of the kernel calls: a major number or a negated error number, and two
  pointers. The value of \<open>device_create\<close> is not looked at by the code; it decides whether
  there is a node for \<open>device_destroy\<close> to remove.
\<close>

record chrdev_env =
  ret_register_chrdev :: int
  ret_class_create :: int
  ret_device_create :: int

definition chardev_init :: "chrdev_env \<Rightarrow> chardev \<Rightarrow> int \<times> chardev \<times> event list" where [mod_init]:
  "chardev_init e s =
     (let s = s\<lparr>cd_major := ret_register_chrdev e\<rparr> in
      if cd_major s < 0 then (cd_major s, s, [])
      else if is_err (ret_class_create e)
      then (ret_class_create e, s, [Acq (Chrdev (cd_major s)), Rel (Chrdev (cd_major s))])
      else (0, s, [Acq (Chrdev (cd_major s)), Acq DevClass] @
                  (if is_err (ret_device_create e) then [] else [Acq (DevNode (cd_major s))])))"

definition chardev_exit :: "chardev \<Rightarrow> event list" where [mod_init]:
  "chardev_exit s = [Drop (DevNode (cd_major s)), Rel DevClass, Rel (Chrdev (cd_major s))]"

section \<open>File operations\<close>

text \<open>The format of \<open>sprintf\<close>, on the value of the \<open>int\<close> it converts.\<close>

definition chardev_greeting :: "int \<Rightarrow> char list" where
  "chardev_greeting n = ''I already told you '' @ dec n @ '' times Hello world!'' @ [NL]"

definition chardev_open :: "chardev \<Rightarrow> (int \<times> chardev) option" where
  "chardev_open s =
     (let (old, v) = atomic_cmpxchg (cd_already_open s) CDEV_NOT_USED CDEV_EXCLUSIVE_OPEN;
          s = s\<lparr>cd_already_open := v\<rparr>
      in if old \<noteq> 0 then Some (- EBUSY, s)
         else (case store_str (cd_msg s) (chardev_greeting (sint (cd_counter s))) of
                 None \<Rightarrow> None
               | Some m \<Rightarrow> Some (0, s\<lparr>cd_msg := m, cd_counter := cd_counter s + 1\<rparr>)))"

definition chardev_release :: "chardev \<Rightarrow> int \<times> chardev" where
  "chardev_release s = (0, s\<lparr>cd_already_open := CDEV_NOT_USED\<rparr>)"

definition chardev_read ::
    "chardev \<Rightarrow> umem \<Rightarrow> nat \<Rightarrow> nat \<Rightarrow> int \<Rightarrow> read_result option" where
  "chardev_read s = msg_read (cd_msg s)"

definition chardev_write :: "chardev \<Rightarrow> umem \<Rightarrow> nat \<Rightarrow> nat \<Rightarrow> int \<Rightarrow> int \<times> chardev" where
  "chardev_write s u buff len off = (- EINVAL, s)"

section \<open>Invariant\<close>

definition chardev_good :: "chardev \<Rightarrow> bool" where
  "chardev_good s \<longleftrightarrow>
     length (cd_msg s) = chardev_BUF_LEN + 1 \<and> last (cd_msg s) = NUL \<and>
     cd_already_open s \<in> {CDEV_NOT_USED, CDEV_EXCLUSIVE_OPEN}"

definition chardev_busy :: "chardev \<Rightarrow> bool" where
  "chardev_busy s \<longleftrightarrow> cd_already_open s \<noteq> CDEV_NOT_USED"

lemma chardev_zero_good: "chardev_good chardev_zero"
  by (simp add: chardev_good_def chardev_zero_def)

lemma chardev_zero_free: "\<not> chardev_busy chardev_zero"
  by (simp add: chardev_busy_def chardev_zero_def)

lemma chardev_good_terminated: "chardev_good s \<Longrightarrow> terminated (cd_msg s)"
  by (rule last_NUL_terminated) (auto simp: chardev_good_def)

lemma NUL_notin_greeting [simp]: "NUL \<notin> set (chardev_greeting n)"
  by (simp add: chardev_greeting_def)

lemma length_greeting: "length (chardev_greeting (sint (w :: 32 word))) \<le> 51"
  using length_dec_int32[of w] by (simp add: chardev_greeting_def)

text \<open>The greeting of any counter fits, and its terminator is not in the last byte.\<close>

lemma chardev_open_free:
  assumes g: "chardev_good s" and f: "\<not> chardev_busy s"
  shows "\<exists>s'. chardev_open s = Some (0, s') \<and> chardev_busy s' \<and> chardev_good s' \<and>
    cstr (cd_msg s') = chardev_greeting (sint (cd_counter s)) \<and>
    cd_counter s' = cd_counter s + 1"
proof -
  let ?g = "chardev_greeting (sint (cd_counter s))"
  have len: "length (?g @ [NUL]) < length (cd_msg s)"
    using g length_greeting[of "cd_counter s"] by (simp add: chardev_good_def chardev_BUF_LEN_def)
  then have "store_str (cd_msg s) ?g = Some (put_front (?g @ [NUL]) (cd_msg s))"
    by (intro store_str_Some) simp
  moreover have "length (put_front (?g @ [NUL]) (cd_msg s)) = length (cd_msg s)"
    using len by (intro length_put_front) simp
  ultimately show ?thesis using g f put_front_last[OF len]
    by (simp add: chardev_open_def atomic_cmpxchg_def chardev_busy_def chardev_good_def)
qed

lemma chardev_open_busy:
  assumes "chardev_busy s"
  shows "chardev_open s = Some (- EBUSY, s)"
  using assms by (simp add: chardev_open_def atomic_cmpxchg_def chardev_busy_def)

interpretation chardev_dev:
  exclusive_stream chardev_open chardev_release chardev_busy chardev_good chardev_read
    "\<lambda>s. cstr (cd_msg s)"
proof
  fix s
  assume "chardev_good s" "\<not> chardev_busy s"
  from chardev_open_free[OF this]
  show "\<exists>s'. chardev_open s = Some (0, s') \<and> chardev_busy s' \<and> chardev_good s'" by blast
next
  fix s
  assume "chardev_good s" "chardev_busy s"
  then show "chardev_open s = Some (- EBUSY, s)" by (simp add: chardev_open_busy)
next
  fix s
  assume "chardev_good s"
  then show "fst (chardev_release s) = 0 \<and> \<not> chardev_busy (snd (chardev_release s)) \<and>
      chardev_good (snd (chardev_release s))"
    by (simp add: chardev_release_def chardev_busy_def chardev_good_def)
qed (auto simp: chardev_read_def chardev_good_terminated msg_stream.read_piece
    msg_stream.read_end)

interpretation chardev_mod: lkm_module chardev_init chardev_exit
  by (rule lkm_moduleI) (auto simp: mod_init split: if_splits)

section \<open>Sessions\<close>

text \<open>
  A sequence of \<open>k\<close> processes that each open the device, read it to the end with a buffer of
  \<open>n\<close> bytes at \<open>a\<close>, and close it: their outputs.
\<close>

definition chardev_cat ::
    "umem \<Rightarrow> nat \<Rightarrow> nat \<Rightarrow> chardev \<Rightarrow> (char list option \<times> chardev) option" where
  "chardev_cat = cat_file (chardev_BUF_LEN + 2) chardev_open chardev_read chardev_release"

fun chardev_cats ::
    "nat \<Rightarrow> umem \<Rightarrow> nat \<Rightarrow> nat \<Rightarrow> chardev \<Rightarrow> (char list option list \<times> chardev) option" where
  "chardev_cats 0 u a n s = Some ([], s)"
| "chardev_cats (Suc k) u a n s =
     (case chardev_cat u a n s of None \<Rightarrow> None
      | Some (out, s') \<Rightarrow> map_option (\<lambda>(outs, s''). (out # outs, s'')) (chardev_cats k u a n s'))"

lemma chardev_cat_greets:
  assumes g: "chardev_good s" and f: "\<not> chardev_busy s" and m: "mapped u a n" and n: "0 < n"
  shows "\<exists>s'. chardev_cat u a n s = Some (Some (chardev_greeting (sint (cd_counter s))), s') \<and>
    chardev_good s' \<and> \<not> chardev_busy s' \<and> cd_counter s' = cd_counter s + 1"
proof -
  from chardev_open_free[OF g f] obtain s1 where
    o1: "chardev_open s = Some (0, s1)" and g1: "chardev_good s1" and
    c1: "cstr (cd_msg s1) = chardev_greeting (sint (cd_counter s))" and
    k1: "cd_counter s1 = cd_counter s + 1" by blast
  have "length (cstr (cd_msg s1)) < chardev_BUF_LEN + 2"
    using length_cstr_less[OF chardev_good_terminated[OF g1]] g1 by (simp add: chardev_good_def)
  from chardev_dev.cat_file_content[OF g f m n o1 this] g1 c1 k1 show ?thesis
    by (simp add: chardev_cat_def chardev_release_def chardev_good_def chardev_busy_def)
qed

lemma chardev_cats_from:
  assumes "chardev_good s" and "\<not> chardev_busy s" and "mapped u a n" and "0 < n"
  shows "\<exists>s'. chardev_cats k u a n s =
    Some (map (\<lambda>i. Some (chardev_greeting (sint (cd_counter s + of_nat i)))) [0..<k], s')"
  using assms
proof (induction k arbitrary: s)
  case 0
  then show ?case by simp
next
  case (Suc k)
  from chardev_cat_greets[OF Suc.prems] obtain s1 where
    1: "chardev_cat u a n s = Some (Some (chardev_greeting (sint (cd_counter s))), s1)"
    "chardev_good s1" "\<not> chardev_busy s1" "cd_counter s1 = cd_counter s + 1" by blast
  from Suc.IH[OF 1(2,3) Suc.prems(3,4)] obtain s2 where
    2: "chardev_cats k u a n s1 =
      Some (map (\<lambda>i. Some (chardev_greeting (sint (cd_counter s1 + of_nat i)))) [0..<k], s2)" by blast
  have "map (\<lambda>i. Some (chardev_greeting (sint (cd_counter s + of_nat i)))) [0..<Suc k] =
    Some (chardev_greeting (sint (cd_counter s))) #
      map (\<lambda>i. Some (chardev_greeting (sint (cd_counter s1 + of_nat i)))) [0..<k]"
    by (simp add: upt_conv_Cons[OF zero_less_Suc] map_Suc_upt[symmetric] comp_def 1(4)
        add.assoc del: upt_Suc)
  with 1 2 show ?case by simp
qed

section \<open>Properties\<close>

text \<open>
  The k-th process that reads the device to its end, with a buffer of any size
  above 0, gets the greeting with the number k - 1, the counter read as a signed 32-bit
  integer that wraps.
\<close>

lemma chardev_counts_its_readers:
  assumes "mapped u a n" and "0 < n"
  shows "\<exists>s'. chardev_cats k u a n chardev_zero =
    Some (map (\<lambda>i. Some (chardev_greeting (sint (of_nat i :: 32 word)))) [0..<k], s')"
  using chardev_cats_from[OF chardev_zero_good chardev_zero_free assms, of k]
  by (simp add: chardev_zero_def)

lemma chardev_counts_its_readers_witness:
  "\<exists>s'. chardev_cats 2 (\<lambda>_. Some NUL) 0 3 chardev_zero =
    Some ([Some (chardev_greeting 0), Some (chardev_greeting 1)], s')"
  using chardev_counts_its_readers[of "\<lambda>_. Some NUL" 0 3 2]
  by (simp add: mapped_iff numeral_2_eq_2)

text \<open>
  Whatever the processes do in opening and closing the device after it is loaded,
  no array is left, at most one open file exists, the flag \<open>already_open\<close> is set exactly
  when one does, and the invariant of the message buffer holds.
\<close>

lemma chardev_exclusive:
  "\<exists>s fs. vfs_run chardev_open chardev_release (chardev_zero, []) es = Some (s, fs) \<and>
    length fs \<le> 1 \<and> (chardev_busy s \<longleftrightarrow> fs \<noteq> []) \<and> chardev_good s"
  by (rule chardev_dev.at_most_one_file[OF chardev_zero_good chardev_zero_free])

text \<open>
  In every state that opening and closing reach, a read of any length leaves
  the array \<open>msg\<close> if and only if the file offset is negative or above 80. The offset is the
  process's (\<open>pread\<close>), and the code does not check it.
\<close>

lemma chardev_read_in_bounds_iff:
  assumes "vfs_run chardev_open chardev_release (chardev_zero, []) es = Some (s, fs)"
  shows "chardev_read s u a n off = None \<longleftrightarrow> off < 0 \<or> 80 < off"
proof -
  from chardev_dev.at_most_one_file[OF chardev_zero_good chardev_zero_free, of es] assms
  have "chardev_good s" by auto
  then have "cd_msg s \<noteq> []" "last (cd_msg s) = NUL" "length (cd_msg s) = 81"
    by (auto simp: chardev_good_def chardev_BUF_LEN_def)
  with msg_read_safe_iff[of "cd_msg s" u a n off] show ?thesis
    by (auto simp: chardev_read_def)
qed

lemma chardev_read_in_bounds_iff_witness:
  "chardev_read chardev_zero (\<lambda>_. None) 0 10 81 = None"
  using chardev_read_in_bounds_iff[of "[]" chardev_zero "[]" "\<lambda>_. None" 0 10 81] by simp

end
