(* ===== verification/Chardev2.thy ===== *)
theory Chardev2
  imports Chardev
begin

text \<open>
  \<open>chardev2.c\<close> with \<open>chardev.h\<close>: a device whose message is written and read, by the file
  operations and by three ioctls, and \<open>userspace_ioctl.c\<close>, the process that uses them.
\<close>

section \<open>ioctl numbers\<close>

text \<open>
  The encoding of an ioctl number in 32 bits: direction, size of the argument, type, number.
\<close>

definition ioc :: "32 word \<Rightarrow> 32 word \<Rightarrow> 32 word \<Rightarrow> 32 word \<Rightarrow> 32 word" where
  "ioc dir type nr sz =
     push_bit 30 dir OR push_bit 16 sz OR push_bit 8 type OR nr"

definition MAJOR_NUM :: int where
  "MAJOR_NUM = 100"

definition IOCTL_SET_MSG :: "32 word" where
  "IOCTL_SET_MSG = ioc 1 (of_int MAJOR_NUM) 0 8"

definition IOCTL_GET_MSG :: "32 word" where
  "IOCTL_GET_MSG = ioc 2 (of_int MAJOR_NUM) 1 8"

definition IOCTL_GET_NTH_BYTE :: "32 word" where
  "IOCTL_GET_NTH_BYTE = ioc 3 (of_int MAJOR_NUM) 2 4"

lemma ioctl_nums:
  "IOCTL_SET_MSG = 0x40086400" "IOCTL_GET_MSG = 0x80086401" "IOCTL_GET_NTH_BYTE = 0xC0046402"
  by (simp_all add: IOCTL_SET_MSG_def IOCTL_GET_MSG_def IOCTL_GET_NTH_BYTE_def ioc_def
      MAJOR_NUM_def)

lemma ioctl_nums_distinct [simp]:
  "IOCTL_SET_MSG \<noteq> IOCTL_GET_MSG" "IOCTL_SET_MSG \<noteq> IOCTL_GET_NTH_BYTE"
  "IOCTL_GET_MSG \<noteq> IOCTL_GET_NTH_BYTE" "IOCTL_GET_MSG \<noteq> IOCTL_SET_MSG"
  "IOCTL_GET_NTH_BYTE \<noteq> IOCTL_SET_MSG" "IOCTL_GET_NTH_BYTE \<noteq> IOCTL_GET_MSG"
  by (simp_all add: ioctl_nums)

section \<open>State, load and unload\<close>

record chardev2 =
  c2_already_open :: int
  c2_message :: "char list"

definition chardev2_BUF_LEN :: nat where
  "chardev2_BUF_LEN = 80"

definition chardev2_zero :: chardev2 where
  "chardev2_zero = \<lparr>c2_already_open = CDEV_NOT_USED,
     c2_message = replicate (chardev2_BUF_LEN + 1) NUL\<rparr>"

definition chardev2_init :: "chrdev_env \<Rightarrow> chardev2 \<Rightarrow> int \<times> chardev2 \<times> event list" where [mod_init]:
  "chardev2_init e s =
     (let ret_val = ret_register_chrdev e in
      if ret_val < 0 then (ret_val, s, [])
      else if is_err (ret_class_create e)
      then (ret_class_create e, s, [Acq (Chrdev MAJOR_NUM), Rel (Chrdev MAJOR_NUM)])
      else (0, s, [Acq (Chrdev MAJOR_NUM), Acq DevClass] @
                  (if is_err (ret_device_create e) then [] else [Acq (DevNode MAJOR_NUM)])))"

definition chardev2_exit :: "chardev2 \<Rightarrow> event list" where [mod_init]:
  "chardev2_exit s = [Drop (DevNode MAJOR_NUM), Rel DevClass, Rel (Chrdev MAJOR_NUM)]"

section \<open>File operations\<close>

definition chardev2_open :: "chardev2 \<Rightarrow> int \<times> chardev2" where
  "chardev2_open s = (0, s)"

definition chardev2_release :: "chardev2 \<Rightarrow> int \<times> chardev2" where
  "chardev2_release s = (0, s)"

definition chardev2_read ::
    "chardev2 \<Rightarrow> umem \<Rightarrow> nat \<Rightarrow> nat \<Rightarrow> int \<Rightarrow> read_result option" where
  "chardev2_read s = msg_read (c2_message s)"

text \<open>
  \<open>for (i = 0; i < length && i < BUF_LEN; i++) get_user (message[i], buffer + i)\<close>: the array
  and \<open>i\<close> after the loop.
\<close>

function chardev2_write_loop ::
    "umem \<Rightarrow> nat \<Rightarrow> nat \<Rightarrow> nat \<Rightarrow> char list \<Rightarrow> (char list \<times> nat) option" where
  "chardev2_write_loop u buffer len i message =
     (if i < len \<and> i < chardev2_BUF_LEN
      then (if i < length message
            then chardev2_write_loop u buffer len (Suc i)
                   (message[i := get_user u (buffer + i)])
            else None)
      else Some (message, i))"
  by pat_completeness auto
termination
  by (relation "measure (\<lambda>(u, buffer, len, i, message). len - i)") auto

declare chardev2_write_loop.simps [simp del]

definition chardev2_write ::
    "chardev2 \<Rightarrow> umem \<Rightarrow> nat \<Rightarrow> nat \<Rightarrow> (int \<times> chardev2) option" where
  "chardev2_write s u buffer len =
     (case chardev2_write_loop u buffer len 0 (c2_message s) of
        None \<Rightarrow> None
      | Some (m, i) \<Rightarrow> Some (int i, s\<lparr>c2_message := m\<rparr>))"

text \<open>
  \<open>for (i = 0; ch && i < BUF_LEN; i++, tmp++) get_user (ch, tmp)\<close>: \<open>i\<close> after the loop.
\<close>

function set_msg_length :: "umem \<Rightarrow> nat \<Rightarrow> char \<Rightarrow> nat \<Rightarrow> nat" where
  "set_msg_length u tmp ch i =
     (if ch \<noteq> NUL \<and> i < chardev2_BUF_LEN
      then set_msg_length u (Suc tmp) (get_user u tmp) (Suc i)
      else i)"
  by pat_completeness auto
termination
  by (relation "measure (\<lambda>(u, tmp, ch, i). chardev2_BUF_LEN - i)") auto

declare set_msg_length.simps [simp del]

text \<open>A \<open>char\<close> is signed on the machines modelled; \<open>(long) message[n]\<close> extends its sign.\<close>

definition schar :: "char \<Rightarrow> int" where
  "schar c = (let n = of_char c in if n < 128 then n else n - 256)"

definition chardev2_ioctl ::
    "chardev2 \<Rightarrow> umem \<Rightarrow> 32 word \<Rightarrow> nat \<Rightarrow> (int \<times> chardev2 \<times> umem) option" where
  "chardev2_ioctl s u ioctl_num ioctl_param =
     (let (old, v) = atomic_cmpxchg (c2_already_open s) CDEV_NOT_USED CDEV_EXCLUSIVE_OPEN;
          s = s\<lparr>c2_already_open := v\<rparr>
      in if old \<noteq> 0 then Some (- EBUSY, s, u)
         else
           map_option
             (\<lambda>(ret, s, u). (ret, s\<lparr>c2_already_open := CDEV_NOT_USED\<rparr>, u))
             (if ioctl_num = IOCTL_SET_MSG then
                (let i = set_msg_length u ioctl_param (get_user u ioctl_param) 0
                 in map_option (\<lambda>(_, s). (0, s, u)) (chardev2_write s u ioctl_param i))
              else if ioctl_num = IOCTL_GET_MSG then
                (case chardev2_read s u ioctl_param 99 0 of
                   None \<Rightarrow> None
                 | Some (i, off, u) \<Rightarrow> Some (0, s, put_user u (ioctl_param + nat i) NUL))
              else if ioctl_num = IOCTL_GET_NTH_BYTE then
                map_option (\<lambda>c. (schar c, s, u)) (char_at (c2_message s) (int ioctl_param))
              else Some (0, s, u)))"

section \<open>Invariant\<close>

definition chardev2_good :: "chardev2 \<Rightarrow> bool" where
  "chardev2_good s \<longleftrightarrow>
     length (c2_message s) = chardev2_BUF_LEN + 1 \<and> last (c2_message s) = NUL"

lemma chardev2_zero_good: "chardev2_good chardev2_zero"
  by (simp add: chardev2_good_def chardev2_zero_def)

lemma chardev2_good_terminated: "chardev2_good s \<Longrightarrow> terminated (c2_message s)"
  by (rule last_NUL_terminated) (auto simp: chardev2_good_def)

lemma chardev2_write_loop_from:
  assumes "length xs = Suc chardev2_BUF_LEN" and "i \<le> min len chardev2_BUF_LEN"
  shows "chardev2_write_loop u a len i (put_front (get_bytes u a i) xs) =
    Some (put_front (get_bytes u a (min len chardev2_BUF_LEN)) xs, min len chardev2_BUF_LEN)"
  using assms
proof (induction "min len chardev2_BUF_LEN - i" arbitrary: i)
  case 0
  then have "i = min len chardev2_BUF_LEN" by simp
  then show ?case by (subst chardev2_write_loop.simps) auto
next
  case (Suc k)
  then have i: "i < len" "i < chardev2_BUF_LEN" by auto
  have "k = min len chardev2_BUF_LEN - Suc i" using Suc.hyps(2) by simp
  from Suc.hyps(1)[OF this] Suc.prems i get_bytes_snoc_upd[of i xs u a]
  show ?case by (subst chardev2_write_loop.simps) simp
qed

text \<open>A write stores the first 80 bytes of the buffer over the front of the message.\<close>

lemma chardev2_write_eq:
  assumes "chardev2_good s"
  shows "chardev2_write s u a len =
    Some (int (min len chardev2_BUF_LEN),
      s\<lparr>c2_message := put_front (get_bytes u a (min len chardev2_BUF_LEN)) (c2_message s)\<rparr>)"
  using assms chardev2_write_loop_from[of "c2_message s" 0 len u a]
  by (simp add: chardev2_write_def chardev2_good_def)

lemma chardev2_write_good:
  assumes "chardev2_good s" and "chardev2_write s u a len = Some (r, s')"
  shows "chardev2_good s'"
  using assms put_front_last[of "get_bytes u a (min len chardev2_BUF_LEN)" "c2_message s"]
  by (auto simp: chardev2_write_eq chardev2_good_def)

interpretation chardev2_stream:
  stream_device chardev2_read "\<lambda>s. cstr (c2_message s)" chardev2_good
  using msg_stream.read_piece msg_stream.read_end
  by unfold_locales (auto simp: chardev2_read_def chardev2_good_terminated)

interpretation chardev2_mod: lkm_module chardev2_init chardev2_exit
  by (rule lkm_moduleI) (auto simp: mod_init split: if_splits)

section \<open>The ioctls\<close>

text \<open>The string at user address \<open>p\<close>, terminated, in accessible memory.\<close>

definition user_string :: "umem \<Rightarrow> nat \<Rightarrow> char list \<Rightarrow> bool" where
  "user_string u p str \<longleftrightarrow>
     mapped u p (Suc (length str)) \<and> get_bytes u p (Suc (length str)) = str @ [NUL] \<and>
     NUL \<notin> set str"

lemma user_string_nth:
  "user_string u p str \<Longrightarrow> i < length str \<Longrightarrow> get_user u (p + i) = str ! i"
  by (metis get_bytes_nth less_SucI nth_append user_string_def)

lemma user_string_end: "user_string u p str \<Longrightarrow> get_user u (p + length str) = NUL"
  by (metis get_bytes_nth lessI nth_append_length user_string_def)

text \<open>
  The loop counts the terminator: one more than the length of a string that is not empty and
  shorter than the buffer. For an empty string it is 0.
\<close>

lemma set_msg_length_from:
  assumes "user_string u p str" and "i \<le> length str" and "i \<le> chardev2_BUF_LEN" and "str \<noteq> []"
  shows "set_msg_length u (p + i) (str ! (i - 1)) i = min (Suc (length str)) chardev2_BUF_LEN"
  using assms
proof (induction "chardev2_BUF_LEN - i" arbitrary: i)
  case 0
  then have "i = chardev2_BUF_LEN" by simp
  with 0 show ?case by (subst set_msg_length.simps) simp
next
  case (Suc k)
  have i80: "i < chardev2_BUF_LEN" using Suc.hyps(2) by simp
  have "str ! (i - 1) \<in> set str" using Suc.prems by (intro nth_mem) (cases i, auto)
  then have nz: "str ! (i - 1) \<noteq> NUL" using Suc.prems(1) by (auto simp: user_string_def)
  show ?case
  proof (cases "i = length str")
    case True
    have "set_msg_length u (p + i) (str ! (i - 1)) i =
        set_msg_length u (Suc (p + i)) NUL (Suc i)"
      using nz i80 user_string_end[OF Suc.prems(1)] True by (subst set_msg_length.simps) simp
    also have "\<dots> = Suc i" by (subst set_msg_length.simps) simp
    finally show ?thesis using True i80 by simp
  next
    case False
    with Suc.prems have i: "i < length str" by simp
    have "set_msg_length u (p + i) (str ! (i - 1)) i =
        set_msg_length u (p + Suc i) (str ! (Suc i - 1)) (Suc i)"
      using nz i80 user_string_nth[OF Suc.prems(1) i] by (subst set_msg_length.simps) simp
    also have "\<dots> = min (Suc (length str)) chardev2_BUF_LEN"
      by (rule Suc.hyps(1)) (use Suc.hyps(2) Suc.prems i i80 in auto)
    finally show ?thesis .
  qed
qed

lemma set_msg_length_string:
  assumes "user_string u p str"
  shows "set_msg_length u p (get_user u p) 0 =
    (if str = [] then 0 else min (Suc (length str)) chardev2_BUF_LEN)"
proof (cases "str = []")
  case True
  then show ?thesis using user_string_end[OF assms] by (subst set_msg_length.simps) simp
next
  case False
  then have "get_user u p = str ! (0 - 1)" using user_string_nth[OF assms, of 0] by simp
  with set_msg_length_from[OF assms, of 0] False show ?thesis by simp
qed

lemma user_string_take:
  "user_string u p str \<Longrightarrow> k \<le> length str \<Longrightarrow> get_bytes u p k = take k str"
  by (intro nth_equalityI) (auto simp: user_string_nth)

lemma cstr_put_front_long:
  assumes "NUL \<notin> set ys" and "length xs = Suc (length ys)" and "last xs = NUL"
  shows "cstr (put_front ys xs) = ys"
proof -
  have "drop (length ys) xs = [NUL]"
  proof (intro nth_equalityI)
    show "length (drop (length ys) xs) = length [NUL]" using assms(2) by simp
    show "drop (length ys) xs ! i = [NUL] ! i" if "i < length (drop (length ys) xs)" for i
      using that assms(2,3) by (cases xs rule: rev_cases) auto
  qed
  then show ?thesis using assms(1) by (simp add: put_front_def)
qed

text \<open>\<open>IOCTL_SET_MSG\<close>: the message becomes the first 80 bytes of the string, unless it is empty.\<close>

lemma ioctl_set_msg_string:
  assumes g: "chardev2_good s" and f: "c2_already_open s = CDEV_NOT_USED"
    and str: "user_string u p str"
  shows "\<exists>s'. chardev2_ioctl s u IOCTL_SET_MSG p = Some (0, s', u) \<and> chardev2_good s' \<and>
    c2_already_open s' = CDEV_NOT_USED \<and>
    cstr (c2_message s') = (if str = [] then cstr (c2_message s) else take 80 str)"
proof -
  let ?n = "if str = [] then 0 else min (Suc (length str)) chardev2_BUF_LEN"
  let ?m = "put_front (get_bytes u p ?n) (c2_message s)"
  let ?s = "s\<lparr>c2_already_open := CDEV_NOT_USED, c2_message := ?m\<rparr>"
  have io: "chardev2_ioctl s u IOCTL_SET_MSG p = Some (0, ?s, u)"
  proof -
    have "chardev2_good (s\<lparr>c2_already_open := CDEV_EXCLUSIVE_OPEN\<rparr>)"
      using g by (simp add: chardev2_good_def)
    then show ?thesis using f set_msg_length_string[OF str]
      by (simp add: chardev2_ioctl_def atomic_cmpxchg_def chardev2_write_eq Let_def)
  qed
  have m: "length (c2_message s) = 81" "last (c2_message s) = NUL"
    using g by (auto simp: chardev2_good_def chardev2_BUF_LEN_def)
  have n: "length (get_bytes u p ?n) < length (c2_message s)"
    using m by (simp add: chardev2_BUF_LEN_def min_less_iff_disj)
  have c: "cstr ?m = (if str = [] then cstr (c2_message s) else take 80 str)"
  proof (cases "str = [] \<or> length str < 80")
    case True
    then show ?thesis using str by (auto simp: user_string_def chardev2_BUF_LEN_def put_front_def)
  next
    case False
    then have k: "?n = 80" "80 \<le> length str" "str \<noteq> []" by (auto simp: chardev2_BUF_LEN_def)
    have "NUL \<notin> set (take 80 str)" using str in_set_takeD by (fastforce simp: user_string_def)
    with k user_string_take[OF str k(2)] m
    show ?thesis by (simp add: cstr_put_front_long)
  qed
  have "chardev2_good ?s"
    using m n put_front_last[OF n] by (simp add: chardev2_good_def chardev2_BUF_LEN_def)
  with io c show ?thesis by simp
qed

text \<open>\<open>IOCTL_GET_MSG\<close>: the message and a terminator are put into the buffer.\<close>

lemma ioctl_get_msg_string:
  assumes g: "chardev2_good s" and f: "c2_already_open s = CDEV_NOT_USED"
  shows "chardev2_ioctl s u IOCTL_GET_MSG p =
    Some (0, s, put_bytes u p (cstr (c2_message s) @ [NUL]))"
proof -
  let ?c = "cstr (c2_message s)"
  have t: "terminated (c2_message s)" using chardev2_good_terminated[OF g] .
  have len: "length ?c \<le> 80"
    using length_cstr_less[OF t] g by (simp add: chardev2_good_def chardev2_BUF_LEN_def)
  have r: "msg_read (c2_message s) u p 99 0 =
      Some (int (length ?c), if ?c = [] then 0 else int (length ?c), put_bytes u p ?c)"
  proof (cases "?c = []")
    case True
    then show ?thesis using msg_read_end[OF t, of u p 99] by simp
  next
    case False
    then show ?thesis using msg_read_string[OF t, of 0 u p 99] len by simp
  qed
  have "s\<lparr>c2_already_open := CDEV_NOT_USED\<rparr> = s" using f by simp
  then show ?thesis using f r
    by (simp add: chardev2_ioctl_def atomic_cmpxchg_def chardev2_read_def put_bytes_append)
qed

lemma ioctl_get_nth_byte:
  assumes f: "c2_already_open s = CDEV_NOT_USED" and "i < length (c2_message s)"
  shows "chardev2_ioctl s u IOCTL_GET_NTH_BYTE i = Some (schar (c2_message s ! i), s, u)"
  using assms by (simp add: chardev2_ioctl_def atomic_cmpxchg_def)

section \<open>Any sequence of calls\<close>

text \<open>
  A call of \<open>read\<close> with its offset, of \<open>write\<close>, or of \<open>ioctl\<close>, each by some process with its memory.
\<close>

datatype chardev2_call =
    ReadCall umem nat nat int
  | WriteCall umem nat nat
  | IoctlCall umem "32 word" nat

definition chardev2_exec :: "chardev2 \<Rightarrow> chardev2_call \<Rightarrow> chardev2 option" where
  "chardev2_exec s call =
     (case call of
        ReadCall u a n off \<Rightarrow> map_option (\<lambda>_. s) (chardev2_read s u a n off)
      | WriteCall u a n \<Rightarrow> map_option snd (chardev2_write s u a n)
      | IoctlCall u num p \<Rightarrow> map_option (\<lambda>(r, s, u). s) (chardev2_ioctl s u num p))"

fun chardev2_run :: "chardev2 \<Rightarrow> chardev2_call list \<Rightarrow> chardev2 option" where
  "chardev2_run s [] = Some s"
| "chardev2_run s (call # calls) =
     (case chardev2_exec s call of None \<Rightarrow> None | Some s' \<Rightarrow> chardev2_run s' calls)"

text \<open>The calls that name a place in the array: it has 81 bytes.\<close>

definition call_in_bounds :: "chardev2_call \<Rightarrow> bool" where
  "call_in_bounds call =
     (case call of
        ReadCall u a n off \<Rightarrow> 0 \<le> off \<and> off \<le> 80
      | WriteCall u a n \<Rightarrow> True
      | IoctlCall u num p \<Rightarrow> num = IOCTL_GET_NTH_BYTE \<longrightarrow> p \<le> 80)"

definition chardev2_idle :: "chardev2 \<Rightarrow> bool" where
  "chardev2_idle s \<longleftrightarrow> chardev2_good s \<and> c2_already_open s = CDEV_NOT_USED"

lemma chardev2_read_safe_iff:
  assumes "chardev2_good s"
  shows "chardev2_read s u a n off = None \<longleftrightarrow> off < 0 \<or> 80 < off"
proof -
  have "c2_message s \<noteq> []" "last (c2_message s) = NUL" "length (c2_message s) = 81"
    using assms by (auto simp: chardev2_good_def chardev2_BUF_LEN_def)
  with msg_read_safe_iff[of "c2_message s" u a n off] show ?thesis
    by (auto simp: chardev2_read_def)
qed

lemma chardev2_ioctl_idle:
  assumes s: "chardev2_idle s"
  shows "if num = IOCTL_GET_NTH_BYTE \<and> 80 < p then chardev2_ioctl s u num p = None
    else \<exists>r s' u'. chardev2_ioctl s u num p = Some (r, s', u') \<and> chardev2_idle s'"
proof -
  let ?s = "s\<lparr>c2_already_open := CDEV_EXCLUSIVE_OPEN\<rparr>"
  from s have f: "c2_already_open s = CDEV_NOT_USED" and g: "chardev2_good ?s"
    by (simp_all add: chardev2_idle_def chardev2_good_def)
  have l: "length (c2_message s) = 81" using g by (simp add: chardev2_good_def chardev2_BUF_LEN_def)
  have idle: "chardev2_idle (s'\<lparr>c2_already_open := CDEV_NOT_USED\<rparr>)" if "chardev2_good s'" for s'
    using that by (simp add: chardev2_idle_def chardev2_good_def)
  consider "num = IOCTL_SET_MSG" | "num = IOCTL_GET_MSG" "num \<noteq> IOCTL_SET_MSG"
    | "num = IOCTL_GET_NTH_BYTE" "num \<noteq> IOCTL_SET_MSG" "num \<noteq> IOCTL_GET_MSG"
    | "num \<noteq> IOCTL_SET_MSG" "num \<noteq> IOCTL_GET_MSG" "num \<noteq> IOCTL_GET_NTH_BYTE" by blast
  then show ?thesis
  proof cases
    case 1
    obtain r s' where w: "chardev2_write ?s u p (set_msg_length u p (get_user u p) 0) = Some (r, s')"
      using chardev2_write_eq[OF g] by blast
    from idle[OF chardev2_write_good[OF g w]] 1 f w show ?thesis
      by (simp add: chardev2_ioctl_def atomic_cmpxchg_def Let_def)
  next
    case 2
    from chardev2_read_safe_iff[OF g, of u p 99 0] obtain i off u' where
      "chardev2_read ?s u p 99 0 = Some (i, off, u')" by (cases "chardev2_read ?s u p 99 0") auto
    with idle[OF g] 2 f show ?thesis
      by (simp add: chardev2_ioctl_def atomic_cmpxchg_def)
  next
    case 3
    with idle[OF g] f l show ?thesis
      by (auto simp: chardev2_ioctl_def atomic_cmpxchg_def char_at_def)
  next
    case 4
    with idle[OF g] f show ?thesis by (simp add: chardev2_ioctl_def atomic_cmpxchg_def)
  qed
qed

lemma chardev2_exec_idle:
  assumes s: "chardev2_idle s"
  shows "if call_in_bounds call then \<exists>s'. chardev2_exec s call = Some s' \<and> chardev2_idle s'
    else chardev2_exec s call = None"
proof (cases call)
  case (ReadCall u a n off)
  from s have "chardev2_good s" by (simp add: chardev2_idle_def)
  from chardev2_read_safe_iff[OF this, of u a n off] s ReadCall show ?thesis
    by (cases "chardev2_read s u a n off") (auto simp: chardev2_exec_def call_in_bounds_def)
next
  case (WriteCall u a n)
  from s have g: "chardev2_good s" by (simp add: chardev2_idle_def)
  obtain r s' where w: "chardev2_write s u a n = Some (r, s')" "c2_already_open s' = c2_already_open s"
    using chardev2_write_eq[OF g, of u a n] by simp
  from chardev2_write_good[OF g w(1)] w s WriteCall show ?thesis
    by (simp add: chardev2_exec_def call_in_bounds_def chardev2_idle_def)
next
  case (IoctlCall u num p)
  from chardev2_ioctl_idle[OF s, of num p u] IoctlCall show ?thesis
    by (auto simp: chardev2_exec_def call_in_bounds_def split: if_splits)
qed

lemma chardev2_run_idle:
  "chardev2_idle s \<Longrightarrow>
    (if list_all call_in_bounds calls then \<exists>s'. chardev2_run s calls = Some s' \<and> chardev2_idle s'
     else chardev2_run s calls = None)"
proof (induction calls arbitrary: s)
  case Nil
  then show ?case by simp
next
  case (Cons call calls)
  from chardev2_exec_idle[OF Cons.prems, of call] Cons.IH show ?case
    by (cases "call_in_bounds call") (auto split: if_splits)
qed

text \<open>
  C33 (type): for any sequence of reads, writes and ioctls of the device, from its start: if all
  offsets of reads and all numbers of bytes asked for are at most 80, no access leaves an array,
  and afterwards the message has 81 bytes of which the last is the terminator, and the device
  is not busy; otherwise some access leaves the array.
\<close>

theorem chardev2_calls_typed:
  "if list_all call_in_bounds calls
   then \<exists>s. chardev2_run chardev2_zero calls = Some s \<and> length (c2_message s) = 81 \<and>
     c2_message s ! 80 = NUL \<and> c2_already_open s = CDEV_NOT_USED
   else chardev2_run chardev2_zero calls = None"
proof -
  have z: "chardev2_idle chardev2_zero"
    using chardev2_zero_good by (simp add: chardev2_idle_def chardev2_zero_def)
  have "length (c2_message s) = 81 \<and> c2_message s ! 80 = NUL \<and> c2_already_open s = CDEV_NOT_USED"
    if "chardev2_idle s" for s
  proof -
    from that have l: "length (c2_message s) = 81" "last (c2_message s) = NUL"
      by (simp_all add: chardev2_idle_def chardev2_good_def chardev2_BUF_LEN_def)
    then have "c2_message s \<noteq> []" by auto
    with l that show ?thesis by (simp add: last_conv_nth chardev2_idle_def)
  qed
  with chardev2_run_idle[OF z, of calls] show ?thesis by (auto split: if_splits)
qed

end
