(* ===== verification/Ioctl_Client.thy ===== *)
theory Ioctl_Client
  imports Chardev2
begin

text \<open>
  \<open>userspace_ioctl.c\<close>: the process that sets the message of \<open>char_dev\<close>, reads it byte by byte
  and reads it whole, on top of the ioctls of \<open>chardev2.c\<close>. The state of the pair is the module's
  state, the memory of the process and what it has printed.
\<close>

section \<open>The process\<close>

text \<open>The C library turns a result between -4095 and -1 of a system call into -1.\<close>

definition libc_ret :: "int \<Rightarrow> int" where
  "libc_ret r = (if is_err r then -1 else r)"

definition sys_ioctl ::
    "chardev2 \<Rightarrow> umem \<Rightarrow> 32 word \<Rightarrow> nat \<Rightarrow> (int \<times> chardev2 \<times> umem) option" where
  "sys_ioctl s u num arg = map_option (\<lambda>(r, s, u). (libc_ret r, s, u)) (chardev2_ioctl s u num arg)"

definition ioctl_set_msg ::
    "chardev2 \<Rightarrow> umem \<Rightarrow> nat \<Rightarrow> (int \<times> char list \<times> chardev2 \<times> umem) option" where
  "ioctl_set_msg s u message =
     map_option
       (\<lambda>(ret_val, s, u).
          (ret_val,
           if ret_val < 0 then ''ioctl_set_msg failed:'' @ dec ret_val @ [NL] else [], s, u))
       (sys_ioctl s u IOCTL_SET_MSG message)"

text \<open>
  \<open>char message[100] = { 0 }\<close> is at \<open>buf\<close>; printing it with \<open>%s\<close> needs a terminator in it.
\<close>

definition ioctl_get_msg ::
    "chardev2 \<Rightarrow> umem \<Rightarrow> nat \<Rightarrow> (int \<times> char list \<times> chardev2 \<times> umem) option" where
  "ioctl_get_msg s u buf =
     (case sys_ioctl s (put_bytes u buf (replicate 100 NUL)) IOCTL_GET_MSG buf of
        None \<Rightarrow> None
      | Some (ret_val, s, u) \<Rightarrow>
          if terminated (get_bytes u buf 100)
          then Some (ret_val,
                 (if ret_val < 0 then ''ioctl_get_msg failed:'' @ dec ret_val @ [NL] else []) @
                   ''get_msg message:'' @ cstr (get_bytes u buf 100), s, u)
          else None)"

text \<open>The loop of \<open>ioctl_get_nth_byte\<close>; \<open>None\<close> also stands for a loop that never ends.\<close>

partial_function (option) nth_byte_loop ::
    "chardev2 \<Rightarrow> umem \<Rightarrow> nat \<Rightarrow> char list \<Rightarrow> (int \<times> char list \<times> chardev2 \<times> umem) option"
  where
  "nth_byte_loop s u i out =
     (case sys_ioctl s u IOCTL_GET_NTH_BYTE i of
        None \<Rightarrow> None
      | Some (c, s', u') \<Rightarrow>
          if c < 0
          then Some (c, out @ [NL] @ ''ioctl_get_nth_byte failed at the '' @ dec (int i + 1) @
                 CHR 0x27 # ''th byte:'' @ [NL], s', u')
          else if c \<noteq> 0 then nth_byte_loop s' u' (Suc i) (out @ [char_of (nat c)])
          else Some (0, out @ [char_of (nat c)], s', u'))"

definition ioctl_get_nth_byte ::
    "chardev2 \<Rightarrow> umem \<Rightarrow> (int \<times> char list \<times> chardev2 \<times> umem) option" where
  "ioctl_get_nth_byte s u = nth_byte_loop s u 0 ''get_nth_byte message:''"

definition client_msg :: "char list" where
  "client_msg = ''Message passed by ioctl'' @ [NL]"

text \<open>
  \<open>main\<close>: \<open>file_desc\<close> is what \<open>open\<close> returned, \<open>msg\<close> the address of the message, \<open>buf\<close> that of
  the buffer of \<open>ioctl_get_msg\<close>. The result is the exit status, the output and the module's state.
\<close>

definition ioctl_main ::
    "chardev2 \<Rightarrow> umem \<Rightarrow> nat \<Rightarrow> nat \<Rightarrow> int \<Rightarrow> (int \<times> char list \<times> chardev2) option" where
  "ioctl_main s u msg buf file_desc =
     (if file_desc < 0
      then Some (1, CHR 0x43 # ''an'' @ CHR 0x27 # ''t open device file: /dev/char_dev, error:'' @
             dec file_desc @ [NL], s)
      else do {
        (ret_val, out, s, u) \<leftarrow> ioctl_set_msg s u msg;
        if ret_val \<noteq> 0 then Some (1, out, s)
        else do {
          (ret_val, out1, s, u) \<leftarrow> ioctl_get_nth_byte s u;
          if ret_val \<noteq> 0 then Some (1, out @ out1, s)
          else do {
            (ret_val, out2, s, u) \<leftarrow> ioctl_get_msg s u buf;
            if ret_val \<noteq> 0 then Some (1, out @ out1 @ out2, s)
            else Some (0, out @ out1 @ out2, s)
          }
        }
      })"

section \<open>What it prints\<close>

definition ascii :: "char \<Rightarrow> bool" where
  "ascii c \<longleftrightarrow> (of_char c :: int) < 128"

lemma schar_ascii: "ascii c \<Longrightarrow> schar c = of_char c"
  by (simp add: schar_def ascii_def Let_def)

lemma of_char_int_range: "0 \<le> (of_char c :: int)" "(of_char c :: int) < 256"
proof -
  have "int (of_char c) = of_char c" by (rule of_nat_of_char)
  moreover have "(of_char c :: nat) < 256" by (rule nat_of_char_less_256)
  ultimately show "0 \<le> (of_char c :: int)" "(of_char c :: int) < 256" by linarith+
qed

lemma schar_high: "\<not> ascii c \<Longrightarrow> is_err (schar c)"
  using of_char_int_range[of c] by (auto simp: schar_def ascii_def is_err_def Let_def)

lemma schar_NUL [simp]: "schar NUL = 0"
  by (simp add: schar_def)

lemma of_char_zero_iff: "(of_char c :: int) = 0 \<longleftrightarrow> c = NUL"
proof
  assume "(of_char c :: int) = 0"
  then have "(of_char c :: int) = of_char NUL" by simp
  then show "c = NUL" by (rule of_char_eqI)
qed simp

lemma char_of_0 [simp]: "char_of (0 :: nat) = NUL"
  by (simp add: char_of_def)

text \<open>One byte of the message, as the process sees it.\<close>

lemma sys_nth_byte:
  assumes "c2_already_open s = CDEV_NOT_USED" and "i < length (c2_message s)"
  shows "sys_ioctl s u IOCTL_GET_NTH_BYTE i = Some (libc_ret (schar (c2_message s ! i)), s, u)"
  using ioctl_get_nth_byte[OF assms] by (simp add: sys_ioctl_def)

lemma nth_byte_loop_ascii:
  assumes g: "chardev2_good s" and f: "c2_already_open s = CDEV_NOT_USED"
    and a: "\<forall>j. i \<le> j \<and> j < length (cstr (c2_message s)) \<longrightarrow> ascii (c2_message s ! j)"
    and i: "i \<le> length (cstr (c2_message s))"
  shows "nth_byte_loop s u i out =
    Some (0, out @ drop i (cstr (c2_message s)) @ [NUL], s, u)"
  using a i
proof (induction "length (cstr (c2_message s)) - i" arbitrary: i out)
  case 0
  let ?m = "c2_message s"
  have t: "terminated ?m" using chardev2_good_terminated[OF g] .
  from 0 have "i = length (cstr ?m)" by simp
  with nth_length_cstr[OF t] length_cstr_less[OF t] sys_nth_byte[OF f, of i u]
  show ?case by (subst nth_byte_loop.simps) (simp add: libc_ret_def is_err_def)
next
  case (Suc k)
  let ?m = "c2_message s"
  have t: "terminated ?m" using chardev2_good_terminated[OF g] .
  from Suc.hyps(2) have i: "i < length (cstr ?m)" by simp
  have im: "i < length ?m" using i length_cstr_less[OF t] by simp
  have as: "ascii (?m ! i)" using Suc.prems(1) i by blast
  have c: "libc_ret (schar (?m ! i)) = of_char (?m ! i)"
    using of_char_int_range[of "?m ! i"] schar_ascii[OF as] by (simp add: libc_ret_def is_err_def)
  have nz: "(of_char (?m ! i) :: int) \<noteq> 0" using cstr_nth[OF i] of_char_zero_iff by blast
  have "nth_byte_loop s u i out = nth_byte_loop s u (Suc i) (out @ [?m ! i])"
    using sys_nth_byte[OF f im, of u] c nz of_char_int_range[of "?m ! i"]
    by (subst nth_byte_loop.simps) simp
  also have "\<dots> = Some (0, (out @ [?m ! i]) @ drop (Suc i) (cstr ?m) @ [NUL], s, u)"
    by (rule Suc.hyps(1)) (use Suc.hyps(2) Suc.prems(1) i in auto)
  also have "(out @ [?m ! i]) @ drop (Suc i) (cstr ?m) @ [NUL] = out @ drop i (cstr ?m) @ [NUL]"
    using i by (simp add: Cons_nth_drop_Suc[symmetric] cstr_nth_eq)
  finally show ?case by simp
qed

lemma ioctl_get_msg_prints:
  assumes g: "chardev2_good s" and f: "c2_already_open s = CDEV_NOT_USED"
    and m: "mapped u buf 100"
  shows "\<exists>u'. ioctl_get_msg s u buf =
    Some (0, ''get_msg message:'' @ cstr (c2_message s), s, u')"
proof -
  let ?c = "cstr (c2_message s)"
  let ?u = "put_bytes (put_bytes u buf (replicate 100 NUL)) buf (?c @ [NUL])"
  have len: "length (?c @ [NUL]) \<le> 100"
    using length_cstr_less[OF chardev2_good_terminated[OF g]] g
    by (simp add: chardev2_good_def chardev2_BUF_LEN_def)
  have io: "sys_ioctl s (put_bytes u buf (replicate 100 NUL)) IOCTL_GET_MSG buf = Some (0, s, ?u)"
    using ioctl_get_msg_string[OF g f] by (simp add: sys_ioctl_def libc_ret_def is_err_def)
  have "take (length (?c @ [NUL])) (get_bytes ?u buf 100) = ?c @ [NUL]"
    using get_bytes_put_bytes[of "put_bytes u buf (replicate 100 NUL)" buf "?c @ [NUL]"]
      mapped_mono[OF m len] get_bytes_take[OF len] by simp
  then obtain r where "get_bytes ?u buf 100 = ?c @ NUL # r"
    by (metis append_Cons append_Nil append_assoc append_take_drop_id)
  then have "terminated (get_bytes ?u buf 100)" "cstr (get_bytes ?u buf 100) = ?c"
    by (simp_all add: terminated_def)
  with io show ?thesis by (simp add: ioctl_get_msg_def)
qed

text \<open>The loop fails at the first byte of the message that is not ASCII.\<close>

lemma nth_byte_loop_high:
  assumes g: "chardev2_good s" and f: "c2_already_open s = CDEV_NOT_USED"
    and k: "k < length (cstr (c2_message s))" and h: "\<not> ascii (c2_message s ! k)"
    and a: "\<forall>j. i \<le> j \<and> j < k \<longrightarrow> ascii (c2_message s ! j)" and i: "i \<le> k"
  shows "\<exists>e. nth_byte_loop s u i out =
    Some (-1, out @ drop i (take k (cstr (c2_message s))) @ e, s, u)"
  using a i
proof (induction "k - i" arbitrary: i out)
  case 0
  then have "i = k" by simp
  moreover have "k < length (c2_message s)" using k length_cstr_le[of "c2_message s"] by simp
  ultimately show ?case using sys_nth_byte[OF f, of k u] schar_high[OF h]
    by (subst nth_byte_loop.simps) (simp add: libc_ret_def)
next
  case (Suc n)
  let ?m = "c2_message s"
  from Suc.hyps(2) have i: "i < k" by simp
  have im: "i < length ?m" "i < length (cstr ?m)" using i k length_cstr_le[of ?m] by simp_all
  have as: "ascii (?m ! i)" using Suc.prems(1) i by blast
  have c: "libc_ret (schar (?m ! i)) = of_char (?m ! i)"
    using of_char_int_range[of "?m ! i"] schar_ascii[OF as] by (simp add: libc_ret_def is_err_def)
  have nz: "(of_char (?m ! i) :: int) \<noteq> 0" using cstr_nth[OF im(2)] of_char_zero_iff by blast
  have step: "nth_byte_loop s u i out = nth_byte_loop s u (Suc i) (out @ [?m ! i])"
    using sys_nth_byte[OF f im(1), of u] c nz of_char_int_range[of "?m ! i"]
    by (subst nth_byte_loop.simps) simp
  have "\<exists>e. nth_byte_loop s u (Suc i) (out @ [?m ! i]) =
      Some (-1, (out @ [?m ! i]) @ drop (Suc i) (take k (cstr ?m)) @ e, s, u)"
    by (rule Suc.hyps(1)) (use Suc.hyps(2) Suc.prems(1) i in auto)
  moreover have "?m ! i # drop (Suc i) (take k (cstr ?m)) = drop i (take k (cstr ?m))"
    using i im by (simp add: Cons_nth_drop_Suc[symmetric] cstr_nth_eq)
  ultimately show ?case using step by (metis append.assoc append_Cons append_Nil)
qed

section \<open>Properties\<close>

text \<open>
  C14 (roundtrip): \<open>IOCTL_SET_MSG\<close> with a string of the process in accessible memory, then
  \<open>IOCTL_GET_MSG\<close>, puts the first 80 bytes of that string and a terminator into the second
  buffer; the flag that excludes a second caller is free again after each. The empty string
  is the exception: setting it leaves the old message.
\<close>

theorem chardev2_set_get_roundtrip:
  assumes "chardev2_good s" and "c2_already_open s = CDEV_NOT_USED" and "user_string u p str"
  shows "\<exists>s'. chardev2_ioctl s u IOCTL_SET_MSG p = Some (0, s', u) \<and>
    c2_already_open s' = CDEV_NOT_USED \<and> chardev2_good s' \<and>
    chardev2_ioctl s' u IOCTL_GET_MSG q =
      Some (0, s', put_bytes u q
        ((if str = [] then cstr (c2_message s) else take 80 str) @ [NUL]))"
proof -
  from ioctl_set_msg_string[OF assms] obtain s' where
    s': "chardev2_ioctl s u IOCTL_SET_MSG p = Some (0, s', u)" "chardev2_good s'"
    "c2_already_open s' = CDEV_NOT_USED"
    "cstr (c2_message s') = (if str = [] then cstr (c2_message s) else take 80 str)" by blast
  from ioctl_get_msg_string[OF s'(2,3), of u q] s' show ?thesis by (simp only: s'(4)) blast
qed

theorem chardev2_set_get_roundtrip_witness:
  "\<exists>s'. chardev2_ioctl chardev2_zero ((\<lambda>_. Some NUL)(5 \<mapsto> CHR ''a'')) IOCTL_SET_MSG 5 =
      Some (0, s', (\<lambda>_. Some NUL)(5 \<mapsto> CHR ''a'')) \<and>
    c2_already_open s' = CDEV_NOT_USED \<and> chardev2_good s' \<and>
    chardev2_ioctl s' ((\<lambda>_. Some NUL)(5 \<mapsto> CHR ''a'')) IOCTL_GET_MSG 9 =
      Some (0, s', put_bytes ((\<lambda>_. Some NUL)(5 \<mapsto> CHR ''a'')) 9 (''a'' @ [NUL]))"
proof -
  have "user_string ((\<lambda>_. Some NUL)(5 \<mapsto> CHR ''a'')) 5 ''a''"
    by (simp add: user_string_def mapped_iff get_bytes_def get_user_def)
  from chardev2_set_get_roundtrip[OF chardev2_zero_good _ this, of 9] show ?thesis
    by (simp add: chardev2_zero_def)
qed

text \<open>
  C31 (functional): when \<open>open\<close> succeeds, the process \<open>userspace_ioctl\<close> on a free device ends
  with status 0; it prints its message byte by byte with the terminator, then whole, and the
  device keeps the message.
\<close>

theorem ioctl_main_prints_its_message:
  assumes "chardev2_good s" and "c2_already_open s = CDEV_NOT_USED" and "0 \<le> fd"
    and str: "user_string u msg client_msg" and m: "mapped u buf 100"
  shows "\<exists>s'. ioctl_main s u msg buf fd =
      Some (0, ''get_nth_byte message:'' @ client_msg @ [NUL] @
        ''get_msg message:'' @ client_msg, s') \<and>
    cstr (c2_message s') = client_msg \<and> c2_already_open s' = CDEV_NOT_USED"
proof -
  have cm: "client_msg \<noteq> []" "take 80 client_msg = client_msg" by (simp_all add: client_msg_def)
  from ioctl_set_msg_string[OF assms(1,2) str] cm obtain s1 where
    1: "chardev2_ioctl s u IOCTL_SET_MSG msg = Some (0, s1, u)" "chardev2_good s1"
    "c2_already_open s1 = CDEV_NOT_USED" "cstr (c2_message s1) = client_msg" by auto
  have set: "ioctl_set_msg s u msg = Some (0, [], s1, u)"
    using 1(1) by (simp add: ioctl_set_msg_def sys_ioctl_def libc_ret_def is_err_def)
  have "list_all ascii client_msg" by (simp add: client_msg_def ascii_def)
  then have "\<forall>j < length (cstr (c2_message s1)). ascii (c2_message s1 ! j)"
    using 1(4) cstr_nth_eq[of _ "c2_message s1"] by (auto simp: list_all_length)
  with nth_byte_loop_ascii[OF 1(2,3), of 0 u "''get_nth_byte message:''"] 1(4)
  have nth: "ioctl_get_nth_byte s1 u =
      Some (0, ''get_nth_byte message:'' @ client_msg @ [NUL], s1, u)"
    by (simp add: ioctl_get_nth_byte_def)
  from ioctl_get_msg_prints[OF 1(2,3) m] 1(4) obtain u' where
    "ioctl_get_msg s1 u buf = Some (0, ''get_msg message:'' @ client_msg, s1, u')" by auto
  with set nth 1 assms(3) show ?thesis by (simp add: ioctl_main_def)
qed

theorem ioctl_main_prints_its_message_witness:
  "\<exists>s'. ioctl_main chardev2_zero (umem_with 0 client_msg) 0 200 3 =
    Some (0, ''get_nth_byte message:'' @ client_msg @ [NUL] @
      ''get_msg message:'' @ client_msg, s')"
proof -
  have "user_string (umem_with 0 client_msg) 0 client_msg"
    by (simp add: user_string_def get_bytes_umem_with_NUL) (simp add: client_msg_def)
  from ioctl_main_prints_its_message[OF chardev2_zero_good _ _ this, of 3 200] show ?thesis
    by (auto simp: chardev2_zero_def)
qed

text \<open>
  Reading the message byte by byte fails at its first byte above 127: the module
  returns the sign-extended byte, which the C library takes for an error number, so the
  process stops with -1 after the bytes before it.
\<close>

lemma nth_byte_fails_at_high_byte:
  assumes "chardev2_good s" and "c2_already_open s = CDEV_NOT_USED"
    and "k < length (cstr (c2_message s))" and "\<not> ascii (c2_message s ! k)"
    and "list_all ascii (take k (c2_message s))"
  shows "\<exists>e. ioctl_get_nth_byte s u =
    Some (-1, ''get_nth_byte message:'' @ take k (cstr (c2_message s)) @ e, s, u)"
proof -
  have "\<forall>j. 0 \<le> j \<and> j < k \<longrightarrow> ascii (c2_message s ! j)"
    using assms(3,5) length_cstr_le[of "c2_message s"] by (auto simp: list_all_length)
  from nth_byte_loop_high[OF assms(1-4) this, of u "''get_nth_byte message:''"] show ?thesis
    by (simp add: ioctl_get_nth_byte_def)
qed

lemma nth_byte_fails_at_high_byte_witness:
  "\<exists>e. ioctl_get_nth_byte
      (chardev2_zero\<lparr>c2_message := CHR ''a'' # CHR 0xC3 # replicate 79 NUL\<rparr>) (\<lambda>_. None) =
    Some (-1, ''get_nth_byte message:'' @ ''a'' @ e,
      chardev2_zero\<lparr>c2_message := CHR ''a'' # CHR 0xC3 # replicate 79 NUL\<rparr>, \<lambda>_. None)"
  using nth_byte_fails_at_high_byte[of
      "chardev2_zero\<lparr>c2_message := CHR ''a'' # CHR 0xC3 # replicate 79 NUL\<rparr>" 1 "\<lambda>_. None"]
  by (simp add: chardev2_good_def chardev2_zero_def chardev2_BUF_LEN_def ascii_def cstr_def)

end
