(* ===== verification/Static_Key.thy ===== *)
theory Static_Key
  imports Chardev
begin

text \<open>
  \<open>static_key.c\<close>: a device that switches a static key with the commands \<open>enable\<close> and
  \<open>disable\<close>, and tells the state of the key to the one process that has it open.
\<close>

section \<open>State, load and unload\<close>

record static_key =
  sk_major :: int
  sk_already_open :: int
  sk_msg :: "char list"
  sk_fkey :: bool

definition static_key_BUF_LEN :: nat where
  "static_key_BUF_LEN = 10"

definition static_key_zero :: static_key where
  "static_key_zero = \<lparr>sk_major = 0, sk_already_open = CDEV_NOT_USED,
     sk_msg = replicate (static_key_BUF_LEN + 1) NUL, sk_fkey = False\<rparr>"

definition static_key_init :: "chrdev_env \<Rightarrow> static_key \<Rightarrow> int \<times> static_key \<times> event list" where [mod_init]:
  "static_key_init e s =
     (let s = s\<lparr>sk_major := ret_register_chrdev e\<rparr> in
      if sk_major s < 0 then (sk_major s, s, [])
      else if is_err (ret_class_create e)
      then (ret_class_create e, s, [Acq (Chrdev (sk_major s)), Rel (Chrdev (sk_major s))])
      else (0, s, [Acq (Chrdev (sk_major s)), Acq DevClass] @
                  (if is_err (ret_device_create e) then [] else [Acq (DevNode (sk_major s))])))"

definition static_key_exit :: "static_key \<Rightarrow> event list" where [mod_init]:
  "static_key_exit s = [Drop (DevNode (sk_major s)), Rel DevClass, Rel (Chrdev (sk_major s))]"

section \<open>File operations\<close>

definition static_key_state_str :: "bool \<Rightarrow> char list" where
  "static_key_state_str k = (if k then ''enabled'' @ [NL] else ''disabled'' @ [NL])"

text \<open>The log messages, the only effect of the branch on the key, are not modelled.\<close>

definition static_key_open :: "static_key \<Rightarrow> (int \<times> static_key) option" where
  "static_key_open s =
     (let (old, v) = atomic_cmpxchg (sk_already_open s) CDEV_NOT_USED CDEV_EXCLUSIVE_OPEN;
          s = s\<lparr>sk_already_open := v\<rparr>
      in if old \<noteq> 0 then Some (- EBUSY, s)
         else (case store_str (sk_msg s) (static_key_state_str (sk_fkey s)) of
                 None \<Rightarrow> None
               | Some m \<Rightarrow> Some (0, s\<lparr>sk_msg := m\<rparr>)))"

definition static_key_release :: "static_key \<Rightarrow> int \<times> static_key" where
  "static_key_release s = (0, s\<lparr>sk_already_open := CDEV_NOT_USED\<rparr>)"

definition static_key_read ::
    "static_key \<Rightarrow> umem \<Rightarrow> nat \<Rightarrow> nat \<Rightarrow> int \<Rightarrow> read_result option" where
  "static_key_read s = msg_read (sk_msg s)"

text \<open>
  \<open>command\<close> is an array on the stack that the code does not initialise: what it holds before
  the copy is the argument \<open>stack\<close>. The error message prints it with \<open>%s\<close>, which leaves the
  array when it has no terminator.
\<close>

definition static_key_write ::
    "not_copied \<Rightarrow> char list \<Rightarrow> static_key \<Rightarrow> umem \<Rightarrow> nat \<Rightarrow> nat \<Rightarrow> (int \<times> static_key) option"
  where
  "static_key_write nc stack s u buffer len =
     (if 10 < len then Some (- EINVAL, s)
      else (case copy_from_user nc u buffer len stack of
              None \<Rightarrow> None
            | Some (k, command) \<Rightarrow>
                if k \<noteq> 0 then Some (- EFAULT, s)
                else if has_prefix command ''enable'' then Some (int len, s\<lparr>sk_fkey := True\<rparr>)
                else if has_prefix command ''disable'' then Some (int len, s\<lparr>sk_fkey := False\<rparr>)
                else if terminated command then Some (- EINVAL, s) else None))"

section \<open>Invariant and contracts\<close>

definition static_key_good :: "static_key \<Rightarrow> bool" where
  "static_key_good s \<longleftrightarrow>
     length (sk_msg s) = static_key_BUF_LEN + 1 \<and> last (sk_msg s) = NUL \<and>
     sk_already_open s \<in> {CDEV_NOT_USED, CDEV_EXCLUSIVE_OPEN}"

definition static_key_busy :: "static_key \<Rightarrow> bool" where
  "static_key_busy s \<longleftrightarrow> sk_already_open s \<noteq> CDEV_NOT_USED"

lemma static_key_zero_good: "static_key_good static_key_zero"
  by (simp add: static_key_good_def static_key_zero_def)

lemma static_key_zero_free: "\<not> static_key_busy static_key_zero"
  by (simp add: static_key_busy_def static_key_zero_def)

lemma static_key_good_terminated: "static_key_good s \<Longrightarrow> terminated (sk_msg s)"
  by (rule last_NUL_terminated) (auto simp: static_key_good_def)

lemma NUL_notin_state_str [simp]: "NUL \<notin> set (static_key_state_str k)"
  by (simp add: static_key_state_str_def)

lemma static_key_open_free:
  assumes g: "static_key_good s" and f: "\<not> static_key_busy s"
  shows "\<exists>s'. static_key_open s = Some (0, s') \<and> static_key_busy s' \<and> static_key_good s' \<and>
    cstr (sk_msg s') = static_key_state_str (sk_fkey s) \<and> sk_fkey s' = sk_fkey s"
proof -
  let ?g = "static_key_state_str (sk_fkey s)"
  have len: "length (?g @ [NUL]) < length (sk_msg s)"
    using g by (simp add: static_key_good_def static_key_BUF_LEN_def static_key_state_str_def)
  then have "store_str (sk_msg s) ?g = Some (put_front (?g @ [NUL]) (sk_msg s))"
    by (intro store_str_Some) simp
  moreover have "length (put_front (?g @ [NUL]) (sk_msg s)) = length (sk_msg s)"
    using len by (intro length_put_front) simp
  ultimately show ?thesis using g f put_front_last[OF len]
    by (simp add: static_key_open_def atomic_cmpxchg_def static_key_busy_def static_key_good_def)
qed

interpretation static_key_dev:
  exclusive_stream static_key_open static_key_release static_key_busy static_key_good
    static_key_read "\<lambda>s. cstr (sk_msg s)"
proof
  fix s
  assume "static_key_good s" "\<not> static_key_busy s"
  from static_key_open_free[OF this]
  show "\<exists>s'. static_key_open s = Some (0, s') \<and> static_key_busy s' \<and> static_key_good s'" by blast
next
  fix s
  assume "static_key_good s" "static_key_busy s"
  then show "static_key_open s = Some (- EBUSY, s)"
    by (simp add: static_key_open_def atomic_cmpxchg_def static_key_busy_def)
next
  fix s
  assume "static_key_good s"
  then show "fst (static_key_release s) = 0 \<and> \<not> static_key_busy (snd (static_key_release s)) \<and>
      static_key_good (snd (static_key_release s))"
    by (simp add: static_key_release_def static_key_busy_def static_key_good_def)
qed (auto simp: static_key_read_def static_key_good_terminated msg_stream.read_piece
    msg_stream.read_end)

interpretation static_key_mod: lkm_module static_key_init static_key_exit
  by (rule lkm_moduleI) (auto simp: mod_init split: if_splits)

section \<open>Commands\<close>

lemma has_prefix_put_front:
  "length b \<le> length ys \<Longrightarrow> has_prefix (put_front ys xs) b \<longleftrightarrow> has_prefix ys b"
  by (simp add: has_prefix_def put_front_def)

text \<open>The commands the module knows, by the bytes the process wrote.\<close>

definition static_key_command :: "char list \<Rightarrow> bool option" where
  "static_key_command bs =
     (if has_prefix bs ''enable'' then Some True
      else if has_prefix bs ''disable'' then Some False else None)"

lemma static_key_write_command:
  assumes "user_access nc" and "length stack = 10" and "mapped u a len" and "len \<le> 10"
    and c: "static_key_command (get_bytes u a len) = Some k"
  shows "static_key_write nc stack s u a len = Some (int len, s\<lparr>sk_fkey := k\<rparr>)"
proof -
  let ?b = "get_bytes u a len"
  from assms have cp: "copy_from_user nc u a len stack = Some (0, put_front ?b stack)"
    by (simp add: user_access.copy_from_user_ok)
  have prefix_len: "length b \<le> len" if "has_prefix ?b b" for b
    using that by (metis has_prefix_def length_get_bytes length_take min.cobounded1)
  show ?thesis
  proof (cases k)
    case True
    with c have e: "has_prefix ?b ''enable''"
      by (auto simp: static_key_command_def split: if_splits)
    from has_prefix_put_front[of "''enable''" ?b stack] prefix_len[OF e] e
    have "has_prefix (put_front ?b stack) ''enable''" by simp
    with cp True assms(4) show ?thesis by (simp add: static_key_write_def)
  next
    case False
    with c have d: "\<not> has_prefix ?b ''enable''" "has_prefix ?b ''disable''"
      by (auto simp: static_key_command_def split: if_splits)
    from prefix_len[OF d(2)] have "7 \<le> len" by simp
    with has_prefix_put_front[of "''disable''" ?b stack]
      has_prefix_put_front[of "''enable''" ?b stack] d
    have "\<not> has_prefix (put_front ?b stack) ''enable''"
      "has_prefix (put_front ?b stack) ''disable''" by simp_all
    with cp False assms(4) show ?thesis by (simp add: static_key_write_def)
  qed
qed

lemma static_key_write_not_mapped:
  assumes "user_access nc" and "length stack = 10" and "len \<le> 10" and "\<not> mapped u a len"
  shows "static_key_write nc stack s u a len = Some (- EFAULT, s)"
  using user_access.copy_from_user_fault[OF assms(1,4), of stack] assms(2,3)
  by (auto simp: static_key_write_def)

lemma static_key_write_keeps_good:
  assumes "static_key_good s" and "static_key_write nc stack s u a len = Some (r, s')"
  shows "static_key_good s' \<and> sk_already_open s' = sk_already_open s"
  using assms
  by (auto simp: static_key_write_def static_key_good_def split: if_splits option.splits)

section \<open>Properties\<close>

text \<open>
  A write of at most ten accessible bytes that start with \<open>enable\<close> or
  \<open>disable\<close> returns its length, and the next process that opens the free device and reads
  it to the end, with any buffer, gets \<open>enabled\<close> or \<open>disabled\<close>.
\<close>

lemma static_key_write_then_read:
  assumes nc: "user_access nc" and g: "static_key_good s" and f: "\<not> static_key_busy s"
    and st: "length stack = 10" and m: "mapped u a len" and len: "len \<le> 10"
    and c: "static_key_command (get_bytes u a len) = Some k"
    and m': "mapped u b n" and n: "0 < n"
  shows "\<exists>s1 s2. static_key_write nc stack s u a len = Some (int len, s1) \<and>
    cat_file 12 static_key_open static_key_read static_key_release u b n s1 =
      Some (Some (static_key_state_str k), s2) \<and> \<not> static_key_busy s2"
proof -
  let ?s1 = "s\<lparr>sk_fkey := k\<rparr>"
  have w: "static_key_write nc stack s u a len = Some (int len, ?s1)"
    by (rule static_key_write_command[OF nc st m len c])
  have s1: "static_key_good ?s1" "\<not> static_key_busy ?s1"
    using g f by (simp_all add: static_key_good_def static_key_busy_def)
  from static_key_open_free[OF s1] obtain s2 where
    o: "static_key_open ?s1 = Some (0, s2)" and cs: "cstr (sk_msg s2) = static_key_state_str k"
    by auto
  have "length (cstr (sk_msg s2)) < 12" by (simp add: cs static_key_state_str_def)
  from static_key_dev.cat_file_content[OF s1 m' n o this] cs w show ?thesis
    by (simp add: static_key_release_def static_key_busy_def)
qed

lemma static_key_write_then_read_witness:
  "\<exists>s1 s2. static_key_write bytewise (replicate 10 NUL) static_key_zero
      (umem_with 4 ''enable'') 4 6 = Some (6, s1) \<and>
    cat_file 12 static_key_open static_key_read static_key_release
      (umem_with 4 ''enable'') 20 3 s1 = Some (Some (''enabled'' @ [NL]), s2)"
proof -
  let ?u = "umem_with 4 ''enable''"
  have m: "mapped ?u a n" for a n by simp
  have "get_bytes ?u 4 6 = ''enable''" by (rule get_bytes_umem_with) simp
  then have "static_key_command (get_bytes ?u 4 6) = Some True"
    by (simp add: static_key_command_def has_prefix_def)
  from static_key_write_then_read[OF bytewise.user_access_axioms static_key_zero_good
      static_key_zero_free _ m _ this m, of "replicate 10 NUL" 3 20]
  show ?thesis by (auto simp: static_key_state_str_def)
qed

text \<open>
  C40 (error): a write changes nothing and returns an error when it is longer than ten bytes
  (\<open>-EINVAL\<close>) or its buffer faults (\<open>-EFAULT\<close>); a write of ten accessible bytes that is no
  command and has no NUL makes the error message read behind the array \<open>command\<close>.
\<close>

theorem static_key_write_refuses:
  assumes nc: "user_access nc" and st: "length stack = 10"
  shows "(10 < len \<longrightarrow> static_key_write nc stack s u a len = Some (- EINVAL, s)) \<and>
    (len \<le> 10 \<and> \<not> mapped u a len \<longrightarrow>
      static_key_write nc stack s u a len = Some (- EFAULT, s)) \<and>
    (len = 10 \<and> mapped u a len \<and> static_key_command (get_bytes u a len) = None \<and>
      \<not> terminated (get_bytes u a len) \<longrightarrow> static_key_write nc stack s u a len = None)"
proof (intro conjI impI; (elim conjE)?)
  show "static_key_write nc stack s u a len = Some (- EINVAL, s)" if "10 < len"
    using that by (simp add: static_key_write_def)
  show "static_key_write nc stack s u a len = Some (- EFAULT, s)"
    if "len \<le> 10" "\<not> mapped u a len"
    by (rule static_key_write_not_mapped[OF nc st that])
  show "static_key_write nc stack s u a len = None"
    if "len = 10" "mapped u a len" "static_key_command (get_bytes u a len) = None"
      "\<not> terminated (get_bytes u a len)"
    using that user_access.copy_from_user_ok[OF nc that(2), of stack] st
    by (auto simp: static_key_write_def static_key_command_def put_front_def split: if_splits)
qed

theorem static_key_write_refuses_witness:
  "static_key_write bytewise (replicate 10 NUL) static_key_zero (\<lambda>_. None) 0 12 =
      Some (- EINVAL, static_key_zero) \<and>
    static_key_write bytewise (replicate 10 NUL) static_key_zero (\<lambda>_. None) 0 3 =
      Some (- EFAULT, static_key_zero) \<and>
    static_key_write bytewise (replicate 10 NUL) static_key_zero (\<lambda>_. Some CHR ''x'') 0 10 = None"
proof -
  let ?u = "\<lambda>_. Some CHR ''x''"
  note r = static_key_write_refuses[OF bytewise.user_access_axioms, of "replicate 10 NUL"]
  have b: "get_bytes ?u 0 10 = ''xxxxxxxxxx''" by (simp add: get_bytes_def get_user_def upt_rec)
  have "mapped ?u 0 10" "static_key_command (get_bytes ?u 0 10) = None"
    "\<not> terminated (get_bytes ?u 0 10)"
    by (simp_all add: b mapped_iff static_key_command_def has_prefix_def terminated_def)
  moreover have "\<not> mapped (\<lambda>_. None) 0 3" by (simp add: mapped_iff exI[of _ 0])
  ultimately show ?thesis
    using r[of 12 static_key_zero "\<lambda>_. None" 0] r[of 3 static_key_zero "\<lambda>_. None" 0]
      r[of 10 static_key_zero ?u 0] by simp
qed

text \<open>
  A write of less than six bytes that begin \<open>enable\<close> is compared with what the
  stack happens to hold behind them: for the same bytes one stack makes the module enable
  the key, another makes it refuse the command.
\<close>

lemma static_key_short_write_reads_stack:
  assumes nc: "user_access nc" and m: "mapped u a len" and len: "len < 6"
    and b: "get_bytes u a len = take len ''enable''"
  shows "\<exists>stack1 stack2. length stack1 = 10 \<and> length stack2 = 10 \<and>
    static_key_write nc stack1 s u a len = Some (int len, s\<lparr>sk_fkey := True\<rparr>) \<and>
    static_key_write nc stack2 s u a len = Some (- EINVAL, s)"
proof (intro exI conjI)
  let ?t = "''enable'' @ replicate 4 NUL" and ?z = "replicate 10 NUL"
  show "length ?t = 10" "length ?z = 10" by simp_all
  have cp: "copy_from_user nc u a len x = Some (0, put_front (take len ''enable'') x)"
    if "length x = 10" for x
    using user_access.copy_from_user_ok[OF nc m, of x] that len b by simp
  have l: "len \<in> {0, 1, 2, 3, 4, 5}" using len by auto
  have "has_prefix (put_front (take len ''enable'') ?t) ''enable''"
    using l by (auto simp: has_prefix_def put_front_def)
  then show "static_key_write nc ?t s u a len = Some (int len, s\<lparr>sk_fkey := True\<rparr>)"
    using cp[of ?t] len by (simp add: static_key_write_def)
  have "\<not> has_prefix (put_front (take len ''enable'') ?z) ''enable''"
    "\<not> has_prefix (put_front (take len ''enable'') ?z) ''disable''"
    "terminated (put_front (take len ''enable'') ?z)"
    using l by (auto simp: has_prefix_def put_front_def terminated_def numeral_eq_Suc)
  then show "static_key_write nc ?z s u a len = Some (- EINVAL, s)"
    using cp[of ?z] len by (simp add: static_key_write_def)
qed

lemma static_key_short_write_reads_stack_witness:
  "\<exists>stack1 stack2. length stack1 = 10 \<and> length stack2 = 10 \<and>
    static_key_write bytewise stack1 static_key_zero (\<lambda>_. Some CHR ''e'') 0 1 =
      Some (1, static_key_zero\<lparr>sk_fkey := True\<rparr>) \<and>
    static_key_write bytewise stack2 static_key_zero (\<lambda>_. Some CHR ''e'') 0 1 =
      Some (- EINVAL, static_key_zero)"
  using static_key_short_write_reads_stack[OF bytewise.user_access_axioms,
      of "\<lambda>_. Some CHR ''e''" 0 1 static_key_zero]
  by (simp add: mapped_iff get_bytes_def get_user_def)

end
