(* ===== verification/Sleep.thy ===== *)
theory Sleep
  imports Msg_Read Resources
begin

text \<open>
  \<open>sleep.c\<close>: the file \<open>/proc/sleep\<close>, which one process at a time may hold open. A process
  that finds it open waits in \<open>module_open\<close> until the file is closed or a signal comes.

  The file holds the state and the transfer functions \<open>module_input\<close> and \<open>module_output\<close>, and
  a step relation in which any number of processes run \<open>module_open\<close> and \<open>module_close\<close>,
  interleaved at every access to \<open>already_open\<close> and to the wait queue.
\<close>

section \<open>Messages\<close>

record sleep_state =
  sl_message :: "char list"
  sl_finished :: int

definition MESSAGE_LENGTH :: nat where
  "MESSAGE_LENGTH = 80"

definition sleep_zero :: sleep_state where
  "sleep_zero = \<lparr>sl_message = replicate MESSAGE_LENGTH NUL, sl_finished = 0\<rparr>"

text \<open>
  \<open>output_msg\<close> is an array of \<open>MESSAGE_LENGTH + 30\<close> bytes on the stack, whose content before
  \<open>sprintf\<close> is the argument \<open>stack\<close>. The loop over it is the one of the message devices. The
  argument of \<open>%s\<close> must have a terminator.
\<close>

definition module_output ::
    "char list \<Rightarrow> sleep_state \<Rightarrow> umem \<Rightarrow> nat \<Rightarrow> nat \<Rightarrow> (int \<times> sleep_state \<times> umem) option" where
  "module_output stack s u buf len =
     (if sl_finished s \<noteq> 0 then Some (0, s\<lparr>sl_finished := 0\<rparr>, u)
      else if \<not> terminated (sl_message s) then None
      else (case store_str stack (''Last input:'' @ cstr (sl_message s) @ [NL]) of
              None \<Rightarrow> None
            | Some output_msg \<Rightarrow>
                (case msg_read_loop output_msg u 0 buf len 0 of
                   None \<Rightarrow> None
                 | Some (u', i) \<Rightarrow> Some (int i, s\<lparr>sl_finished := 1\<rparr>, u'))))"

text \<open>
  \<open>for (i = 0; i < MESSAGE_LENGTH - 1 && i < length; i++) get_user (message[i], buf + i)\<close>: the
  array and \<open>i\<close> after the loop.
\<close>

function module_input_loop ::
    "umem \<Rightarrow> nat \<Rightarrow> nat \<Rightarrow> nat \<Rightarrow> char list \<Rightarrow> (char list \<times> nat) option" where
  "module_input_loop u buf len i message =
     (if i < MESSAGE_LENGTH - 1 \<and> i < len
      then (if i < length message
            then module_input_loop u buf len (Suc i) (message[i := get_user u (buf + i)])
            else None)
      else Some (message, i))"
  by pat_completeness auto
termination
  by (relation "measure (\<lambda>(u, buf, len, i, message). len - i)") auto

declare module_input_loop.simps [simp del]

definition module_input ::
    "sleep_state \<Rightarrow> umem \<Rightarrow> nat \<Rightarrow> nat \<Rightarrow> (int \<times> sleep_state) option" where
  "module_input s u buf len =
     (case module_input_loop u buf len 0 (sl_message s) of
        None \<Rightarrow> None
      | Some (m, i) \<Rightarrow>
          if i < length m then Some (int i, s\<lparr>sl_message := m[i := NUL]\<rparr>) else None)"

definition sleep_good :: "sleep_state \<Rightarrow> bool" where
  "sleep_good s \<longleftrightarrow>
     length (sl_message s) = MESSAGE_LENGTH \<and> last (sl_message s) = NUL"

lemma sleep_zero_good: "sleep_good sleep_zero"
  by (simp add: sleep_good_def sleep_zero_def MESSAGE_LENGTH_def)

lemma sleep_good_terminated: "sleep_good s \<Longrightarrow> terminated (sl_message s)"
  by (rule last_NUL_terminated) (auto simp: sleep_good_def MESSAGE_LENGTH_def)

lemma module_input_loop_from:
  assumes "length xs = MESSAGE_LENGTH" and "i \<le> min len (MESSAGE_LENGTH - 1)"
  shows "module_input_loop u a len i (put_front (get_bytes u a i) xs) =
    Some (put_front (get_bytes u a (min len (MESSAGE_LENGTH - 1))) xs,
      min len (MESSAGE_LENGTH - 1))"
  using assms
proof (induction "min len (MESSAGE_LENGTH - 1) - i" arbitrary: i)
  case 0
  then have "i = min len (MESSAGE_LENGTH - 1)" by (intro le_antisym) auto
  then show ?case by (subst module_input_loop.simps) auto
next
  case (Suc k)
  then have i: "i < len" "i < MESSAGE_LENGTH - 1" by auto
  have "k = min len (MESSAGE_LENGTH - 1) - Suc i" using Suc.hyps(2) by simp
  from Suc.hyps(1)[OF this] Suc.prems i get_bytes_snoc_upd[of i xs u a]
  show ?case by (subst module_input_loop.simps) simp
qed

text \<open>A write stores at most 79 bytes and a terminator.\<close>

lemma module_input_eq:
  assumes "sleep_good s"
  shows "module_input s u a len = Some (int (min len 79),
    s\<lparr>sl_message := put_front (get_bytes u a (min len 79) @ [NUL]) (sl_message s)\<rparr>)"
proof -
  let ?b = "get_bytes u a (min len 79)"
  have l: "length (sl_message s) = MESSAGE_LENGTH" using assms by (simp add: sleep_good_def)
  have "length ?b < length (sl_message s)" by (simp add: l MESSAGE_LENGTH_def)
  from put_front_update[OF this, of NUL] module_input_loop_from[OF l, of 0 len u a] l
  show ?thesis by (simp add: module_input_def MESSAGE_LENGTH_def)
qed

lemma module_input_good:
  assumes "sleep_good s" and "module_input s u a len = Some (r, s')"
  shows "sleep_good s' \<and> cstr (sl_message s') = cstr (get_bytes u a (min len 79))"
proof -
  let ?b = "get_bytes u a (min len 79)"
  have l: "length (?b @ [NUL]) \<le> length (sl_message s)"
    using assms(1) by (simp add: sleep_good_def MESSAGE_LENGTH_def)
  have s': "s' = s\<lparr>sl_message := put_front (?b @ [NUL]) (sl_message s)\<rparr>"
    using assms module_input_eq[OF assms(1)] by simp
  have "last (put_front (?b @ [NUL]) (sl_message s)) = NUL"
  proof (cases "length (?b @ [NUL]) = length (sl_message s)")
    case True
    then show ?thesis by (simp add: put_front_def)
  next
    case False
    with l assms(1) show ?thesis by (simp add: put_front_last sleep_good_def del: length_append)
  qed
  moreover have "cstr (put_front (?b @ [NUL]) (sl_message s)) = cstr ?b"
    by (simp add: put_front_def cstr_snoc_NUL)
  ultimately show ?thesis
    using assms(1) length_put_front[OF l] by (simp add: s' sleep_good_def)
qed

lemma module_output_eq:
  assumes g: "sleep_good s" and st: "length stack = MESSAGE_LENGTH + 30" and f: "sl_finished s = 0"
  shows "module_output stack s u a len =
    Some (int (min len (length (cstr (sl_message s)) + 12)), s\<lparr>sl_finished := 1\<rparr>,
      put_bytes u a (take len (''Last input:'' @ cstr (sl_message s) @ [NL])))"
proof -
  let ?t = "''Last input:'' @ cstr (sl_message s) @ [NL]"
  have t: "terminated (sl_message s)" by (rule sleep_good_terminated[OF g])
  have "length (cstr (sl_message s)) < MESSAGE_LENGTH"
    using length_cstr_less[OF t] g by (simp add: sleep_good_def)
  then have "store_str stack ?t = Some (put_front (?t @ [NUL]) stack)"
    by (intro store_str_Some) (simp add: st MESSAGE_LENGTH_def)
  moreover have "NUL \<notin> set ?t" by simp
  then have "cstr (put_front (?t @ [NUL]) stack) = ?t" by (rule cstr_put_front_NUL)
  moreover have "length ?t = length (cstr (sl_message s)) + 12" by simp
  ultimately show ?thesis
    using f t msg_read_loop_string[OF terminated_put_front_NUL[of ?t stack], of 0 u a len 0]
    by (simp only: module_output_def) simp
qed

section \<open>Processes\<close>

text \<open>
  Where a process is in \<open>module_open\<close> and \<open>module_close\<close>: before the first \<open>atomic_cmpxchg\<close>,
  before the test of \<open>O_NONBLOCK\<close>, before the \<open>atomic_cmpxchg\<close> of the loop, before the test
  of the condition in \<open>wait_event_interruptible\<close>, asleep in the wait queue, before the test
  for signals, holding the file, and between \<open>atomic_set\<close> and \<open>wake_up\<close>. \<open>Returned e\<close> is a
  process whose open failed with \<open>e\<close>.
\<close>

datatype pc =
    Outside | TryOpen | TestFlags | WhileTest | WaitTest | Asleep | TestSignals
  | Holding | Closing | Returned int

text \<open>
  Signals are the bits of one word (\<open>_NSIG_WORDS\<close> is 1 on 64-bit machines): those sent to the
  thread, those sent to its whole process, and the blocked ones.
\<close>

record proc =
  pr_pc :: pc
  pr_nonblock :: bool
  pr_pending :: "64 word"
  pr_shared :: "64 word"
  pr_blocked :: "64 word"

definition signal_pending :: "proc \<Rightarrow> bool" where
  "signal_pending p \<longleftrightarrow> (pr_pending p OR pr_shared p) AND NOT (pr_blocked p) \<noteq> 0"

text \<open>\<open>is_sig\<close> is an \<open>int\<close>: the 64 bits of the mask are cut to 32.\<close>

definition is_sig :: "proc \<Rightarrow> int" where
  "is_sig p = sint (ucast (pr_pending p AND NOT (pr_blocked p)) :: 32 word)"

text \<open>
  One step of a process in \<open>module_open\<close>, on \<open>already_open\<close> and the process. As documented,
  \<open>wait_event_interruptible\<close> returns when the condition holds or a signal is pending, and puts
  the process to sleep otherwise; the kernel makes the test and the sleep one step.
\<close>

fun module_open_step :: "int \<Rightarrow> proc \<Rightarrow> (int \<times> proc) option" where
  "module_open_step already_open p =
     (case pr_pc p of
        TryOpen \<Rightarrow>
          (let (old, v) = atomic_cmpxchg already_open 0 1
           in Some (v, p\<lparr>pr_pc := if old = 0 then Holding else TestFlags\<rparr>))
      | TestFlags \<Rightarrow>
          Some (already_open,
            p\<lparr>pr_pc := if pr_nonblock p then Returned (- EAGAIN) else WhileTest\<rparr>)
      | WhileTest \<Rightarrow>
          (let (old, v) = atomic_cmpxchg already_open 0 1
           in Some (v, p\<lparr>pr_pc := if old \<noteq> 0 then WaitTest else Holding\<rparr>))
      | WaitTest \<Rightarrow>
          Some (already_open,
            p\<lparr>pr_pc := if already_open = 0 \<or> signal_pending p then TestSignals else Asleep\<rparr>)
      | TestSignals \<Rightarrow>
          Some (already_open,
            p\<lparr>pr_pc := if is_sig p \<noteq> 0 then Returned (- EINTR) else WhileTest\<rparr>)
      | _ \<Rightarrow> None)"

declare module_open_step.simps [simp del]

section \<open>Interleavings\<close>

record sleep_conf =
  sc_already_open :: int
  sc_procs :: "nat \<Rightarrow> proc"

text \<open>A signal that is not blocked, or \<open>wake_up\<close>, takes a sleeping process back to its test.\<close>

definition wake :: "proc \<Rightarrow> proc" where
  "wake p = (if pr_pc p = Asleep then p\<lparr>pr_pc := WaitTest\<rparr> else p)"

definition signalled :: "64 word \<Rightarrow> 64 word \<Rightarrow> proc \<Rightarrow> proc" where
  "signalled pend shar p =
     (let p' = p\<lparr>pr_pending := pr_pending p OR pend, pr_shared := pr_shared p OR shar\<rparr>
      in if signal_pending p' then wake p' else p')"

datatype sleep_action =
    CallOpen nat bool                \<comment> \<open>\<open>open\<close>, with or without \<open>O_NONBLOCK\<close>\<close>
  | Run nat                          \<comment> \<open>one step in \<open>module_open\<close> or the \<open>wake_up\<close> of \<open>module_close\<close>\<close>
  | CallClose nat                    \<comment> \<open>\<open>close\<close>, up to \<open>atomic_set\<close>\<close>
  | Signal nat "64 word" "64 word"   \<comment> \<open>signals to the thread and to its process arrive\<close>
  | Deliver nat                      \<comment> \<open>a process outside the module takes its signals\<close>

definition in_user_mode :: "pc \<Rightarrow> bool" where
  "in_user_mode k \<longleftrightarrow>
     (case k of Outside \<Rightarrow> True | Holding \<Rightarrow> True | Returned _ \<Rightarrow> True | _ \<Rightarrow> False)"

definition put_proc :: "nat \<Rightarrow> proc \<Rightarrow> sleep_conf \<Rightarrow> sleep_conf" where
  "put_proc i p c = c\<lparr>sc_procs := (sc_procs c)(i := p)\<rparr>"

fun sleep_exec :: "sleep_conf \<Rightarrow> sleep_action \<Rightarrow> sleep_conf option" where
  "sleep_exec c (CallOpen i nonblock) =
     (let p = sc_procs c i
      in if in_user_mode (pr_pc p) \<and> pr_pc p \<noteq> Holding
         then Some (put_proc i (p\<lparr>pr_pc := TryOpen, pr_nonblock := nonblock\<rparr>) c) else None)"
| "sleep_exec c (Run i) =
     (let p = sc_procs c i
      in if pr_pc p = Closing
         then Some (c\<lparr>sc_procs := (\<lambda>j. wake (((sc_procs c)(i := p\<lparr>pr_pc := Outside\<rparr>)) j))\<rparr>)
         else (case module_open_step (sc_already_open c) p of
                 None \<Rightarrow> None
               | Some (v, p') \<Rightarrow> Some (put_proc i p' (c\<lparr>sc_already_open := v\<rparr>))))"
| "sleep_exec c (CallClose i) =
     (let p = sc_procs c i
      in if pr_pc p = Holding
         then Some (put_proc i (p\<lparr>pr_pc := Closing\<rparr>) (c\<lparr>sc_already_open := 0\<rparr>)) else None)"
| "sleep_exec c (Signal i pend shar) =
     Some (put_proc i (signalled pend shar (sc_procs c i)) c)"
| "sleep_exec c (Deliver i) =
     (let p = sc_procs c i
      in if in_user_mode (pr_pc p)
         then Some (put_proc i (p\<lparr>pr_pending := 0, pr_shared := 0\<rparr>) c) else None)"

fun sleep_run :: "sleep_conf \<Rightarrow> sleep_action list \<Rightarrow> sleep_conf option" where
  "sleep_run c [] = Some c"
| "sleep_run c (a # as) = (case sleep_exec c a of None \<Rightarrow> None | Some c' \<Rightarrow> sleep_run c' as)"

text \<open>At the start no process is in the module and the file is free; the signals are arbitrary.\<close>

inductive sleep_reach :: "sleep_conf \<Rightarrow> bool" where
  start: "(\<And>i. pr_pc (sc_procs c i) = Outside) \<Longrightarrow> sc_already_open c = 0 \<Longrightarrow> sleep_reach c"
| step: "sleep_reach c \<Longrightarrow> sleep_exec c a = Some c' \<Longrightarrow> sleep_reach c'"

section \<open>Invariant\<close>

definition holding :: "sleep_conf \<Rightarrow> nat \<Rightarrow> bool" where
  "holding c i \<longleftrightarrow> pr_pc (sc_procs c i) = Holding"

definition asleep :: "sleep_conf \<Rightarrow> nat \<Rightarrow> bool" where
  "asleep c i \<longleftrightarrow> pr_pc (sc_procs c i) = Asleep"

definition closing :: "sleep_conf \<Rightarrow> nat \<Rightarrow> bool" where
  "closing c i \<longleftrightarrow> pr_pc (sc_procs c i) = Closing"

text \<open>
  The file has one holder when \<open>already_open\<close> is 1 and none when it is 0; while it is 0 a
  process sleeps only if the \<open>wake_up\<close> of some \<open>module_close\<close> is still to come.
\<close>

definition sleep_inv :: "sleep_conf \<Rightarrow> bool" where
  "sleep_inv c \<longleftrightarrow>
     (if sc_already_open c = 0 then (\<forall>i. \<not> holding c i) \<and> ((\<exists>i. asleep c i) \<longrightarrow> (\<exists>i. closing c i))
      else sc_already_open c = 1 \<and> (\<exists>!i. holding c i))"

lemmas conf_simps = put_proc_def holding_def asleep_def closing_def

lemma sleep_inv_mono:
  assumes "sleep_inv c" and "sc_already_open c' = sc_already_open c"
    and "\<And>j. holding c' j = holding c j" and "\<And>j. closing c j \<Longrightarrow> closing c' j"
    and "\<And>j. asleep c' j \<Longrightarrow> asleep c j"
  shows "sleep_inv c'"
proof -
  have "holding c' = holding c" using assms(3) by (rule ext)
  with assms(1,2,4,5) show ?thesis unfolding sleep_inv_def by metis
qed

text \<open>A step that only moves one process among the places where it neither holds, sleeps nor closes.\<close>

definition plain :: "pc \<Rightarrow> bool" where
  "plain k \<longleftrightarrow> k \<noteq> Holding \<and> k \<noteq> Asleep \<and> k \<noteq> Closing"

lemma sleep_inv_plain:
  assumes "sleep_inv c" and "plain (pr_pc p)"
    and "plain (pr_pc (sc_procs c i)) \<or> pr_pc (sc_procs c i) = Asleep"
  shows "sleep_inv (put_proc i p c)"
proof -
  have "holding (put_proc i p c) j = holding c j" "closing (put_proc i p c) j = closing c j"
    "asleep (put_proc i p c) j \<Longrightarrow> asleep c j" for j
    using assms(2,3) by (auto simp: conf_simps plain_def split: if_splits)
  then show ?thesis by (intro sleep_inv_mono[OF assms(1)]) (auto simp: put_proc_def)
qed

lemma sleep_inv_same:
  assumes "sleep_inv c" and "pr_pc p = pr_pc (sc_procs c i)"
  shows "sleep_inv (put_proc i p c)"
proof -
  have "holding (put_proc i p c) j = holding c j" "closing (put_proc i p c) j = closing c j"
    "asleep (put_proc i p c) j = asleep c j" for j
    using assms(2) by (auto simp: conf_simps)
  then show ?thesis by (intro sleep_inv_mono[OF assms(1)]) (auto simp: put_proc_def)
qed

lemma sleep_inv_take:
  assumes "sleep_inv c" and "sc_already_open c = 0" and "pr_pc p = Holding"
  shows "sleep_inv (put_proc i p (c\<lparr>sc_already_open := 1\<rparr>))"
proof -
  have "holding (put_proc i p (c\<lparr>sc_already_open := 1\<rparr>)) = (\<lambda>j. j = i)"
    using assms by (intro ext) (auto simp: sleep_inv_def conf_simps)
  moreover have "sc_already_open (put_proc i p (c\<lparr>sc_already_open := 1\<rparr>)) = 1"
    by (simp add: put_proc_def)
  ultimately show ?thesis by (simp add: sleep_inv_def)
qed

lemma sleep_inv_sleep:
  assumes "sleep_inv c" and "sc_already_open c \<noteq> 0" and "pr_pc p = Asleep"
    and "plain (pr_pc (sc_procs c i))"
  shows "sleep_inv (put_proc i p c)"
proof -
  have "holding (put_proc i p c) j = holding c j" for j
    using assms(3,4) by (auto simp: conf_simps plain_def)
  then show ?thesis using assms(1,2) by (auto simp: sleep_inv_def put_proc_def)
qed

lemma sleep_inv_release:
  assumes "sleep_inv c" and "holding c i" and "pr_pc p = Closing"
  shows "sleep_inv (put_proc i p (c\<lparr>sc_already_open := 0\<rparr>))"
proof -
  let ?c = "put_proc i p (c\<lparr>sc_already_open := 0\<rparr>)"
  have "\<not> holding ?c j" for j
    using assms by (auto simp: sleep_inv_def conf_simps split: if_splits)
  moreover have "closing ?c i" using assms(3) by (simp add: conf_simps)
  ultimately show ?thesis by (auto simp: sleep_inv_def put_proc_def)
qed

lemma pc_wake [simp]: "pr_pc (wake p) = (if pr_pc p = Asleep then WaitTest else pr_pc p)"
  by (simp add: wake_def)

lemma sleep_inv_wake_up:
  assumes "sleep_inv c" and "closing c i" and "pr_pc p = Outside"
  shows "sleep_inv (c\<lparr>sc_procs := (\<lambda>j. wake (((sc_procs c)(i := p)) j))\<rparr>)"
proof -
  let ?c = "c\<lparr>sc_procs := (\<lambda>j. wake (((sc_procs c)(i := p)) j))\<rparr>"
  have "holding ?c j = holding c j" "\<not> asleep ?c j" for j
    using assms(2,3) by (auto simp: conf_simps)
  then show ?thesis using assms(1) by (auto simp: sleep_inv_def)
qed

lemma sleep_inv_run:
  assumes inv: "sleep_inv c" and st: "module_open_step (sc_already_open c) (sc_procs c i) = Some (v, p')"
  shows "sleep_inv (put_proc i p' (c\<lparr>sc_already_open := v\<rparr>))"
proof -
  let ?p = "sc_procs c i"
  have same: "c\<lparr>sc_already_open := sc_already_open c\<rparr> = c" by simp
  note d = module_open_step.simps atomic_cmpxchg_def plain_def
  show ?thesis
  proof (cases "pr_pc ?p \<in> {TryOpen, WhileTest} \<and> sc_already_open c = 0")
    case True
    then show ?thesis using st sleep_inv_take[OF inv, of p' i]
      by (auto simp: d)
  next
    case False
    with st have v: "v = sc_already_open c" and old: "plain (pr_pc ?p)"
      by (auto simp: d split: pc.splits if_splits)
    show ?thesis
    proof (cases "pr_pc p' = Asleep")
      case True
      then have "sc_already_open c \<noteq> 0"
        using st by (auto simp: d split: pc.splits if_splits)
      from sleep_inv_sleep[OF inv this True old] v same show ?thesis by simp
    next
      case f: False
      then have "plain (pr_pc p')"
        using st False by (auto simp: d split: pc.splits if_splits)
      with sleep_inv_plain[OF inv this] old v same show ?thesis by simp
    qed
  qed
qed

lemma sleep_inv_exec:
  assumes inv: "sleep_inv c" and ex: "sleep_exec c a = Some c'"
  shows "sleep_inv c'"
proof (cases a)
  case (CallOpen i nb)
  then show ?thesis using ex inv
    by (auto simp: Let_def in_user_mode_def plain_def split: if_splits pc.splits
        intro!: sleep_inv_plain)
next
  case (Run i)
  show ?thesis
  proof (cases "pr_pc (sc_procs c i) = Closing")
    case True
    with Run ex sleep_inv_wake_up[OF inv] show ?thesis by (auto simp: closing_def)
  next
    case False
    with Run ex sleep_inv_run[OF inv] show ?thesis
      by (auto simp: Let_def split: option.splits)
  qed
next
  case (CallClose i)
  then show ?thesis using ex sleep_inv_release[OF inv]
    by (auto simp: Let_def holding_def split: if_splits)
next
  case (Signal i pend shar)
  show ?thesis
  proof (cases "pr_pc (signalled pend shar (sc_procs c i)) = pr_pc (sc_procs c i)")
    case True
    with sleep_inv_same[OF inv this] Signal ex show ?thesis by simp
  next
    case False
    then have "pr_pc (sc_procs c i) = Asleep"
      "plain (pr_pc (signalled pend shar (sc_procs c i)))"
      by (auto simp: signalled_def Let_def plain_def split: if_splits)
    with sleep_inv_plain[OF inv] Signal ex show ?thesis by auto
  qed
next
  case (Deliver i)
  then show ?thesis using ex sleep_inv_same[OF inv]
    by (auto simp: Let_def split: if_splits)
qed

lemma sleep_reach_inv: "sleep_reach c \<Longrightarrow> sleep_inv c"
proof (induction rule: sleep_reach.induct)
  case (start c)
  then show ?case by (auto simp: sleep_inv_def holding_def asleep_def)
next
  case (step c a c')
  then show ?case by (blast intro: sleep_inv_exec)
qed

lemma sleep_reach_run: "sleep_reach c \<Longrightarrow> sleep_run c as = Some c' \<Longrightarrow> sleep_reach c'"
  by (induction as arbitrary: c) (auto split: option.splits intro: sleep_reach.step)

text \<open>A process that sleeps has no signal pending: a signal that could end its sleep has woken it.\<close>

lemma asleep_no_signal:
  "sleep_reach c \<Longrightarrow> asleep c i \<Longrightarrow> \<not> signal_pending (sc_procs c i)"
proof (induction arbitrary: i rule: sleep_reach.induct)
  case (start c)
  then show ?case by (simp add: asleep_def)
next
  case (step c a c')
  have same: "signal_pending (p\<lparr>pr_pc := k\<rparr>) = signal_pending p"
    "signal_pending (p\<lparr>pr_pc := k, pr_nonblock := b\<rparr>) = signal_pending p" for p k b
    by (simp_all add: signal_pending_def)
  note IH = step.IH[unfolded asleep_def]
  show ?case
  proof (cases a)
    case (CallOpen j nb)
    with step.hyps(2) step.prems IH show ?thesis
      by (auto simp: asleep_def Let_def put_proc_def split: if_splits)
  next
    case (Run j)
    with step.hyps(2) step.prems IH show ?thesis
      by (auto simp: asleep_def Let_def put_proc_def wake_def module_open_step.simps same
          split: if_splits option.splits pc.splits prod.splits)
  next
    case (CallClose j)
    with step.hyps(2) step.prems IH show ?thesis
      by (auto simp: asleep_def Let_def put_proc_def split: if_splits)
  next
    case (Signal j pend shar)
    with step.hyps(2) step.prems IH show ?thesis
      by (auto simp: asleep_def Let_def put_proc_def signalled_def split: if_splits)
  next
    case (Deliver j)
    with step.hyps(2) step.prems IH show ?thesis
      by (auto simp: asleep_def Let_def put_proc_def in_user_mode_def split: if_splits)
  qed
qed

lemma no_signal_is_sig: "\<not> signal_pending p \<Longrightarrow> is_sig p = 0"
proof -
  assume "\<not> signal_pending p"
  then have "(pr_pending p AND NOT (pr_blocked p)) OR (pr_shared p AND NOT (pr_blocked p)) = 0"
    by (simp add: signal_pending_def bit.conj_disj_distrib2)
  then have "pr_pending p AND NOT (pr_blocked p) = 0"
    by (metis or_eq_0_iff)
  then show ?thesis by (simp add: is_sig_def)
qed

definition sleep_boot :: sleep_conf where
  "sleep_boot = \<lparr>sc_already_open = 0, sc_procs = (\<lambda>_. \<lparr>pr_pc = Outside, pr_nonblock = False,
     pr_pending = 0, pr_shared = 0, pr_blocked = 0\<rparr>)\<rparr>"

text \<open>Process 1 holds the file, process 2 has tried to open it and sleeps.\<close>

definition sleep_busy :: sleep_conf where
  "sleep_busy = the (sleep_run sleep_boot
     [CallOpen 1 False, Run 1, CallOpen 2 False, Run 2, Run 2, Run 2, Run 2])"

lemmas sleep_eval = conf_simps module_open_step.simps atomic_cmpxchg_def in_user_mode_def Let_def
  wake_def signalled_def signal_pending_def is_sig_def

lemma sleep_busy_run: "sleep_run sleep_boot
    [CallOpen 1 False, Run 1, CallOpen 2 False, Run 2, Run 2, Run 2, Run 2] = Some sleep_busy"
  by (simp add: sleep_busy_def sleep_boot_def sleep_eval)

lemma sleep_busy_reach: "sleep_reach sleep_busy"
  by (rule sleep_reach_run[OF sleep_reach.start sleep_busy_run])
    (simp_all add: sleep_boot_def)

lemma sleep_busy_pcs: "holding sleep_busy 1" "asleep sleep_busy 2"
  by (simp_all add: sleep_busy_def sleep_boot_def sleep_eval)

section \<open>Load and unload\<close>

text \<open>The module has no variables that they set: \<open>our_proc_file\<close> is only tested here.\<close>

definition sleep_init :: "bool \<Rightarrow> sleep_state \<Rightarrow> int \<times> sleep_state \<times> event list" where [mod_init]:
  "sleep_init proc_create_ok s =
     (if \<not> proc_create_ok then (- ENOMEM, s, [])
      else (0, s, [Acq (ProcEntry ''sleep'')]))"

definition sleep_exit :: "sleep_state \<Rightarrow> event list" where [mod_init]:
  "sleep_exit s = [Rel (ProcEntry ''sleep'')]"

interpretation sleep_mod: lkm_module sleep_init sleep_exit
  by (rule lkm_moduleI) (auto simp: mod_init split: if_splits)

section \<open>Properties\<close>

text \<open>
  C13 (safety): whatever the processes and signals do, at most one process holds the file, and
  \<open>already_open\<close> is 1 while one does and 0 otherwise.
\<close>

theorem sleep_one_holder:
  assumes "sleep_reach c"
  shows "sc_already_open c = of_bool (\<exists>i. holding c i) \<and>
    (\<forall>i j. holding c i \<and> holding c j \<longrightarrow> i = j)"
proof (cases "sc_already_open c = 0")
  case True
  with sleep_reach_inv[OF assms] show ?thesis by (simp add: sleep_inv_def)
next
  case False
  with sleep_reach_inv[OF assms] show ?thesis by (auto simp: sleep_inv_def)
qed

theorem sleep_one_holder_witness:
  "sc_already_open sleep_busy = 1 \<and> holding sleep_busy 1 \<and> \<not> holding sleep_busy 2"
  using sleep_one_holder[OF sleep_busy_reach] sleep_busy_pcs
  by (auto simp: holding_def asleep_def)

text \<open>
  C9 (liveness): no wake-up is lost. A process sleeps only while another holds the file or is
  about to call \<open>wake_up\<close>; and when the holder closes the file, any sleeping process that
  runs next gets it.
\<close>

theorem sleep_no_lost_wakeup:
  assumes r: "sleep_reach c" and a: "asleep c i"
  shows "\<exists>h. (holding c h \<or> closing c h) \<and>
    (holding c h \<longrightarrow>
      (\<exists>c'. sleep_run c [CallClose h, Run h, Run i, Run i, Run i] = Some c' \<and> holding c' i))"
proof -
  from sleep_reach_inv[OF r] a obtain h where h: "holding c h \<or> closing c h"
    unfolding sleep_inv_def by (metis ex1_implies_ex)
  have "\<exists>c'. sleep_run c [CallClose h, Run h, Run i, Run i, Run i] = Some c' \<and> holding c' i"
    if hh: "holding c h"
  proof -
    have n: "h \<noteq> i" using a hh by (auto simp: holding_def asleep_def)
    have "is_sig (sc_procs c i) = 0" by (rule no_signal_is_sig[OF asleep_no_signal[OF r a]])
    then have "is_sig (sc_procs c i\<lparr>pr_pc := k\<rparr>) = 0" for k by (simp add: is_sig_def)
    with a hh n show ?thesis
      by (simp add: conf_simps module_open_step.simps atomic_cmpxchg_def Let_def wake_def)
  qed
  with h show ?thesis by blast
qed

theorem sleep_no_lost_wakeup_witness:
  "\<exists>c'. sleep_run sleep_busy [CallClose 1, Run 1, Run 2, Run 2, Run 2] = Some c' \<and> holding c' 2"
proof -
  have "\<not> closing sleep_busy h" for h
    by (simp add: sleep_busy_def sleep_boot_def sleep_eval)
  moreover have "h = 1" if "holding sleep_busy h" for h
    using sleep_one_holder_witness sleep_busy_pcs sleep_reach_inv[OF sleep_busy_reach] that
    by (auto simp: sleep_inv_def)
  ultimately show ?thesis using sleep_no_lost_wakeup[OF sleep_busy_reach sleep_busy_pcs(2)] by blast
qed

text \<open>
  A signal with a number up to 32 that is sent to the thread of a sleeping process
  and not blocked ends its open with \<open>-EINTR\<close>, and \<open>already_open\<close> stays as it is.
\<close>

lemma sleep_signal_interrupts:
  assumes "asleep c i" and "sig < 32" and "\<not> bit (pr_blocked (sc_procs c i)) sig"
  shows "\<exists>c'. sleep_run c [Signal i (push_bit sig 1) 0, Run i, Run i] = Some c' \<and>
    pr_pc (sc_procs c' i) = Returned (- EINTR) \<and> sc_already_open c' = sc_already_open c"
proof -
  let ?p = "sc_procs c i"
  let ?w = "pr_pending ?p OR push_bit sig 1"
  have b: "bit (?w AND NOT (pr_blocked ?p)) sig"
    using assms(2,3) by (simp add: bit_simps)
  then have 1: "(?w OR pr_shared ?p) AND NOT (pr_blocked ?p) \<noteq> 0"
    by (metis bit_and_iff bit_or_iff bit_0_eq bot_apply bot_bool_def)
  have "bit (ucast (?w AND NOT (pr_blocked ?p)) :: 32 word) sig"
    using b assms(2) by (simp add: bit_simps)
  then have "(ucast (?w AND NOT (pr_blocked ?p)) :: 32 word) \<noteq> 0" by auto
  then have 2: "sint (ucast (?w AND NOT (pr_blocked ?p)) :: 32 word) \<noteq> 0"
    by (metis signed_0 signed_word_eqI)
  show ?thesis using assms(1) 1 2
    by (simp add: conf_simps module_open_step.simps Let_def wake_def signalled_def
        signal_pending_def is_sig_def)
qed

lemma sleep_signal_interrupts_witness:
  "\<exists>c'. sleep_run sleep_busy [Signal 2 (push_bit 1 1) 0, Run 2, Run 2] = Some c' \<and>
    pr_pc (sc_procs c' 2) = Returned (- EINTR)"
proof -
  have "\<not> bit (pr_blocked (sc_procs sleep_busy 2)) 1"
    by (simp add: sleep_busy_def sleep_boot_def sleep_eval)
  from sleep_signal_interrupts[OF sleep_busy_pcs(2) _ this] show ?thesis by auto
qed

text \<open>
  C39 (liveness): a signal with a number above 32, or one sent to the whole process, is not seen by
  the test for signals, yet it keeps \<open>wait_event_interruptible\<close> from sleeping: while the file
  is held, the process that opens it runs round its loop for ever, whatever the number of rounds.
\<close>

theorem sleep_open_spins:
  assumes "pr_pc (sc_procs c i) = WhileTest" and "sc_already_open c \<noteq> 0"
    and "signal_pending (sc_procs c i)"
    and "take_bit 32 (pr_pending (sc_procs c i) AND NOT (pr_blocked (sc_procs c i))) = 0"
  shows "sleep_run c (concat (replicate n [Run i, Run i, Run i])) = Some c"
proof -
  let ?p = "sc_procs c i"
  have "(ucast (pr_pending ?p AND NOT (pr_blocked ?p)) :: 32 word) = 0"
  proof (rule bit_word_eqI)
    fix k
    have "\<not> bit (take_bit 32 (pr_pending ?p AND NOT (pr_blocked ?p))) k" using assms(4) by simp
    then show "bit (ucast (pr_pending ?p AND NOT (pr_blocked ?p)) :: 32 word) k = bit (0 :: 32 word) k"
      by (simp only: bit_take_bit_iff bit_unsigned_iff) simp
  qed
  then have s: "is_sig (?p\<lparr>pr_pc := k\<rparr>) = 0" for k by (simp add: is_sig_def)
  have t: "signal_pending (?p\<lparr>pr_pc := k\<rparr>)" for k
    using assms(3) by (simp add: signal_pending_def)
  have p: "?p\<lparr>pr_pc := WhileTest\<rparr> = ?p" using assms(1) by simp
  have round: "sleep_run c ([Run i, Run i, Run i] @ as) = sleep_run c as" for as
    using assms(1,2) s t
    by (simp add: put_proc_def module_open_step.simps atomic_cmpxchg_def Let_def p)
  show ?thesis
  proof (induction n)
    case 0
    then show ?case by simp
  next
    case (Suc n)
    with round[of "concat (replicate n [Run i, Run i, Run i])"] show ?case by simp
  qed
qed

theorem sleep_open_spins_witness:
  "sleep_run \<lparr>sc_already_open = 1, sc_procs = (\<lambda>_. \<lparr>pr_pc = WhileTest, pr_nonblock = False,
      pr_pending = push_bit 33 1, pr_shared = 0, pr_blocked = 0\<rparr>)\<rparr>
    (concat (replicate 1000 [Run 7, Run 7, Run 7])) =
   Some \<lparr>sc_already_open = 1, sc_procs = (\<lambda>_. \<lparr>pr_pc = WhileTest, pr_nonblock = False,
      pr_pending = push_bit 33 1, pr_shared = 0, pr_blocked = 0\<rparr>)\<rparr>"
  by (rule sleep_open_spins) (simp_all add: signal_pending_def)

text \<open>
  A write of any length to \<open>/proc/sleep\<close> takes at most 79 bytes; the next read
  with room for it returns them, up to a NUL among them, after \<open>Last input:\<close> and before a
  newline, and the read after that returns 0, once.
\<close>

lemma sleep_write_then_read:
  assumes g: "sleep_good s" and f: "sl_finished s = 0"
    and st: "length stack = MESSAGE_LENGTH + 30" and m: "mapped u b n"
    and n: "length (cstr (get_bytes u a (min len 79))) + 12 \<le> n"
  shows "\<exists>s1 s2 s3 u' r. module_input s u a len = Some (int (min len 79), s1) \<and>
    module_output stack s1 u b n = Some (int r, s2, u') \<and>
    get_bytes u' b r = ''Last input:'' @ cstr (get_bytes u a (min len 79)) @ [NL] \<and>
    module_output stack s2 u' b n = Some (0, s3, u') \<and> sleep_good s3 \<and> sl_finished s3 = 0"
proof -
  let ?c = "cstr (get_bytes u a (min len 79))"
  let ?t = "''Last input:'' @ ?c @ [NL]"
  let ?s1 = "s\<lparr>sl_message := put_front (get_bytes u a (min len 79) @ [NUL]) (sl_message s)\<rparr>"
  have w: "module_input s u a len = Some (int (min len 79), ?s1)" by (rule module_input_eq[OF g])
  from module_input_good[OF g w] have g1: "sleep_good ?s1" and c: "cstr (sl_message ?s1) = ?c"
    by auto
  have f1: "sl_finished ?s1 = 0" using f by simp
  have l: "length ?t = length ?c + 12" by simp
  with n have mt: "mapped u b (length ?t)" by (intro mapped_mono[OF m]) simp
  have tk: "take n ?t = ?t" using n l by (intro take_all) simp
  have o: "module_output stack ?s1 u b n =
      Some (int (length ?t), ?s1\<lparr>sl_finished := 1\<rparr>, put_bytes u b ?t)"
    using module_output_eq[OF g1 st f1, of u b n] n by (simp only: c tk l) (simp add: min_def)
  moreover have "module_output stack (?s1\<lparr>sl_finished := 1\<rparr>) (put_bytes u b ?t) b n =
      Some (0, ?s1, put_bytes u b ?t)"
    using f by (simp add: module_output_def)
  ultimately show ?thesis
    using w g1 f1 get_bytes_put_bytes[OF mt] by blast
qed

lemma sleep_write_then_read_witness:
  "\<exists>s1 s2 u' r. module_input sleep_zero (umem_with 4 ''hi'') 4 2 = Some (2, s1) \<and>
    module_output (replicate 110 NUL) s1 (umem_with 4 ''hi'') 30 20 = Some (int r, s2, u') \<and>
    get_bytes u' 30 r = ''Last input:hi'' @ [NL]"
proof -
  have b: "get_bytes (umem_with 4 ''hi'') 4 2 = ''hi''" by (rule get_bytes_umem_with) simp
  have c: "cstr ''hi'' = ''hi''" by (rule cstr_no_NUL) simp
  have "sl_finished sleep_zero = 0" by (simp add: sleep_zero_def)
  from sleep_write_then_read[OF sleep_zero_good this, of "replicate 110 NUL" "umem_with 4 ''hi''"
      30 20 4 2] show ?thesis
    by (auto simp: b c MESSAGE_LENGTH_def min_def)
qed

end
