(* ===== verification/Vinput.thy ===== *)
theory Vinput
  imports Vfs Resources
begin

text \<open>
  \<open>vinput.c\<close> and \<open>vinput.h\<close>: virtual input devices \<open>/dev/vinput0\<close> to \<open>/dev/vinput31\<close>, made and
  removed through the class attributes \<open>export\<close> and \<open>unexport\<close>. What a device does with the
  bytes written to it and what it shows to a reader is up to its type, which another module
  registers with four functions (\<open>vinput_ops\<close>).

  The objects on the heap, the id bitmap and the two lists are modelled by addresses. A
  computation is \<open>None\<close> when the code would follow a pointer to an object that is freed, free it
  twice, or leave an array. The operations hold \<open>vinput_lock\<close> where they touch the lists, so each
  is one step.
\<close>

section \<open>Data\<close>

text \<open>The input device that the kernel's input layer gives to every virtual device.\<close>

record input_dev =
  in_name :: "char list"
  in_phys :: "char list"
  in_parent :: nat
  in_bustype :: nat
  in_product :: nat
  in_vendor :: nat
  in_version :: nat
  in_evbit :: "64 word"
  in_keycodesize :: nat
  in_keycodemax :: nat
  in_keycode :: "16 word list"
  in_keybit :: "nat \<Rightarrow> bool"
  in_registered :: bool

record vinput =
  vi_id :: int
  vi_last_entry :: "64 word"
  vi_devt :: "int \<times> int"
  vi_input :: nat
  vi_type :: nat

text \<open>What is reported to the input layer: a key with its code and value, and the end of a report.\<close>

datatype input_event = Key nat "32 word" int | Sync nat

text \<open>
  The functions of a device type. \<open>init\<close> sets up the input device and registers it, \<open>kill\<close> may be
  absent; \<open>send\<close> and \<open>read\<close> get an array and a length.
\<close>

record vinput_ops =
  op_init :: "vinput \<Rightarrow> input_dev \<Rightarrow> int \<times> input_dev"
  op_kill :: "(vinput \<Rightarrow> vinput) option"
  op_send :: "vinput \<Rightarrow> char list \<Rightarrow> int \<Rightarrow> (int \<times> vinput \<times> input_event list) option"
  op_read :: "vinput \<Rightarrow> char list \<Rightarrow> int \<Rightarrow> (int \<times> char list) option"

record vinput_device =
  vd_name :: "char list"
  vd_ops :: vinput_ops

text \<open>
  \<open>vs_types\<close> is the memory of the modules that define device types, \<open>vs_heap\<close> the allocated
  \<open>struct vinput\<close>, \<open>vs_inputs\<close> the input devices.
\<close>

record vinput_sys =
  vs_dev :: int
  vs_ids :: "64 word"
  vs_devices :: "nat list"
  vs_vdevices :: "nat list"
  vs_types :: "nat \<rightharpoonup> vinput_device"
  vs_heap :: "nat \<rightharpoonup> vinput"
  vs_inputs :: "nat \<rightharpoonup> input_dev"

definition VINPUT_MAX_LEN :: nat where
  "VINPUT_MAX_LEN = 128"

definition VINPUT_MINORS :: nat where
  "VINPUT_MINORS = 32"

section \<open>Searching the lists\<close>

fun device_by_type_loop ::
    "(nat \<rightharpoonup> vinput_device) \<Rightarrow> char list \<Rightarrow> nat list \<Rightarrow> nat option option" where
  "device_by_type_loop types type [] = Some None"
| "device_by_type_loop types type (d # ds) =
     do { dev \<leftarrow> types d;
          if has_prefix type (cstr (vd_name dev)) then Some (Some d)
          else device_by_type_loop types type ds }"

definition vinput_get_device_by_type :: "vinput_sys \<Rightarrow> char list \<Rightarrow> (int + nat) option" where
  "vinput_get_device_by_type s type =
     do { found \<leftarrow> device_by_type_loop (vs_types s) type (vs_devices s);
          Some (case found of Some d \<Rightarrow> Inr d | None \<Rightarrow> Inl (- ENODEV)) }"

text \<open>The loop leaves in \<open>vinput\<close> the first object with the id, or else the last one of the list.\<close>

fun vdevice_by_id_loop ::
    "(nat \<rightharpoonup> vinput) \<Rightarrow> int \<Rightarrow> nat list \<Rightarrow> nat option \<Rightarrow> nat option option" where
  "vdevice_by_id_loop heap ident [] vinput = Some vinput"
| "vdevice_by_id_loop heap ident (a # as) vinput =
     do { v \<leftarrow> heap a;
          if vi_id v = ident then Some (Some a) else vdevice_by_id_loop heap ident as (Some a) }"

definition vinput_get_vdevice_by_id :: "vinput_sys \<Rightarrow> int \<Rightarrow> (int + nat) option" where
  "vinput_get_vdevice_by_id s ident =
     do { vinput \<leftarrow> vdevice_by_id_loop (vs_heap s) ident (vs_vdevices s) None;
          case vinput of
            None \<Rightarrow> Some (Inl (- ENODEV))
          | Some a \<Rightarrow>
              do { v \<leftarrow> vs_heap s a;
                   Some (if vi_id v = ident then Inr a else Inl (- ENODEV)) } }"

section \<open>File operations\<close>

text \<open>Opening stores the object's address in the file: the second component.\<close>

definition vinput_open :: "vinput_sys \<Rightarrow> int \<Rightarrow> (int \<times> nat option) option" where
  "vinput_open s minor =
     do { vinput \<leftarrow> vinput_get_vdevice_by_id s minor;
          Some (case vinput of Inl err \<Rightarrow> (err, None) | Inr a \<Rightarrow> (0, Some a)) }"

definition vinput_release :: int where
  "vinput_release = 0"

text \<open>
  \<open>buff\<close> is an array of \<open>VINPUT_MAX_LEN + 1\<close> bytes on the stack; what it holds before the call of
  the type's \<open>read\<close> is the argument \<open>stack\<close>. A count of bytes fits into an \<open>int\<close>: the file
  layer cuts it to less than \<open>2 ^ 31\<close>.
\<close>

definition vinput_read ::
    "not_copied \<Rightarrow> char list \<Rightarrow> vinput_sys \<Rightarrow> nat \<Rightarrow> umem \<Rightarrow> nat \<Rightarrow> nat \<Rightarrow> int \<Rightarrow>
      read_result option" where
  "vinput_read nc stack s file u buffer count offset =
     do { v \<leftarrow> vs_heap s file;
          t \<leftarrow> vs_types s (vi_type v);
          (len, buff) \<leftarrow> op_read (vd_ops t) v stack (int count);
          let count = (if len < offset then 0
                       else if int VINPUT_MAX_LEN < int count + offset then nat (len - offset)
                       else count);
          if count = 0 \<or> 0 \<le> offset \<and> nat offset + count \<le> length buff
          then (let (n, u') = copy_to_user nc u buffer (take count (drop (nat offset) buff))
                in if n \<noteq> 0 then Some (- EFAULT, offset, u')
                   else Some (int count, offset + int count, u'))
          else None }"

text \<open>The warning about too many bytes reads the name of the device.\<close>

definition vinput_write ::
    "not_copied \<Rightarrow> vinput_sys \<Rightarrow> nat \<Rightarrow> umem \<Rightarrow> nat \<Rightarrow> nat \<Rightarrow>
      (int \<times> vinput_sys \<times> input_event list) option" where
  "vinput_write nc s file u buffer count =
     (let buff = replicate (VINPUT_MAX_LEN + 1) NUL
      in if VINPUT_MAX_LEN < count then do { v \<leftarrow> vs_heap s file; Some (- EINVAL, s, []) }
         else
           do { (n, buff) \<leftarrow> copy_from_user nc u buffer count buff;
                if n \<noteq> 0 then Some (- EFAULT, s, [])
                else
                  do { v \<leftarrow> vs_heap s file;
                       t \<leftarrow> vs_types s (vi_type v);
                       (ret, v', evs) \<leftarrow> op_send (vd_ops t) v buff (int count);
                       Some (ret, s\<lparr>vs_heap := (vs_heap s)(file \<mapsto> v')\<rparr>, evs) } })"

section \<open>Making and removing devices\<close>

text \<open>
  What the kernel's functions return: the address of a zeroed object or \<open>None\<close>, the address of
  an input device or \<open>None\<close>, and an error number.
\<close>

record export_env =
  ret_kzalloc :: "nat option"
  ret_input_allocate_device :: "nat option"
  ret_device_register :: int

definition vinput_zeroed :: vinput where
  "vinput_zeroed =
     \<lparr>vi_id = 0, vi_last_entry = 0, vi_devt = (0, 0), vi_input = 0, vi_type = 0\<rparr>"

definition input_dev_zeroed :: input_dev where
  "input_dev_zeroed =
     \<lparr>in_name = [], in_phys = [], in_parent = 0, in_bustype = 0, in_product = 0, in_vendor = 0,
      in_version = 0, in_evbit = 0, in_keycodesize = 0, in_keycodemax = 0, in_keycode = [],
      in_keybit = (\<lambda>_. False), in_registered = False\<rparr>"

text \<open>A registered input device is unregistered, one that is not is freed.\<close>

definition input_free_device :: "vinput_sys \<Rightarrow> nat \<Rightarrow> vinput_sys option" where
  "input_free_device s i =
     do { d \<leftarrow> vs_inputs s i;
          if in_registered d then None else Some (s\<lparr>vs_inputs := (vs_inputs s)(i := None)\<rparr>) }"

definition input_unregister_device :: "vinput_sys \<Rightarrow> nat \<Rightarrow> vinput_sys option" where
  "input_unregister_device s i =
     do { d \<leftarrow> vs_inputs s i;
          if in_registered d then Some (s\<lparr>vs_inputs := (vs_inputs s)(i := None)\<rparr>) else None }"

definition vinput_unregister_vdevice :: "vinput_sys \<Rightarrow> nat \<Rightarrow> vinput_sys option" where
  "vinput_unregister_vdevice s a =
     do { v \<leftarrow> vs_heap s a;
          s \<leftarrow> input_unregister_device s (vi_input v);
          t \<leftarrow> vs_types s (vi_type v);
          case op_kill (vd_ops t) of
            None \<Rightarrow> Some s
          | Some kill \<Rightarrow> Some (s\<lparr>vs_heap := (vs_heap s)(a \<mapsto> kill v)\<rparr>) }"

definition vinput_destroy_vdevice :: "vinput_sys \<Rightarrow> nat \<Rightarrow> vinput_sys option" where
  "vinput_destroy_vdevice s a =
     do { v \<leftarrow> vs_heap s a;
          vdevices \<leftarrow> list_del a (vs_vdevices s);
          heap \<leftarrow> kfree (vs_heap s) a;
          Some (s\<lparr>vs_ids := unset_bit (nat (vi_id v)) (vs_ids s), vs_vdevices := vdevices,
                  vs_heap := heap\<rparr>) }"

definition vinput_release_dev :: "vinput_sys \<Rightarrow> nat \<Rightarrow> vinput_sys option" where
  "vinput_release_dev s a = vinput_destroy_vdevice s a"

text \<open>Nobody else holds a reference, so \<open>device_unregister\<close> calls the device's \<open>release\<close> at once.\<close>

definition device_unregister :: "vinput_sys \<Rightarrow> nat \<Rightarrow> vinput_sys option" where
  "device_unregister s a = vinput_release_dev s a"

definition vinput_alloc_vdevice ::
    "export_env \<Rightarrow> vinput_sys \<Rightarrow> ((int + nat) \<times> vinput_sys) option" where
  "vinput_alloc_vdevice e s =
     (case ret_kzalloc e of
        None \<Rightarrow> Some (Inl (- ENOMEM), s)
      | Some a \<Rightarrow>
          (let s = s\<lparr>vs_heap := (vs_heap s)(a \<mapsto> vinput_zeroed)\<rparr>;
               id = find_first_zero_bit (vs_ids s) VINPUT_MINORS
           in if VINPUT_MINORS \<le> id
              then do { heap \<leftarrow> kfree (vs_heap s) a; Some (Inl (- ENOBUFS), s\<lparr>vs_heap := heap\<rparr>) }
              else
                (let s = s\<lparr>vs_heap := (vs_heap s)(a \<mapsto> vinput_zeroed\<lparr>vi_id := int id\<rparr>),
                           vs_ids := set_bit id (vs_ids s),
                           vs_vdevices := a # vs_vdevices s\<rparr>
                 in case ret_input_allocate_device e of
                      None \<Rightarrow>
                        do { vdevices \<leftarrow> list_del a (vs_vdevices s);
                             heap \<leftarrow> kfree (vs_heap s) a;
                             Some (Inl (- ENOMEM), s\<lparr>vs_vdevices := vdevices, vs_heap := heap\<rparr>) }
                    | Some i \<Rightarrow>
                        Some (Inr a,
                          s\<lparr>vs_heap := (vs_heap s)(a \<mapsto> vinput_zeroed\<lparr>vi_id := int id,
                              vi_devt := (vs_dev s, int id), vi_input := i\<rparr>),
                            vs_inputs := (vs_inputs s)(i \<mapsto> input_dev_zeroed)\<rparr>))))"

definition vinput_register_vdevice :: "vinput_sys \<Rightarrow> nat \<Rightarrow> (int \<times> vinput_sys) option" where
  "vinput_register_vdevice s a =
     do { v \<leftarrow> vs_heap s a;
          t \<leftarrow> vs_types s (vi_type v);
          d \<leftarrow> vs_inputs s (vi_input v);
          let (err, d') = op_init (vd_ops t) v (d\<lparr>in_name := cstr (vd_name t),
            in_phys := ''vinput'', in_parent := a, in_bustype := 6, in_product := 0,
            in_vendor := 0, in_version := 0\<rparr>);
          Some (err, s\<lparr>vs_inputs := (vs_inputs s)(vi_input v \<mapsto> d')\<rparr>) }"

definition export_store ::
    "export_env \<Rightarrow> vinput_sys \<Rightarrow> char list \<Rightarrow> nat \<Rightarrow> (int \<times> vinput_sys) option" where
  "export_store e s buf len =
     do { device \<leftarrow> vinput_get_device_by_type s buf;
          case device of
            Inl err \<Rightarrow> Some (err, s)
          | Inr device \<Rightarrow>
              do { (vinput, s) \<leftarrow> vinput_alloc_vdevice e s;
                   case vinput of
                     Inl err \<Rightarrow> Some (err, s)
                   | Inr a \<Rightarrow>
                       do { v \<leftarrow> vs_heap s a;
                            let s = s\<lparr>vs_heap := (vs_heap s)(a \<mapsto> v\<lparr>vi_type := device\<rparr>)\<rparr>;
                            if ret_device_register e < 0
                            then do { s \<leftarrow> input_free_device s (vi_input v);
                                      s \<leftarrow> vinput_destroy_vdevice s a;
                                      Some (ret_device_register e, s) }
                            else
                              do { (err, s) \<leftarrow> vinput_register_vdevice s a;
                                   if err < 0
                                   then do { s \<leftarrow> input_free_device s (vi_input v);
                                             s \<leftarrow> device_unregister s a;
                                             Some (err, s) }
                                   else Some (int len, s) } } } }"

text \<open>
  \<open>kstrtol str\<close> is the return value of the kernel's \<open>kstrtol\<close> with base 10 for the C string
  \<open>str\<close>, and the number it stores when it returns 0.
\<close>

definition unexport_store ::
    "(char list \<Rightarrow> int \<times> int) \<Rightarrow> vinput_sys \<Rightarrow> char list \<Rightarrow> nat \<Rightarrow> (int \<times> vinput_sys) option" where
  "unexport_store kstrtol s buf len =
     (let (err, ident) = kstrtol (cstr buf)
      in if err \<noteq> 0 then Some (- EINVAL, s)
         else
           do { vinput \<leftarrow> vinput_get_vdevice_by_id s ident;
                case vinput of
                  Inl err \<Rightarrow> Some (err, s)
                | Inr a \<Rightarrow>
                    do { s \<leftarrow> vinput_unregister_vdevice s a;
                         s \<leftarrow> device_unregister s a;
                         Some (int len, s) } })"

section \<open>Device types\<close>

definition vinput_register :: "vinput_sys \<Rightarrow> nat \<Rightarrow> int \<times> vinput_sys" where
  "vinput_register s dev = (0, s\<lparr>vs_devices := dev # vs_devices s\<rparr>)"

text \<open>\<open>list_for_each_safe\<close> keeps the next element before the body frees the current one.\<close>

fun vinput_unregister_loop :: "nat \<Rightarrow> nat list \<Rightarrow> vinput_sys \<Rightarrow> vinput_sys option" where
  "vinput_unregister_loop dev [] s = Some s"
| "vinput_unregister_loop dev (a # as) s =
     do { v \<leftarrow> vs_heap s a;
          if vi_type v = dev
          then do { s \<leftarrow> vinput_unregister_vdevice s a;
                    s \<leftarrow> device_unregister s a;
                    vinput_unregister_loop dev as s }
          else vinput_unregister_loop dev as s }"

definition vinput_unregister :: "vinput_sys \<Rightarrow> nat \<Rightarrow> vinput_sys option" where
  "vinput_unregister s dev =
     do { devices \<leftarrow> list_del dev (vs_devices s);
          vinput_unregister_loop dev (vs_vdevices s) (s\<lparr>vs_devices := devices\<rparr>) }"

section \<open>Load and unload\<close>

record vinput_env =
  ret_vinput_chrdev :: int
  ret_class_register :: int

definition vinput_init :: "vinput_env \<Rightarrow> vinput_sys \<Rightarrow> int \<times> vinput_sys \<times> event list" where [mod_init]:
  "vinput_init e s =
     (let s = s\<lparr>vs_dev := ret_vinput_chrdev e\<rparr> in
      if vs_dev s < 0 then (vs_dev s, s, [])
      else if ret_class_register e < 0
      then (ret_class_register e, s, [Acq (Chrdev (vs_dev s)), Rel (Chrdev (vs_dev s))])
      else (0, s, [Acq (Chrdev (vs_dev s)), Acq DevClass]))"

definition vinput_end :: "vinput_sys \<Rightarrow> event list" where [mod_init]:
  "vinput_end s = [Rel (Chrdev (vs_dev s)), Rel DevClass]"

interpretation vinput_mod: lkm_module vinput_init vinput_end
  by (rule lkm_moduleI) (auto simp: mod_init split: if_splits)

end
