(* ===== verification/Vinput_Inv.thy ===== *)
theory Vinput_Inv
  imports Vinput
begin

text \<open>
  The contract between the virtual input framework and the device types, the invariant of the
  framework's lists, bitmap and heap, and what every operation does to them: the operations
  never follow a stale pointer, and they refine a table from ids to device types.
\<close>

section \<open>The contract of a device type\<close>

text \<open>
  \<open>init\<close> registers the input device exactly when it returns 0; no function changes what the
  framework keeps in the object; \<open>send\<close> and \<open>read\<close> stay in the array of the framework.
\<close>

locale vinput_driver =
  fixes ops :: vinput_ops
  assumes init_registers:
      "op_init ops v d = (r, d') \<Longrightarrow> \<not> in_registered d \<Longrightarrow> r \<le> 0 \<and> (in_registered d' \<longleftrightarrow> r = 0)"
    and kill_keeps:
      "op_kill ops = Some k \<Longrightarrow>
        vi_id (k v) = vi_id v \<and> vi_type (k v) = vi_type v \<and> vi_input (k v) = vi_input v"
    and send_keeps:
      "length buff = VINPUT_MAX_LEN + 1 \<Longrightarrow> terminated buff \<Longrightarrow> 0 \<le> n \<Longrightarrow>
        \<exists>r v' evs. op_send ops v buff n = Some (r, v', evs) \<and>
          vi_id v' = vi_id v \<and> vi_type v' = vi_type v \<and> vi_input v' = vi_input v"
    and read_stays:
      "length buff = VINPUT_MAX_LEN + 1 \<Longrightarrow> 0 \<le> n \<Longrightarrow>
        \<exists>r buff'. op_read ops v buff n = Some (r, buff') \<and> r \<le> int VINPUT_MAX_LEN \<and>
          length buff' = VINPUT_MAX_LEN + 1"

section \<open>Invariant\<close>

definition vinput_obj_ok :: "vinput_sys \<Rightarrow> vinput \<Rightarrow> bool" where
  "vinput_obj_ok s v \<longleftrightarrow>
     0 \<le> vi_id v \<and> vi_id v < int VINPUT_MINORS \<and> bit (vs_ids s) (nat (vi_id v)) \<and>
     vi_type v \<in> set (vs_devices s) \<and>
     (\<exists>d. vs_inputs s (vi_input v) = Some d \<and> in_registered d)"

text \<open>
  The list holds exactly the allocated objects, once each; each has an id of its own, marked in
  the bitmap, a registered type, and a registered input device of its own, and there are no
  other input devices.
\<close>

definition vinput_inv :: "vinput_sys \<Rightarrow> bool" where
  "vinput_inv s \<longleftrightarrow>
     distinct (vs_devices s) \<and>
     (\<forall>d \<in> set (vs_devices s). \<exists>t. vs_types s d = Some t \<and> vinput_driver (vd_ops t)) \<and>
     distinct (vs_vdevices s) \<and> dom (vs_heap s) = set (vs_vdevices s) \<and>
     (\<forall>a v. vs_heap s a = Some v \<longrightarrow> vinput_obj_ok s v) \<and>
     (\<forall>a b v w. vs_heap s a = Some v \<and> vs_heap s b = Some w \<and>
        (vi_id v = vi_id w \<or> vi_input v = vi_input w) \<longrightarrow> a = b) \<and>
     (\<forall>i. vs_inputs s i \<noteq> None \<longrightarrow> (\<exists>a v. vs_heap s a = Some v \<and> vi_input v = i))"

lemma inv_driver:
  "vinput_inv s \<Longrightarrow> d \<in> set (vs_devices s) \<Longrightarrow>
    \<exists>t. vs_types s d = Some t \<and> vinput_driver (vd_ops t)"
  by (simp add: vinput_inv_def)

lemma inv_obj: "vinput_inv s \<Longrightarrow> vs_heap s a = Some v \<Longrightarrow> vinput_obj_ok s v"
  by (simp add: vinput_inv_def)

lemma inv_obj_driver:
  assumes "vinput_inv s" and "vs_heap s a = Some v"
  shows "\<exists>t. vs_types s (vi_type v) = Some t \<and> vinput_driver (vd_ops t)"
  using inv_driver[OF assms(1)] inv_obj[OF assms] by (simp add: vinput_obj_ok_def)

lemma inv_listed: "vinput_inv s \<Longrightarrow> vs_heap s a = Some v \<Longrightarrow> a \<in> set (vs_vdevices s)"
  unfolding vinput_inv_def by blast

lemma inv_allocated: "vinput_inv s \<Longrightarrow> a \<in> set (vs_vdevices s) \<Longrightarrow> \<exists>v. vs_heap s a = Some v"
  unfolding vinput_inv_def by blast

lemma inv_dom: "vinput_inv s \<Longrightarrow> dom (vs_heap s) = set (vs_vdevices s)"
  by (simp add: vinput_inv_def)

lemma inv_unique:
  assumes "vinput_inv s" and "vs_heap s a = Some v" and "vs_heap s b = Some w"
    and "vi_id v = vi_id w \<or> vi_input v = vi_input w"
  shows "a = b"
  using assms unfolding vinput_inv_def by metis

lemma inv_input_used:
  assumes "vinput_inv s" and "vs_inputs s i \<noteq> None"
  shows "\<exists>a v. vs_heap s a = Some v \<and> vi_input v = i"
  using assms unfolding vinput_inv_def by metis

lemma vinput_invI:
  assumes "distinct (vs_devices s)"
    and "\<And>d. d \<in> set (vs_devices s) \<Longrightarrow> \<exists>t. vs_types s d = Some t \<and> vinput_driver (vd_ops t)"
    and "distinct (vs_vdevices s)" and "dom (vs_heap s) = set (vs_vdevices s)"
    and "\<And>a v. vs_heap s a = Some v \<Longrightarrow> vinput_obj_ok s v"
    and "\<And>a b v w. vs_heap s a = Some v \<Longrightarrow> vs_heap s b = Some w \<Longrightarrow>
      vi_id v = vi_id w \<or> vi_input v = vi_input w \<Longrightarrow> a = b"
    and "\<And>i. vs_inputs s i \<noteq> None \<Longrightarrow> \<exists>a v. vs_heap s a = Some v \<and> vi_input v = i"
  shows "vinput_inv s"
  using assms unfolding vinput_inv_def by blast

section \<open>Adding and removing an object\<close>

definition vinput_new :: "vinput_sys \<Rightarrow> nat \<Rightarrow> nat \<Rightarrow> nat \<Rightarrow> vinput" where
  "vinput_new s ident i dev = vinput_zeroed\<lparr>vi_id := int ident,
     vi_devt := (vs_dev s, int ident), vi_input := i, vi_type := dev\<rparr>"

definition vinput_add :: "vinput_sys \<Rightarrow> nat \<Rightarrow> nat \<Rightarrow> nat \<Rightarrow> input_dev \<Rightarrow> vinput_sys" where
  "vinput_add s a i dev d =
     (let ident = find_first_zero_bit (vs_ids s) VINPUT_MINORS
      in s\<lparr>vs_ids := set_bit ident (vs_ids s), vs_vdevices := a # vs_vdevices s,
           vs_heap := (vs_heap s)(a \<mapsto> vinput_new s ident i dev),
           vs_inputs := (vs_inputs s)(i \<mapsto> d)\<rparr>)"

definition vinput_remove :: "vinput_sys \<Rightarrow> nat \<Rightarrow> vinput \<Rightarrow> vinput_sys" where
  "vinput_remove s a v =
     s\<lparr>vs_ids := unset_bit (nat (vi_id v)) (vs_ids s), vs_vdevices := remove1 a (vs_vdevices s),
       vs_heap := (vs_heap s)(a := None), vs_inputs := (vs_inputs s)(vi_input v := None)\<rparr>"

lemma vinput_add_inv:
  assumes inv: "vinput_inv s" and a: "vs_heap s a = None" and i: "vs_inputs s i = None"
    and room: "find_first_zero_bit (vs_ids s) VINPUT_MINORS < VINPUT_MINORS"
    and dev: "dev \<in> set (vs_devices s)" and d: "in_registered d"
  shows "vinput_inv (vinput_add s a i dev d)"
proof -
  let ?k = "find_first_zero_bit (vs_ids s) VINPUT_MINORS"
  let ?s = "vinput_add s a i dev d" and ?n = "vinput_new s ?k i dev"
  note k = find_first_zero_bit_unset[OF room]
  have n: "vi_id ?n = int ?k" "vi_input ?n = i" "vi_type ?n = dev"
    by (simp_all add: vinput_new_def)
  have heap: "vs_heap ?s b = (if b = a then Some ?n else vs_heap s b)" for b
    by (simp add: vinput_add_def Let_def)
  have new: "vinput_obj_ok ?s ?n"
    using room dev d by (simp add: vinput_obj_ok_def vinput_add_def Let_def n bit_simps)
      (simp add: VINPUT_MINORS_def)
  have old: "vinput_obj_ok ?s v \<and> vi_id v \<noteq> int ?k \<and> vi_input v \<noteq> i"
    if "vs_heap s b = Some v" for b v
    using inv_obj[OF inv that] k i
    by (auto simp: vinput_obj_ok_def vinput_add_def Let_def bit_simps VINPUT_MINORS_def)
  have vd: "vs_vdevices ?s = a # vs_vdevices s" and inputs: "vs_inputs ?s = (vs_inputs s)(i \<mapsto> d)"
    and ty: "vs_types ?s = vs_types s" and dv: "vs_devices ?s = vs_devices s"
    by (simp_all add: vinput_add_def Let_def)
  show ?thesis
  proof (rule vinput_invI)
    show "distinct (vs_devices ?s)" using inv by (simp add: dv vinput_inv_def)
    show "\<exists>t. vs_types ?s e = Some t \<and> vinput_driver (vd_ops t)" if "e \<in> set (vs_devices ?s)" for e
      using that inv_driver[OF inv] by (simp add: dv ty)
    have "a \<notin> set (vs_vdevices s)" using inv_allocated[OF inv, of a] a by auto
    then show "distinct (vs_vdevices ?s)" using inv by (simp add: vd vinput_inv_def)
    show "dom (vs_heap ?s) = set (vs_vdevices ?s)"
      using inv_dom[OF inv] by (simp add: vd) (simp add: vinput_add_def Let_def)
    show "vinput_obj_ok ?s v" if "vs_heap ?s b = Some v" for b v
      using that new old by (auto simp: heap split: if_splits)
    show "b = c" if "vs_heap ?s b = Some v" "vs_heap ?s c = Some w"
      "vi_id v = vi_id w \<or> vi_input v = vi_input w" for b c v w
    proof (cases "b = a \<or> c = a")
      case True
      with that n old[of b v] old[of c w] show ?thesis by (auto simp: heap split: if_splits)
    next
      case False
      with that show ?thesis by (intro inv_unique[OF inv, of b v c w]) (auto simp: heap)
    qed
    show "\<exists>b v. vs_heap ?s b = Some v \<and> vi_input v = j" if "vs_inputs ?s j \<noteq> None" for j
    proof (cases "j = i")
      case True
      then show ?thesis by (intro exI[of _ a] exI[of _ ?n]) (simp add: heap n)
    next
      case False
      with that inv_input_used[OF inv, of j] obtain b v where
        "vs_heap s b = Some v" "vi_input v = j" by (auto simp: inputs)
      with a show ?thesis by (intro exI[of _ b] exI[of _ v]) (auto simp: heap)
    qed
  qed
qed

lemma vinput_remove_inv:
  assumes inv: "vinput_inv s" and a: "vs_heap s a = Some v"
  shows "vinput_inv (vinput_remove s a v)"
proof -
  let ?s = "vinput_remove s a v"
  have heap: "vs_heap ?s = (vs_heap s)(a := None)" and inputs: "vs_inputs ?s = (vs_inputs s)(vi_input v := None)"
    and vd: "vs_vdevices ?s = remove1 a (vs_vdevices s)" and ty: "vs_types ?s = vs_types s"
    and dv: "vs_devices ?s = vs_devices s"
    by (simp_all add: vinput_remove_def)
  have other: "vi_id w \<noteq> vi_id v \<and> vi_input w \<noteq> vi_input v"
    if "vs_heap s b = Some w" "b \<noteq> a" for b w
    using inv_unique[OF inv that(1) a] that(2) by auto
  show ?thesis
  proof (rule vinput_invI)
    show "distinct (vs_devices ?s)" "distinct (vs_vdevices ?s)"
      using inv by (simp_all add: dv vd vinput_inv_def)
    show "\<exists>t. vs_types ?s e = Some t \<and> vinput_driver (vd_ops t)" if "e \<in> set (vs_devices ?s)" for e
      using that inv_driver[OF inv] by (simp add: dv ty)
    have "distinct (vs_vdevices s)" using inv by (simp add: vinput_inv_def)
    then show "dom (vs_heap ?s) = set (vs_vdevices ?s)"
      using inv_dom[OF inv] by (simp add: vd heap)
    show "vinput_obj_ok ?s w" if "vs_heap ?s b = Some w" for b w
    proof -
      from that have b: "vs_heap s b = Some w" "b \<noteq> a" by (auto simp: heap split: if_splits)
      from other[OF b] inv_obj[OF inv b(1)] inv_obj[OF inv a] show ?thesis
        by (auto simp: vinput_obj_ok_def vinput_remove_def bit_simps nat_eq_iff)
    qed
    show "b = c" if "vs_heap ?s b = Some x" "vs_heap ?s c = Some y"
      "vi_id x = vi_id y \<or> vi_input x = vi_input y" for b c x y
      using that by (intro inv_unique[OF inv, of b x c y]) (auto simp: heap split: if_splits)
    show "\<exists>b w. vs_heap ?s b = Some w \<and> vi_input w = j" if "vs_inputs ?s j \<noteq> None" for j
    proof -
      from that have j: "vs_inputs s j \<noteq> None" "j \<noteq> vi_input v"
        by (auto simp: inputs split: if_splits)
      from inv_input_used[OF inv j(1)] obtain b w where b: "vs_heap s b = Some w" "vi_input w = j"
        by blast
      with j a show ?thesis by (intro exI[of _ b] exI[of _ w]) (auto simp: heap)
    qed
  qed
qed

section \<open>Searching\<close>

definition vinput_find_type :: "vinput_sys \<Rightarrow> char list \<Rightarrow> nat option" where
  "vinput_find_type s buf =
     find (\<lambda>d. case vs_types s d of Some t \<Rightarrow> has_prefix buf (cstr (vd_name t)) | None \<Rightarrow> False)
       (vs_devices s)"

definition vinput_lookup :: "vinput_sys \<Rightarrow> int \<Rightarrow> nat option" where
  "vinput_lookup s ident =
     find (\<lambda>a. map_option vi_id (vs_heap s a) = Some ident) (vs_vdevices s)"

lemma device_by_type_loop_find:
  assumes "\<And>d. d \<in> set ds \<Longrightarrow> \<exists>t. types d = Some t"
  shows "device_by_type_loop types buf ds =
    Some (find (\<lambda>d. case types d of Some t \<Rightarrow> has_prefix buf (cstr (vd_name t)) | None \<Rightarrow> False) ds)"
  using assms
proof (induction ds)
  case Nil
  then show ?case by simp
next
  case (Cons d ds)
  from Cons.prems[of d] obtain t where "types d = Some t" by auto
  with Cons show ?case by simp
qed

lemma vinput_get_device_by_type_eq:
  assumes "vinput_inv s"
  shows "vinput_get_device_by_type s buf =
    Some (case vinput_find_type s buf of Some d \<Rightarrow> Inr d | None \<Rightarrow> Inl (- ENODEV))"
proof -
  have "\<exists>t. vs_types s d = Some t" if "d \<in> set (vs_devices s)" for d
    using inv_driver[OF assms that] by blast
  from device_by_type_loop_find[OF this] show ?thesis
    by (simp add: vinput_get_device_by_type_def vinput_find_type_def)
qed

lemma vinput_find_type_registered:
  "vinput_find_type s buf = Some d \<Longrightarrow> d \<in> set (vs_devices s)"
  by (auto simp: vinput_find_type_def find_Some_iff)

lemma vdevice_by_id_loop_find:
  assumes "\<And>a. a \<in> set as \<Longrightarrow> \<exists>v. heap a = Some v"
  shows "vdevice_by_id_loop heap ident as l =
    Some (case find (\<lambda>a. map_option vi_id (heap a) = Some ident) as of
            Some a \<Rightarrow> Some a | None \<Rightarrow> if as = [] then l else Some (last as))"
  using assms
proof (induction as arbitrary: l)
  case Nil
  then show ?case by simp
next
  case (Cons a as)
  from Cons.prems[of a] obtain v where "heap a = Some v" by auto
  with Cons show ?case by (auto split: option.splits)
qed

lemma vinput_get_vdevice_by_id_eq:
  assumes inv: "vinput_inv s"
  shows "vinput_get_vdevice_by_id s ident =
    Some (case vinput_lookup s ident of Some a \<Rightarrow> Inr a | None \<Rightarrow> Inl (- ENODEV))"
proof -
  let ?P = "\<lambda>a. map_option vi_id (vs_heap s a) = Some ident"
  note loop = vdevice_by_id_loop_find[OF inv_allocated[OF inv], of "vs_vdevices s", simplified]
  show ?thesis
  proof (cases "find ?P (vs_vdevices s)")
    case None
    show ?thesis
    proof (cases "vs_vdevices s = []")
      case True
      then show ?thesis by (simp add: vinput_get_vdevice_by_id_def vinput_lookup_def)
    next
      case False
      then have l: "last (vs_vdevices s) \<in> set (vs_vdevices s)" by simp
      from inv_allocated[OF inv l] obtain v where v: "vs_heap s (last (vs_vdevices s)) = Some v"
        by blast
      from None l have "\<not> ?P (last (vs_vdevices s))" unfolding find_None_iff by blast
      with v have "vi_id v \<noteq> ident" by simp
      with None v False show ?thesis
        by (simp add: vinput_get_vdevice_by_id_def vinput_lookup_def loop)
    qed
  next
    case (Some a)
    then have "?P a" by (auto simp: find_Some_iff)
    then obtain v where "vs_heap s a = Some v" "vi_id v = ident" by auto
    with Some show ?thesis
      by (simp add: vinput_get_vdevice_by_id_def vinput_lookup_def loop)
  qed
qed

lemma vinput_lookup_Some_iff:
  assumes inv: "vinput_inv s"
  shows "vinput_lookup s ident = Some a \<longleftrightarrow> (\<exists>v. vs_heap s a = Some v \<and> vi_id v = ident)"
proof
  assume "vinput_lookup s ident = Some a"
  then have "map_option vi_id (vs_heap s a) = Some ident"
    by (auto simp: vinput_lookup_def find_Some_iff)
  then show "\<exists>v. vs_heap s a = Some v \<and> vi_id v = ident" by auto
next
  assume "\<exists>v. vs_heap s a = Some v \<and> vi_id v = ident"
  then obtain v where v: "vs_heap s a = Some v" "vi_id v = ident" by blast
  show "vinput_lookup s ident = Some a"
  proof (cases "vinput_lookup s ident")
    case None
    with inv_listed[OF inv v(1)] v show ?thesis by (auto simp: vinput_lookup_def find_None_iff)
  next
    case (Some b)
    then have "map_option vi_id (vs_heap s b) = Some ident"
      by (auto simp: vinput_lookup_def find_Some_iff)
    then obtain w where "vs_heap s b = Some w" "vi_id w = ident" by auto
    with inv_unique[OF inv v(1), of b w] v(2) Some show ?thesis by simp
  qed
qed

section \<open>The operations under the invariant\<close>

lemma vdevice_unregister_eq:
  assumes inv: "vinput_inv s" and a: "vs_heap s a = Some v"
  shows "\<exists>s1. vinput_unregister_vdevice s a = Some s1 \<and>
    device_unregister s1 a = Some (vinput_remove s a v)"
proof -
  from inv_obj_driver[OF inv a] obtain t where
    t: "vs_types s (vi_type v) = Some t" "vinput_driver (vd_ops t)" by blast
  from inv_obj[OF inv a] obtain d where
    d: "vs_inputs s (vi_input v) = Some d" "in_registered d" by (auto simp: vinput_obj_ok_def)
  have l: "a \<in> set (vs_vdevices s)" by (rule inv_listed[OF inv a])
  let ?s = "s\<lparr>vs_inputs := (vs_inputs s)(vi_input v := None)\<rparr>"
  show ?thesis
  proof (cases "op_kill (vd_ops t)")
    case None
    then show ?thesis using a t d l
      by (simp add: vinput_unregister_vdevice_def input_unregister_device_def device_unregister_def
          vinput_release_dev_def vinput_destroy_vdevice_def list_del_def kfree_def
          vinput_remove_def)
  next
    case (Some k)
    with vinput_driver.kill_keeps[OF t(2) Some] show ?thesis using a t d l
      by (simp add: vinput_unregister_vdevice_def input_unregister_device_def device_unregister_def
          vinput_release_dev_def vinput_destroy_vdevice_def list_del_def kfree_def
          vinput_remove_def)
  qed
qed

lemma unexport_store_eq:
  assumes inv: "vinput_inv s" and k: "kstrtol (cstr buf) = (err, ident)"
  shows "unexport_store kstrtol s buf len = Some
    (if err \<noteq> 0 then (- EINVAL, s)
     else case vinput_lookup s ident of
            None \<Rightarrow> (- ENODEV, s)
          | Some a \<Rightarrow> (int len, vinput_remove s a (the (vs_heap s a))))"
proof (cases "err = 0 \<and> vinput_lookup s ident \<noteq> None")
  case True
  then obtain a where a: "vinput_lookup s ident = Some a" by auto
  with vinput_lookup_Some_iff[OF inv] obtain v where v: "vs_heap s a = Some v" by blast
  from vdevice_unregister_eq[OF inv v] show ?thesis
    using True a v k by (auto simp: unexport_store_def vinput_get_vdevice_by_id_eq[OF inv])
next
  case False
  with k show ?thesis
    by (auto simp: unexport_store_def vinput_get_vdevice_by_id_eq[OF inv] split: option.splits)
qed

text \<open>The addresses the kernel returns are not in use, and an error number is not positive.\<close>

definition fresh_env :: "export_env \<Rightarrow> vinput_sys \<Rightarrow> bool" where
  "fresh_env e s \<longleftrightarrow>
     (case ret_kzalloc e of Some a \<Rightarrow> vs_heap s a = None | None \<Rightarrow> True) \<and>
     (case ret_input_allocate_device e of Some i \<Rightarrow> vs_inputs s i = None | None \<Rightarrow> True) \<and>
     ret_device_register e \<le> 0"

text \<open>What the type's \<open>init\<close> is given.\<close>

definition vinput_input_setup :: "vinput_device \<Rightarrow> nat \<Rightarrow> input_dev" where
  "vinput_input_setup t a = input_dev_zeroed\<lparr>in_name := cstr (vd_name t), in_phys := ''vinput'',
     in_parent := a, in_bustype := 6, in_product := 0, in_vendor := 0, in_version := 0\<rparr>"

definition vinput_init_type :: "vinput_sys \<Rightarrow> nat \<Rightarrow> nat \<Rightarrow> nat \<Rightarrow> int \<times> input_dev" where
  "vinput_init_type s dev a i =
     (let t = the (vs_types s dev)
      in op_init (vd_ops t) (vinput_new s (find_first_zero_bit (vs_ids s) VINPUT_MINORS) i dev)
           (vinput_input_setup t a))"

text \<open>
  What writing to \<open>export\<close> does: on every failure but one the framework is as before; when no
  input device can be allocated, the id stays taken.
\<close>

definition export_spec :: "export_env \<Rightarrow> vinput_sys \<Rightarrow> char list \<Rightarrow> nat \<Rightarrow> int \<times> vinput_sys" where
  "export_spec e s buf len =
     (let ident = find_first_zero_bit (vs_ids s) VINPUT_MINORS in
      case vinput_find_type s buf of None \<Rightarrow> (- ENODEV, s)
      | Some dev \<Rightarrow>
        (case ret_kzalloc e of None \<Rightarrow> (- ENOMEM, s)
         | Some a \<Rightarrow>
             if VINPUT_MINORS \<le> ident then (- ENOBUFS, s)
             else
               (case ret_input_allocate_device e of
                  None \<Rightarrow> (- ENOMEM, s\<lparr>vs_ids := set_bit ident (vs_ids s)\<rparr>)
                | Some i \<Rightarrow>
                    if ret_device_register e < 0 then (ret_device_register e, s)
                    else (case vinput_init_type s dev a i of
                            (err, d) \<Rightarrow>
                              if err < 0 then (err, s)
                              else (int len, vinput_add s a i dev d)))))"

lemma vinput_alloc_vdevice_ok:
  assumes "ret_kzalloc e = Some a" and "ret_input_allocate_device e = Some i"
    and "find_first_zero_bit (vs_ids s) VINPUT_MINORS = k" and "k < VINPUT_MINORS"
  shows "vinput_alloc_vdevice e s = Some (Inr a,
    s\<lparr>vs_ids := set_bit k (vs_ids s), vs_vdevices := a # vs_vdevices s,
      vs_heap := (vs_heap s)(a \<mapsto> vinput_new s k i 0),
      vs_inputs := (vs_inputs s)(i \<mapsto> input_dev_zeroed)\<rparr>)"
  using assms by (simp add: vinput_alloc_vdevice_def Let_def vinput_new_def vinput_zeroed_def)

lemma fun_upd_None: "f a = None \<Longrightarrow> f(a := None) = f"
  by (rule fun_upd_idem)

lemma vinput_alloc_vdevice_fails:
  assumes fresh: "fresh_env e s" and a: "ret_kzalloc e = Some a"
    and k: "find_first_zero_bit (vs_ids s) VINPUT_MINORS = k"
  shows "VINPUT_MINORS \<le> k \<Longrightarrow> vinput_alloc_vdevice e s = Some (Inl (- ENOBUFS), s)"
    and "k < VINPUT_MINORS \<Longrightarrow> ret_input_allocate_device e = None \<Longrightarrow>
      vinput_alloc_vdevice e s = Some (Inl (- ENOMEM), s\<lparr>vs_ids := set_bit k (vs_ids s)\<rparr>)"
  using assms
  by (simp_all add: vinput_alloc_vdevice_def Let_def fresh_env_def kfree_def list_del_def fun_upd_None)

lemma vinput_destroy_new:
  assumes "vs_heap s a = None" and "v = vinput_new s k i dev" and "\<not> bit (vs_ids s) k"
  shows "vinput_destroy_vdevice (s\<lparr>vs_ids := set_bit k (vs_ids s),
      vs_vdevices := a # vs_vdevices s, vs_inputs := ins, vs_heap := (vs_heap s)(a \<mapsto> v)\<rparr>) a =
    Some (s\<lparr>vs_inputs := ins\<rparr>)"
  using assms
  by (simp add: vinput_destroy_vdevice_def list_del_def kfree_def vinput_new_def vinput_zeroed_def
      unset_bit_set_bit fun_upd_None)

lemma export_store_eq:
  assumes inv: "vinput_inv s" and fresh: "fresh_env e s"
  shows "export_store e s buf len = Some (export_spec e s buf len)"
proof (cases "vinput_find_type s buf")
  case None
  then show ?thesis
    by (simp add: export_store_def export_spec_def vinput_get_device_by_type_eq[OF inv] Let_def)
next
  case dev: (Some dev)
  note get = vinput_get_device_by_type_eq[OF inv, of buf]
  let ?k = "find_first_zero_bit (vs_ids s) VINPUT_MINORS"
  obtain t where t: "vs_types s dev = Some t" "vinput_driver (vd_ops t)"
    using inv_driver[OF inv vinput_find_type_registered[OF dev]] by blast
  show ?thesis
  proof (cases "ret_kzalloc e")
    case None
    with get dev show ?thesis
      by (simp add: export_store_def export_spec_def vinput_alloc_vdevice_def)
  next
    case a: (Some a)
    note fails = vinput_alloc_vdevice_fails[OF fresh a refl]
    show ?thesis
    proof (cases "VINPUT_MINORS \<le> ?k \<or> ret_input_allocate_device e = None")
      case True
      with get dev a fails show ?thesis
        by (cases "VINPUT_MINORS \<le> ?k") (simp_all add: export_store_def export_spec_def)
    next
      case False
      then obtain i where i: "ret_input_allocate_device e = Some i" and k: "?k < VINPUT_MINORS"
        by auto
      then have nk: "\<not> VINPUT_MINORS \<le> ?k" by simp
      from fresh a i have fr: "vs_heap s a = None" "vs_inputs s i = None"
        by (simp_all add: fresh_env_def)
      let ?v = "vinput_new s ?k i dev"
      let ?s = "s\<lparr>vs_ids := set_bit ?k (vs_ids s), vs_vdevices := a # vs_vdevices s,
        vs_inputs := (vs_inputs s)(i \<mapsto> input_dev_zeroed), vs_heap := (vs_heap s)(a \<mapsto> ?v)\<rparr>"
      have v: "(vinput_new s ?k i 0)\<lparr>vi_type := dev\<rparr> = ?v" "vi_input ?v = i" "vi_type ?v = dev"
        "vi_input (vinput_new s ?k i 0) = i"
        by (simp_all add: vinput_new_def)
      note destroy = vinput_destroy_new[where i = i and dev = dev,
          OF fr(1) refl find_first_zero_bit_unset[OF k]]
      note alloc = vinput_alloc_vdevice_ok[OF a i refl k]
      obtain err d where init: "vinput_init_type s dev a i = (err, d)" by force
      then have op: "op_init (vd_ops t) ?v (vinput_input_setup t a) = (err, d)"
        using t by (simp add: vinput_init_type_def)
      have reg: "vinput_register_vdevice ?s a = Some (err, ?s\<lparr>vs_inputs := (vs_inputs s)(i \<mapsto> d)\<rparr>)"
        using t v op by (simp add: vinput_register_vdevice_def vinput_input_setup_def)
      have d: "in_registered d \<longleftrightarrow> err = 0"
        using vinput_driver.init_registers[OF t(2) op]
        by (simp add: vinput_input_setup_def input_dev_zeroed_def)
      have free: "input_free_device ?s i = Some (?s\<lparr>vs_inputs := vs_inputs s\<rparr>)"
        using fr by (simp add: input_free_device_def input_dev_zeroed_def fun_upd_None)
      have body: "export_store e s buf len =
        (if ret_device_register e < 0
         then do { s \<leftarrow> input_free_device ?s i; s \<leftarrow> vinput_destroy_vdevice s a;
                   Some (ret_device_register e, s) }
         else do { (err, s) \<leftarrow> vinput_register_vdevice ?s a;
                   if err < 0
                   then do { s \<leftarrow> input_free_device s i; s \<leftarrow> device_unregister s a; Some (err, s) }
                   else Some (int len, s) })"
        by (simp add: export_store_def get alloc dev v cong: if_cong)
      show ?thesis
      proof (cases "ret_device_register e < 0")
        case True
        with body free destroy[where ins = "vs_inputs s"] show ?thesis
          by (simp add: export_spec_def dev a i nk Let_def)
      next
        case reg0: False
        show ?thesis
        proof (cases "err < 0")
          case True
          with d have "input_free_device (?s\<lparr>vs_inputs := (vs_inputs s)(i \<mapsto> d)\<rparr>) i =
              Some (?s\<lparr>vs_inputs := vs_inputs s\<rparr>)"
            using fr by (simp add: input_free_device_def fun_upd_None)
          with True reg0 body reg destroy[where ins = "vs_inputs s"] show ?thesis
            by (simp add: export_spec_def dev a i nk init device_unregister_def vinput_release_dev_def
                Let_def)
        next
          case False
          with reg0 body reg show ?thesis
            by (simp add: export_spec_def dev a i nk init vinput_add_def Let_def)
        qed
      qed
    qed
  qed
qed

section \<open>Every operation keeps the invariant\<close>

lemma vinput_inv_set_bit:
  assumes "vinput_inv s"
  shows "vinput_inv (s\<lparr>vs_ids := set_bit k (vs_ids s)\<rparr>)"
proof -
  have "vinput_obj_ok (s\<lparr>vs_ids := set_bit k (vs_ids s)\<rparr>) v" if "vinput_obj_ok s v" for v
    using that by (auto simp: vinput_obj_ok_def bit_simps VINPUT_MINORS_def)
  with assms show ?thesis unfolding vinput_inv_def by simp
qed

lemma export_spec_inv:
  assumes inv: "vinput_inv s" and fresh: "fresh_env e s"
  shows "vinput_inv (snd (export_spec e s buf len))"
proof (cases "vinput_find_type s buf")
  case None
  with inv show ?thesis by (simp add: export_spec_def Let_def)
next
  case dev: (Some dev)
  note reg = vinput_find_type_registered[OF dev]
  from inv_driver[OF inv reg] obtain t where
    t: "vs_types s dev = Some t" "vinput_driver (vd_ops t)" by blast
  have add: "vinput_inv (vinput_add s a i dev d)"
    if "ret_kzalloc e = Some a" "ret_input_allocate_device e = Some i"
      "\<not> VINPUT_MINORS \<le> find_first_zero_bit (vs_ids s) VINPUT_MINORS"
      "vinput_init_type s dev a i = (err, d)" "\<not> err < 0" for a i err d
  proof -
    have "op_init (vd_ops t) (vinput_new s (find_first_zero_bit (vs_ids s) VINPUT_MINORS) i dev)
        (vinput_input_setup t a) = (err, d)"
      using that(4) t by (simp add: vinput_init_type_def)
    from vinput_driver.init_registers[OF t(2) this] that(5) have "in_registered d"
      by (simp add: vinput_input_setup_def input_dev_zeroed_def)
    with that fresh show ?thesis
      by (intro vinput_add_inv[OF inv _ _ _ reg]) (auto simp: fresh_env_def)
  qed
  show ?thesis
    using inv vinput_inv_set_bit[OF inv] add
    by (auto simp: export_spec_def Let_def dev split: option.splits prod.splits)
qed

lemma unexport_store_inv:
  assumes inv: "vinput_inv s" and "unexport_store kstrtol s buf len = Some (r, s')"
  shows "vinput_inv s'"
proof -
  obtain err ident where k: "kstrtol (cstr buf) = (err, ident)" by force
  show ?thesis
  proof (cases "err = 0 \<and> vinput_lookup s ident \<noteq> None")
    case True
    then obtain a where a: "vinput_lookup s ident = Some a" by auto
    with vinput_lookup_Some_iff[OF inv] obtain v where v: "vs_heap s a = Some v" by blast
    with vinput_remove_inv[OF inv v] True a assms(2) show ?thesis
      by (simp add: unexport_store_eq[where kstrtol = kstrtol and buf = buf, OF inv k])
  next
    case False
    with assms show ?thesis by (auto simp: unexport_store_eq[where kstrtol = kstrtol and buf = buf, OF inv k]
          split: option.splits if_splits)
  qed
qed

lemma vinput_inv_update:
  assumes inv: "vinput_inv s" and v: "vs_heap s a = Some v"
    and same: "vi_id v' = vi_id v" "vi_type v' = vi_type v" "vi_input v' = vi_input v"
  shows "vinput_inv (s\<lparr>vs_heap := (vs_heap s)(a \<mapsto> v')\<rparr>)"
proof -
  let ?s = "s\<lparr>vs_heap := (vs_heap s)(a \<mapsto> v')\<rparr>"
  have old: "\<exists>x'. vs_heap s b = Some x' \<and> vi_id x' = vi_id x \<and> vi_type x' = vi_type x \<and>
      vi_input x' = vi_input x" if "vs_heap ?s b = Some x" for b x
    using that v same by (auto split: if_splits)
  show ?thesis
  proof (rule vinput_invI)
    show "distinct (vs_devices ?s)" "distinct (vs_vdevices ?s)"
      using inv by (simp_all add: vinput_inv_def)
    show "\<exists>t. vs_types ?s d = Some t \<and> vinput_driver (vd_ops t)" if "d \<in> set (vs_devices ?s)" for d
      using that inv_driver[OF inv] by simp
    show "dom (vs_heap ?s) = set (vs_vdevices ?s)"
      using inv_dom[OF inv] inv_listed[OF inv v] by auto
    show "vinput_obj_ok ?s x" if "vs_heap ?s b = Some x" for b x
    proof -
      from old[OF that] obtain x' where "vs_heap s b = Some x'" "vi_id x' = vi_id x"
        "vi_type x' = vi_type x" "vi_input x' = vi_input x" by blast
      with inv_obj[OF inv this(1)] show ?thesis by (simp add: vinput_obj_ok_def)
    qed
    show "b = c" if "vs_heap ?s b = Some x" "vs_heap ?s c = Some y"
      "vi_id x = vi_id y \<or> vi_input x = vi_input y" for b c x y
      using old[OF that(1)] old[OF that(2)] that(3) inv_unique[OF inv] by metis
    show "\<exists>b x. vs_heap ?s b = Some x \<and> vi_input x = i" if "vs_inputs ?s i \<noteq> None" for i
    proof -
      from that inv_input_used[OF inv, of i] obtain b x where
        b: "vs_heap s b = Some x" "vi_input x = i" by auto
      show ?thesis
      proof (cases "b = a")
        case True
        with b v same show ?thesis by (intro exI[of _ a] exI[of _ v']) simp
      next
        case False
        with b show ?thesis by (intro exI[of _ b] exI[of _ x]) simp
      qed
    qed
  qed
qed

lemma vinput_write_inv:
  assumes nc: "user_access nc" and inv: "vinput_inv s" and f: "vs_heap s f = Some v"
  shows "\<exists>r s' evs. vinput_write nc s f u a n = Some (r, s', evs) \<and> vinput_inv s'"
proof (cases "n \<le> VINPUT_MAX_LEN")
  case False
  with inv f show ?thesis by (simp add: vinput_write_def Let_def)
next
  case len: True
  let ?z = "replicate (VINPUT_MAX_LEN + 1) NUL"
  from inv_obj_driver[OF inv f] obtain t where
    t: "vs_types s (vi_type v) = Some t" "vinput_driver (vd_ops t)" by blast
  have nz: "n \<le> length ?z" using len by simp
  show ?thesis
  proof (cases "mapped u a n")
    case False
    from user_access.copy_from_user_fault[OF nc False nz] inv len show ?thesis
      by (auto simp: vinput_write_def Let_def)
  next
    case True
    let ?b = "put_front (get_bytes u a n) ?z"
    have l: "length ?b = VINPUT_MAX_LEN + 1" using len by simp
    then have "?b \<noteq> []" by auto
    moreover have "last ?b = NUL" using len by (subst put_front_last) auto
    ultimately have b: "length ?b = VINPUT_MAX_LEN + 1" "terminated ?b"
      using l last_NUL_terminated by auto
    from vinput_driver.send_keeps[OF t(2) b, of "int n" v] obtain r v' evs where
      s: "op_send (vd_ops t) v ?b (int n) = Some (r, v', evs)"
      "vi_id v' = vi_id v" "vi_type v' = vi_type v" "vi_input v' = vi_input v" by auto
    from user_access.copy_from_user_ok[OF nc True nz] len f t(1) s(1) vinput_inv_update[OF inv f s(2-4)]
    show ?thesis by (simp add: vinput_write_def Let_def)
  qed
qed

text \<open>A read of an object that is allocated stays in the array \<open>buff\<close>.\<close>

lemma vinput_read_total:
  assumes inv: "vinput_inv s" and f: "vs_heap s f = Some v"
    and st: "length stack = VINPUT_MAX_LEN + 1" and off: "0 \<le> off"
  shows "vinput_read nc stack s f u a n off \<noteq> None"
proof -
  from inv_obj_driver[OF inv f] obtain t where
    t: "vs_types s (vi_type v) = Some t" "vinput_driver (vd_ops t)" by blast
  from vinput_driver.read_stays[OF t(2) st, of "int n" v] obtain len buff where
    r: "op_read (vd_ops t) v stack (int n) = Some (len, buff)" "len \<le> int VINPUT_MAX_LEN"
      "length buff = VINPUT_MAX_LEN + 1" by auto
  define k where "k = (if len < off then 0
    else if int VINPUT_MAX_LEN < int n + off then nat (len - off) else n)"
  have "nat off + k \<le> length buff \<or> k = 0" using r(2,3) off by (auto simp: k_def)
  moreover obtain m u' where "copy_to_user nc u a (take k (drop (nat off) buff)) = (m, u')" by fastforce
  ultimately show ?thesis
    using f t(1) r(1) off by (auto simp: vinput_read_def Let_def simp flip: k_def)
qed

lemma vinput_register_inv:
  assumes inv: "vinput_inv s" and "vs_types s dev = Some t" and "vinput_driver (vd_ops t)"
    and "dev \<notin> set (vs_devices s)"
  shows "vinput_inv (snd (vinput_register s dev))"
proof -
  have "vinput_obj_ok (snd (vinput_register s dev)) v" if "vinput_obj_ok s v" for v
    using that by (simp add: vinput_obj_ok_def vinput_register_def)
  with assms show ?thesis unfolding vinput_inv_def by (simp add: vinput_register_def)
qed

text \<open>The loop of \<open>vinput_unregister\<close> does not look at the list of types.\<close>

lemma vinput_unregister_loop_devices:
  "vinput_unregister_loop dev as (s\<lparr>vs_devices := ds\<rparr>) =
    map_option (\<lambda>s'. s'\<lparr>vs_devices := ds\<rparr>) (vinput_unregister_loop dev as s)"
proof (induction as arbitrary: s)
  case Nil
  then show ?case by simp
next
  case (Cons a as)
  have u: "vinput_unregister_vdevice (s\<lparr>vs_devices := ds\<rparr>) a =
      map_option (\<lambda>s'. s'\<lparr>vs_devices := ds\<rparr>) (vinput_unregister_vdevice s a)" for s
    by (auto simp: vinput_unregister_vdevice_def input_unregister_device_def
        split: option.splits bind_splits)
  have d: "device_unregister (s\<lparr>vs_devices := ds\<rparr>) a =
      map_option (\<lambda>s'. s'\<lparr>vs_devices := ds\<rparr>) (device_unregister s a)" for s
    by (auto simp: device_unregister_def vinput_release_dev_def vinput_destroy_vdevice_def
        split: option.splits bind_splits)
  show ?case
    by (cases "vs_heap s a"; cases "vinput_unregister_vdevice s a")
      (auto simp: u d Cons.IH bind_map_option map_option_bind comp_def)
qed

lemma vinput_unregister_loop_ok:
  assumes "vinput_inv s" and "distinct as" and "set as \<subseteq> set (vs_vdevices s)"
  shows "\<exists>s'. vinput_unregister_loop dev as s = Some s' \<and> vinput_inv s' \<and>
    vs_devices s' = vs_devices s \<and> vs_types s' = vs_types s \<and>
    (\<forall>a. vs_heap s' a =
      (if a \<in> set as \<and> map_option vi_type (vs_heap s a) = Some dev then None else vs_heap s a))"
  using assms
proof (induction as arbitrary: s)
  case Nil
  then show ?case by simp
next
  case (Cons a as)
  from Cons.prems inv_allocated[OF Cons.prems(1), of a] obtain v where v: "vs_heap s a = Some v"
    by auto
  show ?case
  proof (cases "vi_type v = dev")
    case False
    from Cons.prems obtain s' where "vinput_unregister_loop dev as s = Some s'" "vinput_inv s'"
      "vs_devices s' = vs_devices s" "vs_types s' = vs_types s"
      "\<And>b. vs_heap s' b = (if b \<in> set as \<and> map_option vi_type (vs_heap s b) = Some dev
        then None else vs_heap s b)" using Cons.IH[of s] by auto
    with False v show ?thesis by auto
  next
    case True
    let ?s = "vinput_remove s a v"
    from vdevice_unregister_eq[OF Cons.prems(1) v] obtain s1 where
      1: "vinput_unregister_vdevice s a = Some s1" "device_unregister s1 a = Some ?s" by blast
    have inv: "vinput_inv ?s" by (rule vinput_remove_inv[OF Cons.prems(1) v])
    have sub: "set as \<subseteq> set (vs_vdevices ?s)"
      using Cons.prems by (auto simp: vinput_remove_def vinput_inv_def)
    from Cons.IH[OF inv _ sub] Cons.prems(2) obtain s' where
      2: "vinput_unregister_loop dev as ?s = Some s'" "vinput_inv s'"
      "vs_devices s' = vs_devices ?s" "vs_types s' = vs_types ?s"
      "\<And>b. vs_heap s' b = (if b \<in> set as \<and> map_option vi_type (vs_heap ?s b) = Some dev
        then None else vs_heap ?s b)" by auto
    have "vs_devices ?s = vs_devices s" "vs_types ?s = vs_types s"
      "vs_heap ?s = (vs_heap s)(a := None)" by (simp_all add: vinput_remove_def)
    with 1 2 True v show ?thesis by auto
  qed
qed

text \<open>
  Unregistering a type never meets a stale pointer, and no object of that type is left.
\<close>

lemma vinput_unregister_ok:
  assumes inv: "vinput_inv s" and dev: "dev \<in> set (vs_devices s)"
  shows "\<exists>s'. vinput_unregister s dev = Some s' \<and> vinput_inv (s'\<lparr>vs_types := (vs_types s')(dev := None)\<rparr>) \<and>
    (\<forall>a v. vs_heap s' a = Some v \<longrightarrow> vi_type v \<noteq> dev) \<and> vs_types s' = vs_types s"
proof -
  have "distinct (vs_vdevices s)" using inv by (simp add: vinput_inv_def)
  from vinput_unregister_loop_ok[OF inv this subset_refl, of dev] obtain s1 where
    l: "vinput_unregister_loop dev (vs_vdevices s) s = Some s1" "vinput_inv s1"
    and same: "vs_devices s1 = vs_devices s" "vs_types s1 = vs_types s"
    and heap: "\<And>a. vs_heap s1 a = (if a \<in> set (vs_vdevices s) \<and>
      map_option vi_type (vs_heap s a) = Some dev then None else vs_heap s a)" by blast
  let ?s = "s1\<lparr>vs_devices := remove1 dev (vs_devices s)\<rparr>"
  have u: "vinput_unregister s dev = Some ?s"
    using dev l(1) by (simp add: vinput_unregister_def list_del_def vinput_unregister_loop_devices)
  have gone: "vi_type v \<noteq> dev" if "vs_heap s1 a = Some v" for a v
    using that heap[of a] inv_listed[OF inv, of a v] by (auto split: if_splits)
  have d: "distinct (vs_devices s)" using inv by (simp add: vinput_inv_def)
  have "vinput_inv (?s\<lparr>vs_types := (vs_types ?s)(dev := None)\<rparr>)"
  proof (rule vinput_invI)
    fix a v
    assume "vs_heap (?s\<lparr>vs_types := (vs_types ?s)(dev := None)\<rparr>) a = Some v"
    then have v: "vs_heap s1 a = Some v" by simp
    from inv_obj[OF l(2) v] gone[OF v] same(1) d
    show "vinput_obj_ok (?s\<lparr>vs_types := (vs_types ?s)(dev := None)\<rparr>) v"
      by (simp add: vinput_obj_ok_def)
  next
    fix e
    assume "e \<in> set (vs_devices (?s\<lparr>vs_types := (vs_types ?s)(dev := None)\<rparr>))"
    with d have "e \<in> set (vs_devices s)" "e \<noteq> dev" by (auto dest: notin_set_remove1)
    with inv_driver[OF inv this(1)] same
    show "\<exists>t. vs_types (?s\<lparr>vs_types := (vs_types ?s)(dev := None)\<rparr>) e = Some t \<and>
        vinput_driver (vd_ops t)" by simp
  qed (use l(2) d inv_dom[OF l(2)] inv_unique[OF l(2)] inv_input_used[OF l(2)]
      in \<open>simp_all add: vinput_inv_def\<close>)
  with u gone same(2) show ?thesis by (intro exI[of _ ?s]) simp
qed

section \<open>Any sequence of operations\<close>

text \<open>
  What modules, the administrator and processes do to the framework: load a module that
  registers a type, unload it, write to \<open>export\<close> and \<open>unexport\<close>, and open, read, write and close
  files of the devices. An open file points to an object, which \<open>unexport\<close> or an unload may free below it. The
  kernel never hands out an address that is in use; such an action changes nothing, nor does a
  call with the number of a file that is not open.
\<close>

record vinput_world =
  vw_sys :: vinput_sys
  vw_files :: "nat \<rightharpoonup> nat"

datatype vinput_action =
    LoadType nat vinput_device
  | UnloadType nat
  | Export export_env "char list" nat
  | Unexport "char list" nat
  | OpenDev nat int
  | ReadDev nat "char list" umem nat nat int
  | WriteDev nat umem nat nat
  | CloseDev nat

definition with_file :: "vinput_world \<Rightarrow> nat \<Rightarrow> (nat \<Rightarrow> vinput_world option) \<Rightarrow> vinput_world option" where
  "with_file w f k = (case vw_files w f of None \<Rightarrow> Some w | Some a \<Rightarrow> k a)"

definition set_sys :: "vinput_world \<Rightarrow> vinput_sys \<Rightarrow> vinput_world" where
  "set_sys w s = w\<lparr>vw_sys := s\<rparr>"

definition vinput_exec ::
    "not_copied \<Rightarrow> (char list \<Rightarrow> int \<times> int) \<Rightarrow> vinput_world \<Rightarrow> vinput_action \<Rightarrow> vinput_world option" where
  "vinput_exec nc kstrtol w act =
     (let s = vw_sys w in
      case act of
        LoadType d t \<Rightarrow>
          Some (if vs_types s d = None
                then set_sys w (snd (vinput_register (s\<lparr>vs_types := (vs_types s)(d \<mapsto> t)\<rparr>) d)) else w)
      | UnloadType d \<Rightarrow>
          if d \<in> set (vs_devices s)
          then map_option (\<lambda>s. set_sys w (s\<lparr>vs_types := (vs_types s)(d := None)\<rparr>)) (vinput_unregister s d)
          else Some w
      | Export e buf n \<Rightarrow>
          if fresh_env e s then map_option (\<lambda>x. set_sys w (snd x)) (export_store e s buf n) else Some w
      | Unexport buf n \<Rightarrow> map_option (\<lambda>x. set_sys w (snd x)) (unexport_store kstrtol s buf n)
      | OpenDev f minor \<Rightarrow>
          if vw_files w f \<noteq> None then Some w
          else do { (err, p) \<leftarrow> vinput_open s minor;
                    Some (w\<lparr>vw_files := (vw_files w)(f := p)\<rparr>) }
      | ReadDev f stack u a n off \<Rightarrow>
          with_file w f (\<lambda>p. map_option (\<lambda>_. w) (vinput_read nc stack s p u a n off))
      | WriteDev f u a n \<Rightarrow>
          with_file w f (\<lambda>p. map_option (\<lambda>(r, s, evs). set_sys w s) (vinput_write nc s p u a n))
      | CloseDev f \<Rightarrow> Some (w\<lparr>vw_files := (vw_files w)(f := None)\<rparr>))"

fun vinput_run ::
    "not_copied \<Rightarrow> (char list \<Rightarrow> int \<times> int) \<Rightarrow> vinput_world \<Rightarrow> vinput_action list \<Rightarrow> vinput_world option"
  where
  "vinput_run nc kstrtol w [] = Some w"
| "vinput_run nc kstrtol w (act # acts) =
     (case vinput_exec nc kstrtol w act of None \<Rightarrow> None
      | Some w' \<Rightarrow> vinput_run nc kstrtol w' acts)"

text \<open>The framework as it is loaded: empty lists, no ids taken.\<close>

definition vinput_sys_zero :: vinput_sys where
  "vinput_sys_zero = \<lparr>vs_dev = 0, vs_ids = 0, vs_devices = [], vs_vdevices = [],
     vs_types = (\<lambda>_. None), vs_heap = (\<lambda>_. None), vs_inputs = (\<lambda>_. None)\<rparr>"

lemma vinput_sys_zero_inv: "vinput_inv vinput_sys_zero"
  by (simp add: vinput_inv_def vinput_sys_zero_def)

definition vinput_world_zero :: vinput_world where
  "vinput_world_zero = \<lparr>vw_sys = vinput_sys_zero, vw_files = Map.empty\<rparr>"

text \<open>
  The types that are loaded keep the contract; \<open>stack\<close> stands for the array of the reader; the file
  layer refuses negative offsets.
\<close>

definition action_ok :: "vinput_action \<Rightarrow> bool" where
  "action_ok act \<longleftrightarrow>
     (case act of
        LoadType d t \<Rightarrow> vinput_driver (vd_ops t)
      | ReadDev f stack u a n off \<Rightarrow> length stack = VINPUT_MAX_LEN + 1 \<and> 0 \<le> off
      | _ \<Rightarrow> True)"

text \<open>A read or write through a file whose object is freed.\<close>

definition stale_use :: "vinput_world \<Rightarrow> vinput_action \<Rightarrow> bool" where
  "stale_use w act \<longleftrightarrow>
     (case act of
        ReadDev f stack u a n off \<Rightarrow> \<exists>p. vw_files w f = Some p \<and> vs_heap (vw_sys w) p = None
      | WriteDev f u a n \<Rightarrow> \<exists>p. vw_files w f = Some p \<and> vs_heap (vw_sys w) p = None
      | _ \<Rightarrow> False)"

lemma vinput_inv_load:
  assumes inv: "vinput_inv s" and "vs_types s d = None" and "vinput_driver (vd_ops t)"
  shows "vinput_inv (snd (vinput_register (s\<lparr>vs_types := (vs_types s)(d \<mapsto> t)\<rparr>) d))"
proof (rule vinput_register_inv)
  have d: "d \<notin> set (vs_devices s)" using inv_driver[OF inv, of d] assms(2) by auto
  have "vinput_obj_ok (s\<lparr>vs_types := (vs_types s)(d \<mapsto> t)\<rparr>) v" if "vinput_obj_ok s v" for v
    using that by (simp add: vinput_obj_ok_def)
  with inv d show "vinput_inv (s\<lparr>vs_types := (vs_types s)(d \<mapsto> t)\<rparr>)"
    unfolding vinput_inv_def by (auto simp: assms(2))
  from d show "d \<notin> set (vs_devices (s\<lparr>vs_types := (vs_types s)(d \<mapsto> t)\<rparr>))" by simp
qed (use assms(3) in simp_all)

lemma vinput_open_total: "vinput_inv s \<Longrightarrow> vinput_open s minor \<noteq> None"
  by (simp add: vinput_open_def vinput_get_vdevice_by_id_eq split: option.split)

lemma vinput_exec_ok:
  assumes nc: "user_access nc" and inv: "vinput_inv (vw_sys w)" and ok: "action_ok act"
    and fresh: "\<not> stale_use w act"
  shows "\<exists>w'. vinput_exec nc kstrtol w act = Some w' \<and> vinput_inv (vw_sys w')"
proof (cases act)
  case (LoadType d t)
  with vinput_inv_load[OF inv] ok inv show ?thesis
    by (cases "vs_types (vw_sys w) d") (auto simp: vinput_exec_def action_ok_def set_sys_def Let_def)
next
  case (UnloadType d)
  with inv vinput_unregister_ok[OF inv, of d] show ?thesis
    by (cases "d \<in> set (vs_devices (vw_sys w))") (auto simp: vinput_exec_def set_sys_def)
next
  case (Export e buf n)
  with inv export_store_eq[OF inv] export_spec_inv[OF inv] show ?thesis
    by (cases "fresh_env e (vw_sys w)") (auto simp: vinput_exec_def set_sys_def split: prod.split)
next
  case (Unexport buf n)
  obtain err ident where k: "kstrtol (cstr buf) = (err, ident)" by force
  from unexport_store_eq[where kstrtol = kstrtol and buf = buf, OF inv k]
  obtain r where r: "unexport_store kstrtol (vw_sys w) buf n = Some r" by blast
  with unexport_store_inv[OF inv, of kstrtol buf n "fst r" "snd r"] Unexport show ?thesis
    by (simp add: vinput_exec_def set_sys_def split: prod.split)
next
  case (OpenDev f minor)
  from vinput_open_total[OF inv, of minor] obtain err p where
    "vinput_open (vw_sys w) minor = Some (err, p)" by auto
  with OpenDev inv show ?thesis by (simp add: vinput_exec_def)
next
  case (ReadDev f stack u a n off)
  show ?thesis
  proof (cases "vw_files w f")
    case (Some p)
    with fresh ReadDev obtain v where "vs_heap (vw_sys w) p = Some v" by (auto simp: stale_use_def)
    with vinput_read_total[OF inv this, of stack off nc u a n] ok ReadDev Some inv show ?thesis
      by (auto simp: vinput_exec_def with_file_def action_ok_def)
  qed (use ReadDev inv in \<open>simp add: vinput_exec_def with_file_def\<close>)
next
  case (WriteDev f u a n)
  show ?thesis
  proof (cases "vw_files w f")
    case (Some p)
    with fresh WriteDev obtain v where "vs_heap (vw_sys w) p = Some v" by (auto simp: stale_use_def)
    from vinput_write_inv[OF nc inv this, of u a n] WriteDev Some show ?thesis
      by (auto simp: vinput_exec_def with_file_def set_sys_def)
  qed (use WriteDev inv in \<open>simp add: vinput_exec_def with_file_def\<close>)
next
  case (CloseDev f)
  with inv show ?thesis by (simp add: vinput_exec_def)
qed

text \<open>Such a use may get by, when the bytes fault before the object is looked at; it changes nothing then.\<close>

lemma vinput_exec_inv:
  assumes "user_access nc" and "vinput_inv (vw_sys w)" and "action_ok act"
    and ex: "vinput_exec nc kstrtol w act = Some w'"
  shows "vinput_inv (vw_sys w')"
proof (cases "stale_use w act")
  case True
  with ex have "vw_sys w' = vw_sys w"
    by (auto simp: stale_use_def vinput_exec_def with_file_def set_sys_def vinput_read_def
      vinput_write_def Let_def split: vinput_action.splits if_splits Option.bind_splits)
  with assms(2) show ?thesis by simp
next
  case False
  with vinput_exec_ok[OF assms(1-3), of kstrtol] ex show ?thesis by auto
qed

lemma vinput_run_ok:
  assumes nc: "user_access nc" and "vinput_inv (vw_sys w)" and "list_all action_ok acts"
  shows "case vinput_run nc kstrtol w acts of
      Some w' \<Rightarrow> vinput_inv (vw_sys w')
    | None \<Rightarrow> \<exists>pre act post c. acts = pre @ act # post \<and> vinput_run nc kstrtol w pre = Some c \<and>
        stale_use c act"
  using assms(2,3)
proof (induction acts arbitrary: w)
  case Nil
  then show ?case by simp
next
  case (Cons act acts)
  show ?case
  proof (cases "vinput_exec nc kstrtol w act")
    case None
    with vinput_exec_ok[OF nc Cons.prems(1), of act kstrtol] Cons.prems(2) have "stale_use w act" by auto
    with None show ?thesis by (auto intro!: exI[of _ "[]"])
  next
    case (Some w')
    have ok: "action_ok act" "list_all action_ok acts" using Cons.prems(2) by simp_all
    note IH = Cons.IH[OF vinput_exec_inv[OF nc Cons.prems(1) ok(1) Some] ok(2)]
    show ?thesis
    proof (cases "vinput_run nc kstrtol w' acts")
      case None
      with IH obtain pre b post c where "acts = pre @ b # post"
        "vinput_run nc kstrtol w' pre = Some c" "stale_use c b" by auto
      moreover from this(2) Some have "vinput_run nc kstrtol w (act # pre) = Some c" by simp
      ultimately show ?thesis using None Some by (auto intro!: exI[of _ "act # pre"])
    qed (use IH Some in simp)
  qed
qed

section \<open>The table of devices\<close>

text \<open>The abstract state: which type the device with a given id has.\<close>

definition vinput_table :: "vinput_sys \<Rightarrow> int \<rightharpoonup> nat" where
  "vinput_table s ident =
     (case vinput_lookup s ident of None \<Rightarrow> None | Some a \<Rightarrow> map_option vi_type (vs_heap s a))"

lemma vinput_table_Some_iff:
  assumes inv: "vinput_inv s"
  shows "vinput_table s ident = Some dev \<longleftrightarrow>
    (\<exists>a v. vs_heap s a = Some v \<and> vi_id v = ident \<and> vi_type v = dev)"
proof
  assume "vinput_table s ident = Some dev"
  then obtain a v where "vinput_lookup s ident = Some a" "vs_heap s a = Some v" "vi_type v = dev"
    by (auto simp: vinput_table_def split: option.splits)
  with vinput_lookup_Some_iff[OF inv, of ident a]
  show "\<exists>a v. vs_heap s a = Some v \<and> vi_id v = ident \<and> vi_type v = dev" by auto
next
  assume "\<exists>a v. vs_heap s a = Some v \<and> vi_id v = ident \<and> vi_type v = dev"
  then obtain a v where v: "vs_heap s a = Some v" "vi_id v = ident" "vi_type v = dev" by blast
  then have "vinput_lookup s ident = Some a" by (simp add: vinput_lookup_Some_iff[OF inv])
  with v show "vinput_table s ident = Some dev" by (simp add: vinput_table_def)
qed

lemma map_eq_iff_Some: "(\<And>x y. f x = Some y \<longleftrightarrow> g x = Some y) \<Longrightarrow> f = g"
  by (rule ext) (metis not_Some_eq)

lemma vinput_table_add:
  assumes inv: "vinput_inv s" and a: "vs_heap s a = None"
    and inv': "vinput_inv (vinput_add s a i dev d)"
    and k: "find_first_zero_bit (vs_ids s) VINPUT_MINORS = k" and room: "k < VINPUT_MINORS"
  shows "vinput_table (vinput_add s a i dev d) = (vinput_table s)(int k \<mapsto> dev)"
proof (rule map_eq_iff_Some)
  fix x y
  let ?n = "vinput_new s k i dev"
  have heap: "vs_heap (vinput_add s a i dev d) = (vs_heap s)(a \<mapsto> ?n)"
    using k by (simp add: vinput_add_def Let_def)
  have n: "vi_id ?n = int k" "vi_type ?n = dev" by (simp_all add: vinput_new_def)
  have old: "vi_id v \<noteq> int k" if "vs_heap s b = Some v" for b v
    using inv_obj[OF inv that] find_first_zero_bit_unset[of "vs_ids s" VINPUT_MINORS] k room
    by (auto simp: vinput_obj_ok_def)
  have "(\<exists>b v. ((vs_heap s)(a \<mapsto> ?n)) b = Some v \<and> vi_id v = x \<and> vi_type v = y) \<longleftrightarrow>
      x = int k \<and> y = dev \<or> (\<exists>b v. vs_heap s b = Some v \<and> vi_id v = x \<and> vi_type v = y)"
    using a n by (auto split: if_splits) (metis option.distinct(1))
  then show "vinput_table (vinput_add s a i dev d) x = Some y \<longleftrightarrow>
      ((vinput_table s)(int k \<mapsto> dev)) x = Some y"
    using old by (auto simp: vinput_table_Some_iff[OF inv] vinput_table_Some_iff[OF inv'] heap)
qed

lemma vinput_table_remove:
  assumes inv: "vinput_inv s" and v: "vs_heap s a = Some v"
  shows "vinput_table (vinput_remove s a v) = (vinput_table s)(vi_id v := None)"
proof (rule map_eq_iff_Some)
  fix x y
  have heap: "vs_heap (vinput_remove s a v) = (vs_heap s)(a := None)"
    by (simp add: vinput_remove_def)
  have other: "b \<noteq> a \<longleftrightarrow> vi_id w \<noteq> vi_id v" if "vs_heap s b = Some w" for b w
    using inv_unique[OF inv that v] v that by auto
  have "(\<exists>b w. (if b = a then None else vs_heap s b) = Some w \<and> vi_id w = x \<and> vi_type w = y) \<longleftrightarrow>
      (\<exists>b w. vs_heap s b = Some w \<and> b \<noteq> a \<and> vi_id w = x \<and> vi_type w = y)"
    by (metis option.distinct(1))
  also have "\<dots> \<longleftrightarrow>
      x \<noteq> vi_id v \<and> (\<exists>b w. vs_heap s b = Some w \<and> vi_id w = x \<and> vi_type w = y)"
    using other by blast
  finally show "vinput_table (vinput_remove s a v) x = Some y \<longleftrightarrow>
      ((vinput_table s)(vi_id v := None)) x = Some y"
    by (simp add: vinput_table_Some_iff[OF inv] heap fun_upd_def
        vinput_table_Some_iff[OF vinput_remove_inv[OF inv v]])
qed

end
