(* ===== verification/Kstrtol.thy ===== *)
theory Kstrtol
  imports LKM_Prelude
begin

text \<open>
  The kernel's \<open>kstrtol\<close> with base 10, which is not code of the repository: a function from C
  strings to its return value and the number it stores. The locale states what the kernel
  documents of it; a reference function shows that the contract can be kept.
\<close>

section \<open>The contract\<close>

definition in_long :: "int \<Rightarrow> bool" where
  "in_long i \<longleftrightarrow> - (2 ^ 63) \<le> i \<and> i < 2 ^ 63"

definition is_digit :: "char \<Rightarrow> bool" where
  "is_digit c \<longleftrightarrow> (let n = of_char c :: nat in 48 \<le> n \<and> n \<le> 57)"

definition number_char :: "char \<Rightarrow> bool" where
  "number_char c \<longleftrightarrow> is_digit c \<or> c = CHR ''+'' \<or> c = CHR ''-'' \<or> c = NL"

locale kstrtol_fun =
  fixes kstrtol :: "char list \<Rightarrow> int \<times> int"
  assumes kstrtol_number:
      "in_long i \<Longrightarrow> s \<in> {dec i, dec_plus i} \<Longrightarrow> t \<in> {[], [NL]} \<Longrightarrow> kstrtol (s @ t) = (0, i)"
    and kstrtol_ret: "fst (kstrtol s) \<le> 0"
    and kstrtol_range: "kstrtol s = (0, i) \<Longrightarrow> in_long i"
    and kstrtol_syntax:
      "kstrtol s = (0, i) \<Longrightarrow>
        s \<noteq> [] \<and> list_all number_char s"

section \<open>A function that keeps it\<close>

definition undigits :: "char list \<Rightarrow> nat" where
  "undigits ds = foldl (\<lambda>n c. 10 * n + (of_char c - 48)) 0 ds"

definition split_sign :: "char list \<Rightarrow> bool \<times> char list" where
  "split_sign s = (case s of
     [] \<Rightarrow> (False, [])
   | c # cs \<Rightarrow> if c = CHR ''-'' then (True, cs) else if c = CHR ''+'' then (False, cs) else (False, s))"

definition kstrtol_ref :: "char list \<Rightarrow> int \<times> int" where
  "kstrtol_ref s =
     (let (neg, ds) = split_sign (if s \<noteq> [] \<and> last s = NL then butlast s else s);
          v = (if neg then - int (undigits ds) else int (undigits ds))
      in if ds = [] \<or> \<not> list_all is_digit ds then (- EINVAL, 0)
         else if in_long v then (0, v) else (- 34, 0))"

lemma is_digit_digit: "d < 10 \<Longrightarrow> is_digit (digit d)"
  by (simp add: is_digit_def digit_code)

lemma not_is_digit [simp]: "\<not> is_digit CHR ''-''" "\<not> is_digit CHR ''+''" "\<not> is_digit NL"
  by (simp_all add: is_digit_def)

lemma list_all_digits: "list_all is_digit (digits n)"
proof (induction n rule: digits.induct)
  case (1 n)
  then show ?case by (subst digits.simps) (simp add: is_digit_digit)
qed

lemma undigits_digits: "undigits (digits n) = n"
proof (induction n rule: digits.induct)
  case (1 n)
  show ?case
  proof (cases "n < 10")
    case True
    then show ?thesis by (subst digits.simps) (simp add: undigits_def digit_code)
  next
    case False
    have d: "(of_char (digit (n mod 10)) :: nat) = 48 + n mod 10" by (rule digit_code) simp
    from False 1 show ?thesis by (subst digits.simps) (simp add: undigits_def d)
  qed
qed

lemma split_sign_digits: "split_sign (digits n) = (False, digits n)"
proof (cases "digits n")
  case (Cons c cs)
  with list_all_digits[of n] have "is_digit c" by simp
  with Cons show ?thesis by (auto simp: split_sign_def)
qed simp

lemma last_digits: "last (c # digits n) \<noteq> NL" "last (digits n) \<noteq> NL"
proof -
  have "is_digit (last (digits n))"
    using list_all_digits[of n] last_in_set[OF digits_nonempty[of n]] by (auto simp: list_all_iff)
  then show "last (c # digits n) \<noteq> NL" "last (digits n) \<noteq> NL" by auto
qed

lemma kstrtol_ref_cut:
  "last s \<noteq> NL \<Longrightarrow> t \<in> {[], [NL]} \<Longrightarrow>
    (if s @ t \<noteq> [] \<and> last (s @ t) = NL then butlast (s @ t) else s @ t) = s"
  by auto

lemma kstrtol_ref_number:
  assumes "in_long i" and s: "s \<in> {dec i, dec_plus i}" and t: "t \<in> {[], [NL]}"
  shows "kstrtol_ref (s @ t) = (0, i)"
proof -
  let ?ds = "digits (nat \<bar>i\<bar>)"
  have l: "last s \<noteq> NL"
    using s by (auto simp: last_digits dec_def dec_plus_def split: if_splits)
  have "split_sign s = (i < 0, ?ds)"
  proof (cases "i < 0")
    case True
    with s show ?thesis by (auto simp: dec_def dec_plus_def split_sign_def)
  next
    case False
    with s have "s = ?ds \<or> s = CHR ''+'' # ?ds" by (auto simp: dec_def dec_plus_def)
    with False split_sign_digits[of "nat \<bar>i\<bar>"] show ?thesis by (auto simp: split_sign_def)
  qed
  then show ?thesis using assms(1) list_all_digits[of "nat \<bar>i\<bar>"]
    unfolding kstrtol_ref_def kstrtol_ref_cut[OF l t] by (simp add: undigits_digits)
qed

lemma set_butlast_insert: "s \<noteq> [] \<Longrightarrow> set s = insert (last s) (set (butlast s))"
  by (metis append_butlast_last_id list.set(2) list.simps(15) rotate1.simps(2) set_rotate1)

lemma split_sign_set:
  "split_sign s = (neg, ds) \<Longrightarrow> set s \<subseteq> insert CHR ''-'' (insert CHR ''+'' (set ds))"
  by (cases s) (auto simp: split_sign_def split: if_splits)

lemma split_sign_nonempty: "split_sign s = (neg, ds) \<Longrightarrow> ds \<noteq> [] \<Longrightarrow> s \<noteq> []"
  by (auto simp: split_sign_def)

interpretation kstrtol_ref: kstrtol_fun kstrtol_ref
proof
  fix i :: int and s t :: "char list"
  show "in_long i \<Longrightarrow> s \<in> {dec i, dec_plus i} \<Longrightarrow> t \<in> {[], [NL]} \<Longrightarrow> kstrtol_ref (s @ t) = (0, i)"
    by (rule kstrtol_ref_number)
next
  fix s
  show "fst (kstrtol_ref s) \<le> 0" by (auto simp: kstrtol_ref_def Let_def split: prod.splits)
next
  fix s i
  assume "kstrtol_ref s = (0, i)"
  then show "in_long i"
    by (auto simp: kstrtol_ref_def Let_def split: prod.splits if_splits)
next
  fix s i
  assume a: "kstrtol_ref s = (0, i)"
  let ?s = "if s \<noteq> [] \<and> last s = NL then butlast s else s"
  obtain neg ds where sp: "split_sign ?s = (neg, ds)" by force
  with a have d: "ds \<noteq> []" "list_all is_digit ds"
    by (auto simp: kstrtol_ref_def Let_def split: if_splits)
  have "list_all number_char ?s"
    using split_sign_set[OF sp] d(2) by (auto simp: list_all_iff number_char_def)
  moreover have "s \<noteq> []" using split_sign_nonempty[OF sp d(1)] by auto
  moreover have "set s \<subseteq> set ?s \<union> {NL}" using set_butlast_insert[of s] by auto
  ultimately show "s \<noteq> [] \<and> list_all number_char s"
    by (auto simp: list_all_iff number_char_def)
qed

end
