(* ===== verification/Vkbd.thy ===== *)
theory Vkbd
  imports Vinput_Inv Kstrtol
begin

text \<open>
  \<open>vkbd.c\<close>: the virtual keyboard, a device type of the framework of \<open>vinput.c\<close>. A process writes
  \<open>+34\<close> to a device to press key 34 and \<open>-34\<close> to release it, and reads the last entry.
  The theory also holds the properties of the framework together with this type.
\<close>

section \<open>The device type\<close>

text \<open>The key and event codes are those of the kernel's \<open>input-event-codes.h\<close>.\<close>

definition KEY_MAX :: nat where
  "KEY_MAX = 0x2ff"

definition VINPUT_RELEASE :: int where
  "VINPUT_RELEASE = 0"

definition VINPUT_PRESS :: int where
  "VINPUT_PRESS = 1"

text \<open>
  \<open>input_register_device\<close> returns 0 or a negated error number: the argument \<open>err\<close> is that number.
\<close>

definition vinput_vkbd_init ::
    "16 word list \<Rightarrow> nat \<Rightarrow> vinput \<Rightarrow> input_dev \<Rightarrow> int \<times> input_dev" where
  "vinput_vkbd_init vkeymap err vinput input =
     (- int err,
      input\<lparr>in_evbit := push_bit 1 1 OR push_bit 0x14 1, in_keycodesize := 2,
        in_keycodemax := KEY_MAX, in_keycode := vkeymap,
        in_keybit := fold (\<lambda>i bits. bits(unat (vkeymap ! i) := True)) [0..<KEY_MAX] (in_keybit input),
        in_registered := (err = 0)\<rparr>)"

definition vinput_vkbd_read :: "vinput \<Rightarrow> char list \<Rightarrow> int \<Rightarrow> (int \<times> char list) option" where
  "vinput_vkbd_read vinput buff len =
     snprintf buff (nat len) (dec_plus (sint (vi_last_entry vinput)) @ [NL])"

text \<open>
  \<open>key\<close> stays 0 when \<open>kstrtol\<close> fails: the error is only logged. \<open>input_report_key\<close> takes an
  \<open>unsigned int\<close>.
\<close>

definition vinput_vkbd_send ::
    "(char list \<Rightarrow> int \<times> int) \<Rightarrow> vinput \<Rightarrow> char list \<Rightarrow> int \<Rightarrow>
      (int \<times> vinput \<times> input_event list) option" where
  "vinput_vkbd_send kstrtol vinput buff len =
     do { c \<leftarrow> char_at buff 0;
          let str = (if c = CHR ''+'' then drop 1 buff else buff);
          if terminated str
          then (let (ret, n) = kstrtol (cstr str);
                    key = (if ret = 0 then word_of_int n else 0 :: 64 word);
                    vinput = vinput\<lparr>vi_last_entry := key\<rparr>;
                    (type, key) = (if sint key < 0 then (VINPUT_RELEASE, - key)
                                   else (VINPUT_PRESS, key))
                in Some (len, vinput, [Key (vi_input vinput) (ucast key) type, Sync (vi_input vinput)]))
          else None }"

definition vkbd_ops :: "(char list \<Rightarrow> int \<times> int) \<Rightarrow> 16 word list \<Rightarrow> nat \<Rightarrow> vinput_ops" where
  "vkbd_ops kstrtol vkeymap err = \<lparr>op_init = vinput_vkbd_init vkeymap err, op_kill = None,
     op_send = vinput_vkbd_send kstrtol, op_read = vinput_vkbd_read\<rparr>"

definition vkbd_dev :: "(char list \<Rightarrow> int \<times> int) \<Rightarrow> 16 word list \<Rightarrow> nat \<Rightarrow> vinput_device" where
  "vkbd_dev kstrtol vkeymap err =
     \<lparr>vd_name = ''vkbd'' @ replicate 12 NUL, vd_ops = vkbd_ops kstrtol vkeymap err\<rparr>"

text \<open>
  Load and unload. The array \<open>vkeymap\<close> is filled before the type, which is at the address \<open>dev\<close>,
  is registered.
\<close>

definition vkbd_keymap :: "16 word list" where
  "vkbd_keymap = fold (\<lambda>i vkeymap. vkeymap[i := of_nat i]) [0..<KEY_MAX] (replicate KEY_MAX 0)"

definition vkbd_init ::
    "(char list \<Rightarrow> int \<times> int) \<Rightarrow> nat \<Rightarrow> vinput_sys \<Rightarrow> nat \<Rightarrow> int \<times> vinput_sys" where
  "vkbd_init kstrtol err s dev =
     vinput_register (s\<lparr>vs_types := (vs_types s)(dev \<mapsto> vkbd_dev kstrtol vkbd_keymap err)\<rparr>) dev"

definition vkbd_end :: "vinput_sys \<Rightarrow> nat \<Rightarrow> vinput_sys option" where
  "vkbd_end s dev = vinput_unregister s dev"

section \<open>It keeps the contract\<close>

lemma length_dec_plus: "0 < k \<Longrightarrow> \<bar>i\<bar> < 10 ^ k \<Longrightarrow> length (dec_plus i) \<le> Suc k"
proof -
  assume k: "0 < k" and i: "\<bar>i\<bar> < 10 ^ k"
  have "nat \<bar>i\<bar> < 10 ^ k" using i by (metis nat_less_iff abs_ge_zero of_nat_numeral of_nat_power)
  then have "length (digits (nat \<bar>i\<bar>)) \<le> k" by (rule length_digits[OF k])
  then show ?thesis by (cases "i < 0") (simp_all add: dec_plus_def)
qed

lemma length_dec_plus_int64: "length (dec_plus (sint (w :: 64 word))) \<le> 20"
proof -
  have "- (2 ^ 63) \<le> sint w \<and> sint w < 2 ^ 63"
    using sint_range_size[of w] by (simp add: word_size)
  then have "\<bar>sint w\<bar> \<le> 9223372036854775808" by auto
  then have "\<bar>sint w\<bar> < 10 ^ 19" by simp
  from length_dec_plus[OF _ this] show ?thesis by simp
qed

definition vkbd_text :: "64 word \<Rightarrow> char list" where
  "vkbd_text w = dec_plus (sint w) @ [NL]"

lemma length_vkbd_text: "length (vkbd_text w) \<le> 21"
  using length_dec_plus_int64[of w] by (simp add: vkbd_text_def)

lemma vinput_vkbd_read_ok:
  assumes "length buff = VINPUT_MAX_LEN + 1" and "0 \<le> n"
  shows "\<exists>buff'. vinput_vkbd_read v buff n = Some (int (length (vkbd_text (vi_last_entry v))), buff') \<and>
    length buff' = VINPUT_MAX_LEN + 1"
proof -
  let ?t = "vkbd_text (vi_last_entry v)"
  have "length (take (nat n - 1) ?t @ [NUL]) \<le> length buff"
    using length_vkbd_text[of "vi_last_entry v"] assms(1)
    by (simp add: VINPUT_MAX_LEN_def min_le_iff_disj)
  then show ?thesis using assms length_put_front
    by (auto simp: vinput_vkbd_read_def snprintf_def Let_def vkbd_text_def[symmetric])
qed

lemma terminated_tl:
  "terminated buff \<Longrightarrow> buff \<noteq> [] \<Longrightarrow> buff ! 0 \<noteq> NUL \<Longrightarrow> terminated (drop 1 buff)"
  by (cases buff) (auto simp: terminated_def)

lemma vinput_vkbd_send_ok:
  assumes "terminated buff"
  shows "\<exists>v' evs. vinput_vkbd_send kstrtol v buff n = Some (n, v', evs) \<and>
    vi_id v' = vi_id v \<and> vi_type v' = vi_type v \<and> vi_input v' = vi_input v"
proof -
  have b: "buff \<noteq> []" using assms by (auto simp: terminated_def)
  let ?str = "if buff ! 0 = CHR ''+'' then drop 1 buff else buff"
  have "terminated ?str" using assms terminated_tl[OF assms b] by auto
  with b show ?thesis
    by (auto simp: vinput_vkbd_send_def char_at_def Let_def split: prod.splits)
qed

interpretation vkbd: vinput_driver "vkbd_ops kstrtol vkeymap err" for kstrtol vkeymap err
proof
  fix v d r d'
  assume "op_init (vkbd_ops kstrtol vkeymap err) v d = (r, d')"
  then show "r \<le> 0 \<and> (in_registered d' \<longleftrightarrow> r = 0)"
    by (auto simp: vkbd_ops_def vinput_vkbd_init_def)
next
  fix buff :: "char list" and n and v :: vinput
  assume "length buff = VINPUT_MAX_LEN + 1" "terminated buff" "(0::int) \<le> n"
  with vinput_vkbd_send_ok[of buff kstrtol v n]
  show "\<exists>r v' evs. op_send (vkbd_ops kstrtol vkeymap err) v buff n = Some (r, v', evs) \<and>
      vi_id v' = vi_id v \<and> vi_type v' = vi_type v \<and> vi_input v' = vi_input v"
    by (auto simp: vkbd_ops_def)
next
  fix buff :: "char list" and n and v :: vinput
  assume "length buff = VINPUT_MAX_LEN + 1" "(0::int) \<le> n"
  moreover have "length (vkbd_text (vi_last_entry v)) \<le> VINPUT_MAX_LEN"
    using length_vkbd_text[of "vi_last_entry v"] by (simp add: VINPUT_MAX_LEN_def)
  ultimately show "\<exists>r buff'. op_read (vkbd_ops kstrtol vkeymap err) v buff n = Some (r, buff') \<and>
      r \<le> int VINPUT_MAX_LEN \<and> length buff' = VINPUT_MAX_LEN + 1"
    using vinput_vkbd_read_ok[of buff n v] by (auto simp: vkbd_ops_def)
qed (simp add: vkbd_ops_def)

section \<open>Sending and reading through the framework\<close>

lemma sint_word_of_int_long: "in_long i \<Longrightarrow> sint (word_of_int i :: 64 word) = i"
  using signed_take_bit_int_eq_self[of 63 i] by (simp add: in_long_def signed_of_int)

lemma ucast_64_32: "(ucast (word_of_int i :: 64 word) :: 32 word) = word_of_int i"
  by (rule bit_word_eqI) (simp add: bit_simps)

lemma NUL_notin_vkbd_text [simp]: "NUL \<notin> set (vkbd_text w)"
  by (simp add: vkbd_text_def)

text \<open>What \<open>send\<close> does with the text of a number and a newline.\<close>

lemma vinput_vkbd_send_number:
  assumes k: "kstrtol_fun kstrtol" and i: "in_long i"
  shows "vinput_vkbd_send kstrtol v (dec_plus i @ NL # NUL # r) n =
    Some (n, v\<lparr>vi_last_entry := word_of_int i\<rparr>,
      [Key (vi_input v) (word_of_int \<bar>i\<bar>) (if i < 0 then VINPUT_RELEASE else VINPUT_PRESS),
       Sync (vi_input v)])"
proof (cases "i < 0")
  case True
  then have d: "dec_plus i = CHR ''-'' # digits (nat (- i))" by (simp add: dec_plus_def)
  have "cstr ((dec_plus i @ [NL]) @ NUL # r) = dec_plus i @ [NL]" by (rule cstr_append_NUL) simp
  moreover have "terminated (dec_plus i @ NL # NUL # r)" by (simp add: terminated_def)
  moreover have "(ucast (- (word_of_int i :: 64 word)) :: 32 word) = word_of_int \<bar>i\<bar>"
    using ucast_64_32[of "- i"] True by simp
  ultimately show ?thesis
    using kstrtol_fun.kstrtol_number[OF k i, of "dec_plus i" "[NL]"] True sint_word_of_int_long[OF i]
    by (simp add: vinput_vkbd_send_def char_at_def Let_def d)
next
  case False
  then have d: "dec_plus i = CHR ''+'' # dec i" by (simp add: dec_plus_def dec_def)
  have "cstr ((dec i @ [NL]) @ NUL # r) = dec i @ [NL]" by (rule cstr_append_NUL) simp
  moreover have "terminated (dec i @ NL # NUL # r)" by (simp add: terminated_def)
  ultimately show ?thesis
    using kstrtol_fun.kstrtol_number[OF k i, of "dec i" "[NL]"] False sint_word_of_int_long[OF i]
    by (simp add: vinput_vkbd_send_def char_at_def Let_def d ucast_64_32)
qed

lemma put_front_zeroed:
  "length xs < n \<Longrightarrow> put_front xs (replicate n NUL) = xs @ NUL # replicate (n - Suc (length xs)) NUL"
  by (simp add: put_front_def) (metis Suc_diff_Suc replicate_Suc)

text \<open>A read with the offset 0: all of the text when the count is above 128, else \<open>count\<close> bytes.\<close>

lemma vkbd_read_buff:
  assumes st: "length stack = VINPUT_MAX_LEN + 1" and f: "vs_heap s f = Some v"
    and t: "vs_types s (vi_type v) = Some (vkbd_dev kstrtol vkeymap err)"
    and b: "length (vkbd_text (vi_last_entry v)) < n"
  shows "do { v \<leftarrow> vs_heap s f; t \<leftarrow> vs_types s (vi_type v); op_read (vd_ops t) v stack (int n) } =
    Some (int (length (vkbd_text (vi_last_entry v))),
      put_front (vkbd_text (vi_last_entry v) @ [NUL]) stack)"
proof -
  have "length (vkbd_text (vi_last_entry v)) < length stack"
    using length_vkbd_text[of "vi_last_entry v"] st by (simp add: VINPUT_MAX_LEN_def)
  from snprintf_fits[OF b this] f t show ?thesis
    by (simp add: vkbd_dev_def vkbd_ops_def vinput_vkbd_read_def vkbd_text_def)
qed

lemma vkbd_read_all:
  assumes nc: "user_access nc" and st: "length stack = VINPUT_MAX_LEN + 1"
    and f: "vs_heap s f = Some v"
    and t: "vs_types s (vi_type v) = Some (vkbd_dev kstrtol vkeymap err)"
    and m: "mapped u b n" and n: "VINPUT_MAX_LEN < n"
  shows "vinput_read nc stack s f u b n 0 =
    (let text = vkbd_text (vi_last_entry v)
     in Some (int (length text), int (length text), put_bytes u b text))"
    and "vinput_read nc stack s f u b n (int (length (vkbd_text (vi_last_entry v)))) =
      Some (0, int (length (vkbd_text (vi_last_entry v))), u)"
proof -
  let ?t = "vkbd_text (vi_last_entry v)"
  have l: "length ?t \<le> 21" by (rule length_vkbd_text)
  then have ln: "length ?t < n" using n by (simp add: VINPUT_MAX_LEN_def)
  note r = vkbd_read_buff[OF st f t ln]
  have tk: "take (length ?t) (put_front (?t @ [NUL]) stack) = ?t" by (simp add: put_front_def)
  have "mapped u b (length ?t)" using ln by (intro mapped_mono[OF m]) simp
  from user_access.copy_to_user_ok[OF nc this] r tk n l
  show "vinput_read nc stack s f u b n 0 =
      (let text = ?t in Some (int (length text), int (length text), put_bytes u b text))"
    by (simp add: vinput_read_def f t put_front_def VINPUT_MAX_LEN_def Let_def)
  from user_access.copy_to_user_ok[OF nc, of u b "[]"] r n
  show "vinput_read nc stack s f u b n (int (length ?t)) = Some (0, int (length ?t), u)"
    by (simp add: vinput_read_def f t VINPUT_MAX_LEN_def)
qed

section \<open>A keyboard in the framework\<close>

text \<open>The framework with the keyboard's module loaded, and with one device of it.\<close>

definition vkbd_loaded :: vinput_sys where
  "vkbd_loaded = snd (vkbd_init kstrtol_ref 0 vinput_sys_zero 10)"

definition vkbd_env :: export_env where
  "vkbd_env = \<lparr>ret_kzalloc = Some 100, ret_input_allocate_device = Some 200,
     ret_device_register = 0\<rparr>"

definition vkbd_one :: vinput_sys where
  "vkbd_one = vinput_add vkbd_loaded 100 200 10 (input_dev_zeroed\<lparr>in_registered := True\<rparr>)"

lemma vkbd_driver: "vinput_driver (vd_ops (vkbd_dev kstrtol vkeymap err))"
  using vkbd.vinput_driver_axioms by (simp add: vkbd_dev_def)

lemma vkbd_loaded_eq: "vkbd_loaded =
    vinput_sys_zero\<lparr>vs_types := [10 \<mapsto> vkbd_dev kstrtol_ref vkbd_keymap 0], vs_devices := [10]\<rparr>"
  by (simp add: vkbd_loaded_def vkbd_init_def vinput_register_def vinput_sys_zero_def)

lemma vkbd_loaded_inv: "vinput_inv vkbd_loaded"
  using vinput_inv_load[OF vinput_sys_zero_inv _ vkbd_driver, of 10 kstrtol_ref vkbd_keymap 0]
  by (simp add: vkbd_loaded_def vkbd_init_def vinput_sys_zero_def)

lemma ffz_0: "find_first_zero_bit (0 :: 64 word) VINPUT_MINORS = 0"
  by (simp add: find_first_zero_bit_def VINPUT_MINORS_def upt_rec)

lemma vkbd_one_inv: "vinput_inv vkbd_one"
  unfolding vkbd_one_def
  by (rule vinput_add_inv[OF vkbd_loaded_inv])
    (simp_all add: vkbd_loaded_eq vinput_sys_zero_def ffz_0, simp add: VINPUT_MINORS_def)

definition vkbd_obj :: vinput where
  "vkbd_obj = \<lparr>vi_id = 0, vi_last_entry = 0, vi_devt = (0, 0), vi_input = 200, vi_type = 10\<rparr>"

lemma vkbd_one_obj:
  "vs_heap vkbd_one 100 = Some vkbd_obj"
  "vs_types vkbd_one (vi_type vkbd_obj) = Some (vkbd_dev kstrtol_ref vkbd_keymap 0)"
  by (simp_all add: vkbd_one_def vkbd_loaded_eq vinput_add_def vinput_new_def vinput_zeroed_def
      vinput_sys_zero_def ffz_0 vkbd_obj_def)

lemma vkbd_found: "vinput_find_type vkbd_loaded (''vkbd'' @ [NUL]) = Some 10"
  by (simp add: vinput_find_type_def vkbd_loaded_eq vinput_sys_zero_def vkbd_dev_def has_prefix_def
      cstr_def)

lemma vkbd_found_one: "vinput_find_type vkbd_one (''vkbd'' @ [NUL]) = Some 10"
  by (simp add: vinput_find_type_def vkbd_one_def vinput_add_def vkbd_loaded_eq vinput_sys_zero_def
      vkbd_dev_def has_prefix_def cstr_def Let_def)

section \<open>Properties\<close>

text \<open>
  C1 (safety): from the framework as it is loaded, for every sequence of loads and unloads of
  modules with device types that keep their contract, writes to \<open>export\<close> and \<open>unexport\<close>, and opens, reads, writes and closes of
  device files, with every combination of failures of the kernel: the only operation that can
  follow a stale pointer, free an object twice or leave an array is a read or write through a file
  whose object was freed below it. If none comes, or as long as they get by, the invariant holds,
  and when no type is registered any more no object and no input device is left.
\<close>

theorem vinput_run_safe:
  assumes "user_access nc" and "list_all action_ok acts"
  shows "case vinput_run nc kstrtol vinput_world_zero acts of
      Some w \<Rightarrow> vinput_inv (vw_sys w) \<and>
        (vs_devices (vw_sys w) = [] \<longrightarrow> vs_vdevices (vw_sys w) = [] \<and>
          (\<forall>a. vs_heap (vw_sys w) a = None) \<and> (\<forall>i. vs_inputs (vw_sys w) i = None))
    | None \<Rightarrow> \<exists>pre act post w. acts = pre @ act # post \<and>
        vinput_run nc kstrtol vinput_world_zero pre = Some w \<and> stale_use w act"
proof (cases "vinput_run nc kstrtol vinput_world_zero acts")
  case None
  with vinput_run_ok[OF assms(1) _ assms(2), of vinput_world_zero kstrtol] show ?thesis
    by (simp add: vinput_world_zero_def vinput_sys_zero_inv)
next
  case (Some w)
  with vinput_run_ok[OF assms(1) _ assms(2), of vinput_world_zero kstrtol]
  have inv: "vinput_inv (vw_sys w)" by (simp add: vinput_world_zero_def vinput_sys_zero_inv)
  let ?s = "vw_sys w"
  have heap: "vs_heap ?s a = None" if "vs_devices ?s = []" for a
    using inv_obj[OF inv, of a] that by (cases "vs_heap ?s a") (auto simp: vinput_obj_ok_def)
  have inputs: "vs_inputs ?s i = None" if "vs_devices ?s = []" for i
    using inv_input_used[OF inv, of i] heap[OF that] by (cases "vs_inputs ?s i") auto
  have "vs_vdevices ?s = []" if "vs_devices ?s = []"
    using inv_allocated[OF inv, of "hd (vs_vdevices ?s)"] heap[OF that]
    by (cases "vs_vdevices ?s") auto
  with Some inv heap inputs show ?thesis by simp
qed

theorem vinput_run_safe_witness:
  "\<exists>w. vinput_run bytewise kstrtol_ref vinput_world_zero
      [LoadType 10 (vkbd_dev kstrtol_ref vkbd_keymap 0), Export vkbd_env ''vkbd'' 4, OpenDev 3 0, CloseDev 3,
       Export (vkbd_env\<lparr>ret_input_allocate_device := None\<rparr>) ''vkbd'' 4, UnloadType 10] = Some w"
proof -
  let ?acts = "[LoadType 10 (vkbd_dev kstrtol_ref vkbd_keymap 0), Export vkbd_env ''vkbd'' 4, OpenDev 3 0,
    CloseDev 3, Export (vkbd_env\<lparr>ret_input_allocate_device := None\<rparr>) ''vkbd'' 4, UnloadType 10]"
  have "list_all action_ok ?acts" by (simp add: action_ok_def vkbd_driver)
  note safe = vinput_run_safe[OF bytewise.user_access_axioms this, of kstrtol_ref]
  have "\<not> stale_use w act" if "?acts = pre @ act # post" for w pre act post
  proof -
    from that have "act \<in> set ?acts" by simp
    then show ?thesis by (auto simp: stale_use_def)
  qed
  with safe show ?thesis by (fastforce split: option.splits)
qed

text \<open>
  C5 (refinement): \<open>export\<close> refines the insertion into a table from ids to types: when it returns
  an error, the table is as before; when it returns the length, one id below 32 that was free has
  the first registered type whose name the text starts with, and nothing else changes.
\<close>

theorem export_refines_table:
  assumes inv: "vinput_inv s" and fresh: "fresh_env e s"
    and ex: "export_store e s buf len = Some (r, s')"
  shows "(r < 0 \<and> vinput_table s' = vinput_table s) \<or>
    (r = int len \<and> (\<exists>k dev. k < 32 \<and> vinput_find_type s buf = Some dev \<and>
      vinput_table s (int k) = None \<and> vinput_table s' = (vinput_table s)(int k \<mapsto> dev)))"
proof -
  let ?k = "find_first_zero_bit (vs_ids s) VINPUT_MINORS"
  from ex export_store_eq[OF inv fresh] have sp: "export_spec e s buf len = (r, s')" by simp
  have same: "vinput_table (s\<lparr>vs_ids := w\<rparr>) = vinput_table s" for w
    by (rule ext) (simp add: vinput_table_def vinput_lookup_def split: option.split)
  consider "r < 0" "vinput_table s' = vinput_table s"
    | dev a i d where "r = int len" "vinput_find_type s buf = Some dev" "ret_kzalloc e = Some a"
      "?k < VINPUT_MINORS" "s' = vinput_add s a i dev d"
    using sp same by (auto simp: export_spec_def Let_def split: option.splits if_splits prod.splits)
  then show ?thesis
  proof cases
    case (2 dev a i d)
    with fresh have a: "vs_heap s a = None" by (simp add: fresh_env_def)
    have inv': "vinput_inv (vinput_add s a i dev d)"
      using export_spec_inv[OF inv fresh, of buf len] sp 2(5) by simp
    have "vinput_table s (int ?k) = None"
    proof (cases "vinput_table s (int ?k)")
      case (Some x)
      then obtain b v where "vs_heap s b = Some v" "vi_id v = int ?k"
        using vinput_table_Some_iff[OF inv] by blast
      with inv_obj[OF inv this(1)] find_first_zero_bit_unset[OF 2(4)] show ?thesis
        by (simp add: vinput_obj_ok_def)
    qed
    with vinput_table_add[OF inv a inv' refl 2(4)] 2 show ?thesis
      by (auto simp: VINPUT_MINORS_def)
  qed blast
qed

theorem export_refines_table_witness:
  "\<exists>r s'. export_store vkbd_env vkbd_loaded (''vkbd'' @ [NUL]) 5 = Some (r, s') \<and>
    ((r < 0 \<and> vinput_table s' = vinput_table vkbd_loaded) \<or>
     (r = 5 \<and> (\<exists>k. k < 32 \<and> vinput_table s' = (vinput_table vkbd_loaded)(int k \<mapsto> 10))))"
proof -
  have fresh: "fresh_env vkbd_env vkbd_loaded"
    by (simp add: fresh_env_def vkbd_env_def vkbd_loaded_eq vinput_sys_zero_def)
  obtain r s' where x: "export_store vkbd_env vkbd_loaded (''vkbd'' @ [NUL]) 5 = Some (r, s')"
    using export_store_eq[OF vkbd_loaded_inv fresh, of "''vkbd'' @ [NUL]" 5]
    by (cases "export_spec vkbd_env vkbd_loaded (''vkbd'' @ [NUL]) 5") auto
  from export_refines_table[OF vkbd_loaded_inv fresh x] x vkbd_found show ?thesis by auto
qed

text \<open>
  C29 (refinement): \<open>unexport\<close> of a number refines the deletion from the table: an id that has no
  device gives \<open>-ENODEV\<close> and changes nothing, an id with a device gives the length and
  loses its entry; text that is no number gives \<open>-EINVAL\<close>.
\<close>

theorem unexport_refines_table:
  assumes inv: "vinput_inv s" and k: "kstrtol (cstr buf) = (err, ident)"
  shows "\<exists>r s'. unexport_store kstrtol s buf len = Some (r, s') \<and>
    (if err \<noteq> 0 then r = - EINVAL \<and> s' = s
     else if vinput_table s ident = None then r = - ENODEV \<and> s' = s
     else r = int len \<and> vinput_table s' = (vinput_table s)(ident := None))"
proof (cases "err = 0 \<and> vinput_lookup s ident \<noteq> None")
  case True
  then obtain a where a: "vinput_lookup s ident = Some a" by auto
  with vinput_lookup_Some_iff[OF inv] obtain v where v: "vs_heap s a = Some v" "vi_id v = ident"
    by blast
  then have "vinput_table s ident \<noteq> None" using a by (simp add: vinput_table_def)
  with vinput_table_remove[OF inv v(1)] True a v
    unexport_store_eq[where kstrtol = kstrtol and buf = buf, OF inv k] show ?thesis by simp
next
  case False
  then have "err = 0 \<Longrightarrow> vinput_table s ident = None" by (simp add: vinput_table_def)
  with False unexport_store_eq[where kstrtol = kstrtol and buf = buf, OF inv k] show ?thesis by auto
qed

theorem unexport_refines_table_witness:
  "\<exists>s'. unexport_store kstrtol_ref vkbd_one ''0'' 1 = Some (1, s') \<and>
    vinput_table s' = (vinput_table vkbd_one)(0 := None)"
proof -
  have k: "kstrtol_ref (cstr ''0'') = (0, 0)"
    by (simp add: kstrtol_ref_def cstr_def split_sign_def is_digit_def undigits_def in_long_def)
  have "vinput_table vkbd_one 0 = Some 10"
    unfolding vinput_table_Some_iff[OF vkbd_one_inv] using vkbd_one_obj(1)
    by (intro exI[of _ 100] exI[of _ vkbd_obj]) (simp add: vkbd_obj_def)
  with unexport_refines_table[where kstrtol = kstrtol_ref and buf = "''0''", OF vkbd_one_inv k, of 1]
  show ?thesis by auto
qed

lemma ffz_mask: "k < 32 \<Longrightarrow> find_first_zero_bit (mask k :: 64 word) VINPUT_MINORS = k"
proof -
  assume k: "k < 32"
  have "find (\<lambda>i. \<not> bit (mask k :: 64 word) i) [0..<32] = Some k"
    unfolding find_Some_iff using k
    by (intro exI[of _ k]) (auto simp: bit_simps)
  then show ?thesis by (simp add: find_first_zero_bit_def VINPUT_MINORS_def)
qed

lemma set_bit_mask: "set_bit k (mask k) = (mask (Suc k) :: 64 word)"
  by (rule bit_word_eqI) (auto simp: bit_simps)

lemma fresh_env_ids [simp]: "fresh_env e (s\<lparr>vs_ids := w\<rparr>) = fresh_env e s"
  by (simp add: fresh_env_def split: option.split)

lemma failing_exports:
  assumes inv: "vinput_inv s" and ids: "vs_ids s = 0" and fresh: "fresh_env e s"
    and ty: "vinput_find_type s buf = Some dev" and a: "ret_kzalloc e = Some a"
    and i: "ret_input_allocate_device e = None" and n: "n \<le> 32"
  shows "((\<lambda>s. snd (the (export_store e s buf len))) ^^ n) s = s\<lparr>vs_ids := mask n\<rparr> \<and>
    vinput_inv (s\<lparr>vs_ids := mask n\<rparr>)"
  using n
proof (induction n)
  case 0
  from inv ids show ?case by (simp flip: ids)
next
  case (Suc n)
  let ?s = "s\<lparr>vs_ids := mask n\<rparr>"
  from Suc have IH: "((\<lambda>s. snd (the (export_store e s buf len))) ^^ n) s = ?s"
    and invn: "vinput_inv ?s" by simp_all
  have f: "fresh_env e ?s" using fresh by simp
  have t: "vinput_find_type ?s buf = Some dev" using ty by (simp add: vinput_find_type_def)
  from Suc.prems have k: "n < 32" by simp
  have "export_spec e ?s buf len = (- ENOMEM, s\<lparr>vs_ids := mask (Suc n)\<rparr>)"
    using k by (simp add: export_spec_def t a i ffz_mask[OF k] set_bit_mask) (simp add: VINPUT_MINORS_def)
  with export_store_eq[OF invn f, of buf len] export_spec_inv[OF invn f, of buf len] IH
  show ?case by simp
qed

text \<open>
  Each \<open>export\<close> that finds no memory for an input device takes an id for good: after
  32 of them from a framework without devices, every later \<open>export\<close> fails with \<open>-ENOBUFS\<close>,
  although there is still no device.
\<close>

lemma export_leaks_ids:
  assumes inv: "vinput_inv s" and empty: "vs_vdevices s = []" and ids: "vs_ids s = 0"
    and fresh: "fresh_env e s" and ty: "vinput_find_type s buf = Some dev"
    and a: "ret_kzalloc e = Some a" and i: "ret_input_allocate_device e = None"
    and fresh': "fresh_env e' s" and a': "ret_kzalloc e' = Some a'"
  shows "\<exists>s'. ((\<lambda>s. snd (the (export_store e s buf len))) ^^ 32) s = s' \<and>
    vs_vdevices s' = [] \<and> export_store e' s' buf len = Some (- ENOBUFS, s')"
proof -
  let ?s = "s\<lparr>vs_ids := mask 32\<rparr>"
  from failing_exports[OF inv ids fresh ty a i, of 32 len] have
    s': "((\<lambda>s. snd (the (export_store e s buf len))) ^^ 32) s = ?s" and inv': "vinput_inv ?s" by auto
  have f: "fresh_env e' ?s" using fresh' by simp
  have t: "vinput_find_type ?s buf = Some dev" using ty by (simp add: vinput_find_type_def)
  have "VINPUT_MINORS \<le> find_first_zero_bit (mask 32 :: 64 word) VINPUT_MINORS"
    unfolding find_first_zero_bit_full by (simp add: VINPUT_MINORS_def bit_simps)
  then have "export_spec e' ?s buf len = (- ENOBUFS, ?s)"
    by (simp add: export_spec_def t a')
  with export_store_eq[OF inv' f, of buf len] s' empty show ?thesis by simp
qed

lemma export_leaks_ids_witness:
  "\<exists>s'. ((\<lambda>s. snd (the (export_store (vkbd_env\<lparr>ret_input_allocate_device := None\<rparr>) s
      (''vkbd'' @ [NUL]) 5))) ^^ 32) vkbd_loaded = s' \<and>
    vs_vdevices s' = [] \<and> export_store vkbd_env s' (''vkbd'' @ [NUL]) 5 = Some (- ENOBUFS, s')"
  by (rule export_leaks_ids[OF vkbd_loaded_inv _ _ _ vkbd_found])
    (auto simp: vkbd_loaded_eq vinput_sys_zero_def fresh_env_def vkbd_env_def)

text \<open>
  The case that the first property leaves is real: a file of a device stays open when the device is removed through \<open>unexport\<close>, but
  the object it points to is freed: a later read or write of the file follows a stale pointer.
\<close>

lemma vinput_stale_file:
  assumes nc: "user_access nc" and inv: "vinput_inv s"
    and o: "vinput_open s ident = Some (0, Some f)" and k: "kstrtol (cstr buf) = (0, ident)"
    and m: "mapped u a n" and n: "n \<le> 128"
  shows "\<exists>s'. unexport_store kstrtol s buf len = Some (int len, s') \<and>
    vinput_read nc stack s' f u a n off = None \<and> vinput_write nc s' f u a n = None"
proof -
  from o have l: "vinput_lookup s ident = Some f"
    by (auto simp: vinput_open_def vinput_get_vdevice_by_id_eq[OF inv] split: option.splits)
  let ?s = "vinput_remove s f (the (vs_heap s f))"
  have "unexport_store kstrtol s buf len = Some (int len, ?s)"
    using unexport_store_eq[where kstrtol = kstrtol and buf = buf, OF inv k] l by simp
  moreover have gone: "vs_heap ?s f = None" by (simp add: vinput_remove_def)
  moreover have "vinput_write nc ?s f u a n = None"
    using user_access.copy_from_user_ok[OF nc m, of "replicate (VINPUT_MAX_LEN + 1) NUL"] n gone
    by (simp add: vinput_write_def VINPUT_MAX_LEN_def)
  ultimately show ?thesis by (auto simp: vinput_read_def)
qed

lemma vinput_stale_file_witness:
  "\<exists>s'. unexport_store kstrtol_ref vkbd_one ''0'' 1 = Some (1, s') \<and>
    vinput_read bytewise (replicate 129 NUL) s' 100 (umem_with 4 []) 4 10 0 = None"
proof -
  have k: "kstrtol_ref (cstr ''0'') = (0, 0)"
    by (simp add: kstrtol_ref_def cstr_def split_sign_def is_digit_def undigits_def in_long_def)
  have "vinput_lookup vkbd_one 0 = Some 100"
    unfolding vinput_lookup_Some_iff[OF vkbd_one_inv] using vkbd_one_obj(1)
    by (simp add: vkbd_obj_def)
  then have "vinput_open vkbd_one 0 = Some (0, Some 100)"
    by (simp add: vinput_open_def vinput_get_vdevice_by_id_eq[OF vkbd_one_inv])
  from vinput_stale_file[where kstrtol = kstrtol_ref and buf = "''0''",
      OF bytewise.user_access_axioms vkbd_one_inv this k, of "umem_with 4 []" 4 10 1]
  show ?thesis by auto
qed

lemma length_dec_plus_long: "in_long i \<Longrightarrow> length (dec_plus i) \<le> 20"
proof -
  assume "in_long i"
  then have "\<bar>i\<bar> \<le> 9223372036854775808" by (auto simp: in_long_def)
  then have "\<bar>i\<bar> < 10 ^ 19" by simp
  from length_dec_plus[OF _ this] show ?thesis by simp
qed

lemma vkbd_write_number:
  assumes nc: "user_access nc" and ks: "kstrtol_fun kstrtol" and f: "vs_heap s f = Some v"
    and t: "vs_types s (vi_type v) = Some (vkbd_dev kstrtol vkeymap err)" and i: "in_long i"
    and n: "n = length (dec_plus i) + 1" and m: "mapped u a n"
    and b: "get_bytes u a n = dec_plus i @ [NL]"
  shows "vinput_write nc s f u a n = Some (int n,
    s\<lparr>vs_heap := (vs_heap s)(f \<mapsto> v\<lparr>vi_last_entry := word_of_int i\<rparr>)\<rparr>,
    [Key (vi_input v) (word_of_int \<bar>i\<bar>) (if i < 0 then VINPUT_RELEASE else VINPUT_PRESS),
     Sync (vi_input v)])"
proof -
  let ?z = "replicate (VINPUT_MAX_LEN + 1) NUL"
  have len: "n \<le> VINPUT_MAX_LEN" using length_dec_plus_long[OF i] n by (simp add: VINPUT_MAX_LEN_def)
  then have "n \<le> length ?z" by simp
  note cp = user_access.copy_from_user_ok[OF nc m this]
  have "length (dec_plus i @ [NL]) < VINPUT_MAX_LEN + 1" using len n by simp
  from put_front_zeroed[OF this] obtain r where
    pf: "put_front (dec_plus i @ [NL]) ?z = dec_plus i @ NL # NUL # r" by auto
  show ?thesis
    unfolding vinput_write_def Let_def cp b pf
    using len f t vinput_vkbd_send_number[OF ks i, of v r "int n"]
    by (simp add: vkbd_dev_def vkbd_ops_def)
qed

text \<open>
  C26 (roundtrip): a process that writes a number with its sign and a newline to a keyboard device
  presses the key of that code, or releases it when the number is negative; a process that
  then reads the device with a buffer of more than 128 bytes gets the same text and then 0.
\<close>

theorem vkbd_write_then_read:
  assumes nc: "user_access nc" and ks: "kstrtol_fun kstrtol" and f: "vs_heap s f = Some v"
    and t: "vs_types s (vi_type v) = Some (vkbd_dev kstrtol vkeymap err)" and i: "in_long i"
    and n: "n = length (dec_plus i) + 1" and m: "mapped u a n"
    and b: "get_bytes u a n = dec_plus i @ [NL]"
    and st: "length stack = VINPUT_MAX_LEN + 1" and m': "mapped u b k" and k: "128 < k"
  shows "\<exists>s' u'. vinput_write nc s f u a n = Some (int n, s',
      [Key (vi_input v) (word_of_int \<bar>i\<bar>) (if i < 0 then VINPUT_RELEASE else VINPUT_PRESS),
       Sync (vi_input v)]) \<and>
    vinput_read nc stack s' f u b k 0 = Some (int n, int n, u') \<and>
    get_bytes u' b n = dec_plus i @ [NL] \<and>
    vinput_read nc stack s' f u' b k (int n) = Some (0, int n, u')"
proof -
  let ?v = "v\<lparr>vi_last_entry := word_of_int i\<rparr>"
  let ?s = "s\<lparr>vs_heap := (vs_heap s)(f \<mapsto> ?v)\<rparr>"
  have f': "vs_heap ?s f = Some ?v" by simp
  have t': "vs_types ?s (vi_type ?v) = Some (vkbd_dev kstrtol vkeymap err)" using t by simp
  have tx: "vkbd_text (vi_last_entry ?v) = dec_plus i @ [NL]"
    by (simp add: vkbd_text_def sint_word_of_int_long[OF i])
  have k': "VINPUT_MAX_LEN < k" using k by (simp add: VINPUT_MAX_LEN_def)
  have ln: "length (dec_plus i @ [NL]) = n" using n by simp
  have nk: "n \<le> k" using length_dec_plus_long[OF i] n k by simp
  note rd = vkbd_read_all[OF nc st f' t' _ k', unfolded tx ln Let_def]
  have "get_bytes (put_bytes u b (dec_plus i @ [NL])) b (length (dec_plus i @ [NL])) = dec_plus i @ [NL]"
    by (rule get_bytes_put_bytes) (use mapped_mono[OF m' nk] ln in simp)
  then have "get_bytes (put_bytes u b (dec_plus i @ [NL])) b n = dec_plus i @ [NL]"
    by (simp only: ln)
  with vkbd_write_number[OF nc ks f t i n m b] rd(1)[OF m']
    rd(2)[of "put_bytes u b (dec_plus i @ [NL])" b] m'
  show ?thesis by (intro exI[of _ ?s] exI[of _ "put_bytes u b (dec_plus i @ [NL])"]) simp
qed

theorem vkbd_write_then_read_witness:
  "\<exists>s' u'. vinput_write bytewise vkbd_one 100 (umem_with 4 (''-34'' @ [NL])) 4 4 =
      Some (4, s', [Key 200 34 0, Sync 200]) \<and>
    vinput_read bytewise (replicate 129 NUL) s' 100 (umem_with 4 (''-34'' @ [NL])) 20 200 0 =
      Some (4, 4, u') \<and> get_bytes u' 20 4 = ''-34'' @ [NL]"
proof -
  have d: "dec_plus (- 34) = ''-34''" by (simp add: dec_plus_def digits.simps digit_values)
  have b: "get_bytes (umem_with 4 (''-34'' @ [NL])) 4 4 = ''-34'' @ [NL]"
    by (rule get_bytes_umem_with) simp
  have i: "vi_input vkbd_obj = 200" by (simp add: vkbd_obj_def)
  from vkbd_write_then_read[OF bytewise.user_access_axioms kstrtol_ref.kstrtol_fun_axioms
      vkbd_one_obj(1,2), of "- 34" 4 "umem_with 4 (''-34'' @ [NL])" 4 "replicate 129 NUL" 20 200]
  show ?thesis by (auto simp: d b[simplified] i in_long_def VINPUT_MAX_LEN_def VINPUT_RELEASE_def)
qed

text \<open>
  With a buffer of up to 128 bytes the first read of a keyboard device is wrong. A
  buffer that holds the text and more gets the text, a NUL and then bytes of the kernel's
  stack up to its size; a shorter one gets a NUL in place of its last byte.
\<close>

lemma vkbd_read_leaks_stack:
  assumes nc: "user_access nc" and st: "length stack = VINPUT_MAX_LEN + 1"
    and f: "vs_heap s f = Some v"
    and t: "vs_types s (vi_type v) = Some (vkbd_dev kstrtol vkeymap err)"
    and m: "mapped u b n" and n: "0 < n" "n \<le> 128"
  shows "\<exists>u'. vinput_read nc stack s f u b n 0 = Some (int n, int n, u') \<and>
    get_bytes u' b n =
      (let text = vkbd_text (vi_last_entry v)
       in if length text < n
          then text @ [NUL] @ take (n - length text - 1) (drop (length text + 1) stack)
          else take (n - 1) text @ [NUL])"
proof -
  let ?t = "vkbd_text (vi_last_entry v)"
  let ?w = "take (n - 1) ?t @ [NUL]"
  let ?b = "put_front ?w stack"
  have w: "length ?w \<le> length stack" using n st by (simp add: VINPUT_MAX_LEN_def)
  have lb: "length ?b = 129" using length_put_front[OF w] st by (simp add: VINPUT_MAX_LEN_def)
  have "op_read (vd_ops (vkbd_dev kstrtol vkeymap err)) v stack (int n) = Some (int (length ?t), ?b)"
    using w n by (simp add: vkbd_dev_def vkbd_ops_def vinput_vkbd_read_def snprintf_def Let_def
        vkbd_text_def[symmetric])
  moreover have tl: "length (take n ?b) = n" using lb n by simp
  moreover have "mapped u b (length (take n ?b))" using m tl by simp
  note user_access.copy_to_user_ok[OF nc this]
  ultimately have r: "vinput_read nc stack s f u b n 0 = Some (int n, int n, put_bytes u b (take n ?b))"
    using f t n lb by (simp add: vinput_read_def VINPUT_MAX_LEN_def)
  have "get_bytes (put_bytes u b (take n ?b)) b n = take n ?b"
    using get_bytes_put_bytes[of u b "take n ?b"] m tl by simp
  moreover have "take n ?b = (if length ?t < n
      then ?t @ [NUL] @ take (n - length ?t - 1) (drop (length ?t + 1) stack)
      else take (n - 1) ?t @ [NUL])"
    using n by (auto simp: put_front_def take_Cons')
  ultimately show ?thesis using r by (auto simp: Let_def)
qed

lemma vkbd_read_leaks_stack_witness:
  "\<exists>u'. vinput_read bytewise (replicate 129 CHR ''S'') vkbd_one 100 (umem_with 4 []) 4 6 0 =
      Some (6, 6, u') \<and> get_bytes u' 4 6 = ''+0'' @ [NL, NUL] @ ''SS''"
proof -
  have x: "vkbd_text (vi_last_entry vkbd_obj) = ''+0'' @ [NL]"
    by (simp add: vkbd_text_def vkbd_obj_def dec_plus_def digits.simps digit_values)
  from vkbd_read_leaks_stack[OF bytewise.user_access_axioms, of "replicate 129 CHR ''S''"
      vkbd_one 100 vkbd_obj kstrtol_ref vkbd_keymap 0 "umem_with 4 []" 4 6, unfolded x]
  show ?thesis using vkbd_one_obj by (auto simp: VINPUT_MAX_LEN_def numeral_eq_Suc)
qed

text \<open>
  Text that is no number is not refused: the write returns its length and reports a
  press of key 0.
\<close>

lemma vkbd_accepts_no_number:
  assumes nc: "user_access nc" and ks: "kstrtol_fun kstrtol" and f: "vs_heap s f = Some v"
    and t: "vs_types s (vi_type v) = Some (vkbd_dev kstrtol vkeymap err)"
    and n: "0 < n" "n \<le> 128" and m: "mapped u a n"
    and b: "NUL \<notin> set (get_bytes u a n)" "get_user u a \<noteq> CHR ''+''"
    and bad: "\<not> list_all number_char (get_bytes u a n)"
  shows "\<exists>s'. vinput_write nc s f u a n =
    Some (int n, s', [Key (vi_input v) 0 VINPUT_PRESS, Sync (vi_input v)])"
proof -
  let ?z = "replicate (VINPUT_MAX_LEN + 1) NUL" and ?g = "get_bytes u a n"
  have len: "n \<le> VINPUT_MAX_LEN" using n by (simp add: VINPUT_MAX_LEN_def)
  then have "n \<le> length ?z" by simp
  note cp = user_access.copy_from_user_ok[OF nc m this]
  have "length ?g < VINPUT_MAX_LEN + 1" using len by simp
  from put_front_zeroed[OF this] obtain r where
    pf: "put_front ?g ?z = ?g @ NUL # r" by auto
  have c0: "char_at (?g @ NUL # r) 0 = Some (get_user u a)" for r
    using n get_bytes_nth[of 0 n u a] by (simp add: char_at_def nth_append)
  have "cstr (?g @ NUL # r) = ?g" for r by (rule cstr_append_NUL) (rule b(1))
  moreover obtain ret x where k: "kstrtol ?g = (ret, x)" by force
  moreover have "ret \<noteq> 0" using kstrtol_fun.kstrtol_syntax[OF ks, of ?g x] bad k by auto
  moreover have "terminated (?g @ NUL # r)" for r by (simp add: terminated_def)
  ultimately have "vinput_vkbd_send kstrtol v (?g @ NUL # r) (int n) =
      Some (int n, v\<lparr>vi_last_entry := 0\<rparr>, [Key (vi_input v) 0 VINPUT_PRESS, Sync (vi_input v)])"
    using b(2) by (simp add: vinput_vkbd_send_def c0)
  then show ?thesis
    unfolding vinput_write_def Let_def cp pf using len f t
    by (simp add: vkbd_dev_def vkbd_ops_def)
qed

lemma vkbd_accepts_no_number_witness:
  "\<exists>s'. vinput_write bytewise vkbd_one 100 (umem_with 4 ''xy'') 4 2 =
    Some (2, s', [Key 200 0 1, Sync 200])"
proof -
  have b: "get_bytes (umem_with 4 ''xy'') 4 2 = ''xy''" by (rule get_bytes_umem_with) simp
  then have "get_user (umem_with 4 ''xy'') 4 = CHR ''x''"
    using get_bytes_nth[of 0 2 "umem_with 4 ''xy''" 4] by simp
  moreover have "\<not> list_all number_char ''xy''" by (simp add: number_char_def is_digit_def)
  ultimately show ?thesis
    using vkbd_accepts_no_number[OF bytewise.user_access_axioms kstrtol_ref.kstrtol_fun_axioms
      vkbd_one_obj(1,2), of 2 "umem_with 4 ''xy''" 4] b
    by (auto simp: vkbd_obj_def VINPUT_PRESS_def)
qed

lemma fold_fill:
  "n \<le> length xs \<Longrightarrow> fold (\<lambda>i xs. xs[i := g i]) [0..<n] xs = map g [0..<n] @ drop n xs"
proof (induction n)
  case 0
  then show ?case by simp
next
  case (Suc n)
  then have "drop n xs = xs ! n # drop (Suc n) xs" by (simp add: Cons_nth_drop_Suc)
  with Suc show ?case by (simp add: list_update_append)
qed

lemma vkbd_keymap_eq: "vkbd_keymap = map of_nat [0..<KEY_MAX]"
  unfolding vkbd_keymap_def by (subst fold_fill) simp_all

lemma fold_set_bits: "fold (\<lambda>i bits. bits(h i := True)) is f k \<longleftrightarrow> k \<in> h ` set is \<or> f k"
  by (induction "is" arbitrary: f) auto

lemma unat_key: "i < KEY_MAX \<Longrightarrow> unat (of_nat i :: 16 word) = i"
  by (simp add: KEY_MAX_def unat_of_nat take_bit_nat_eq_self)

text \<open>
  After the keyboard's module is loaded, an \<open>export\<close> that starts with \<open>vkbd\<close> and
  in which the kernel's calls succeed makes a device whose input device is registered under the
  name \<open>vkbd\<close>, can report key events, and has exactly the key codes below 767 enabled.
\<close>

lemma vkbd_export_sets_up_keys:
  assumes inv: "vinput_inv s" and free: "vs_types s dev = None"
    and fresh: "fresh_env e s" "ret_device_register e = 0"
    and a: "ret_kzalloc e = Some a" and i: "ret_input_allocate_device e = Some i"
    and room: "find_first_zero_bit (vs_ids s) VINPUT_MINORS < VINPUT_MINORS"
    and buf: "has_prefix buf ''vkbd''"
  shows "\<exists>s' d. export_store e (snd (vkbd_init kstrtol 0 s dev)) buf len = Some (int len, s') \<and>
    vs_inputs s' i = Some d \<and> in_registered d \<and> in_name d = ''vkbd'' \<and> bit (in_evbit d) 1 \<and>
    (\<forall>k. in_keybit d k \<longleftrightarrow> k < 767)"
proof -
  let ?s = "snd (vkbd_init kstrtol 0 s dev)"
  let ?t = "vkbd_dev kstrtol vkbd_keymap 0"
  let ?k = "find_first_zero_bit (vs_ids s) VINPUT_MINORS"
  let ?d = "snd (vinput_vkbd_init vkbd_keymap 0 (vinput_new ?s ?k i dev) (vinput_input_setup ?t a))"
  have inv': "vinput_inv ?s"
    using vinput_inv_load[OF inv free vkbd_driver] by (simp add: vkbd_init_def)
  have s: "vs_types ?s dev = Some ?t" "vs_devices ?s = dev # vs_devices s" "vs_ids ?s = vs_ids s"
    "vs_heap ?s = vs_heap s" "vs_inputs ?s = vs_inputs s"
    by (simp_all add: vkbd_init_def vinput_register_def)
  have name: "cstr (vd_name ?t) = ''vkbd''" by (simp add: vkbd_dev_def cstr_def)
  have fresh': "fresh_env e ?s" using fresh(1) unfolding fresh_env_def s .
  have ty: "vinput_find_type ?s buf = Some dev" using s buf by (simp add: vinput_find_type_def name)
  have "vinput_init_type ?s dev a i = (0, ?d)"
    using s by (simp add: vinput_init_type_def Let_def vkbd_dev_def vkbd_ops_def vinput_vkbd_init_def)
  then have ex: "export_store e ?s buf len = Some (int len, vinput_add ?s a i dev ?d)"
    using export_store_eq[OF inv' fresh', of buf len] ty a i room fresh(2) s
    by (simp add: export_spec_def Let_def)
  have "in_keybit ?d k \<longleftrightarrow> k < 767" for k
  proof -
    have "k \<in> (\<lambda>i. unat (vkbd_keymap ! i)) ` set [0..<KEY_MAX] \<longleftrightarrow> k < KEY_MAX"
      by (auto simp: vkbd_keymap_eq unat_key image_iff)
    then show ?thesis
      by (simp add: vinput_vkbd_init_def fold_set_bits vinput_input_setup_def input_dev_zeroed_def
          KEY_MAX_def)
  qed
  moreover have "in_registered ?d" "in_name ?d = ''vkbd''" "bit (in_evbit ?d) 1"
    by (simp_all add: vinput_vkbd_init_def vinput_input_setup_def name bit_simps)
  ultimately show ?thesis using ex
    by (intro exI[of _ "vinput_add ?s a i dev ?d"] exI[of _ ?d]) (simp add: vinput_add_def Let_def)
qed

lemma vkbd_export_sets_up_keys_witness:
  "\<exists>s' d. export_store vkbd_env vkbd_loaded (''vkbd'' @ [NL, NUL]) 5 = Some (5, s') \<and>
    vs_inputs s' 200 = Some d \<and> in_keybit d 34 \<and> \<not> in_keybit d 767"
proof -
  have "fresh_env vkbd_env vinput_sys_zero"
    by (simp add: fresh_env_def vkbd_env_def vinput_sys_zero_def)
  moreover have "find_first_zero_bit (vs_ids vinput_sys_zero) VINPUT_MINORS < VINPUT_MINORS"
    using ffz_0 by (simp add: vinput_sys_zero_def) (simp add: VINPUT_MINORS_def)
  ultimately show ?thesis
    using vkbd_export_sets_up_keys[OF vinput_sys_zero_inv, of 10 vkbd_env 100 200
        "''vkbd'' @ [NL, NUL]" kstrtol_ref 5]
    by (auto simp: vkbd_loaded_def has_prefix_def vkbd_env_def vinput_sys_zero_def)
qed

end
