(* ===== verification/Gpio_Buttons.thy ===== *)
theory Gpio_Buttons
  imports Resources
begin

text \<open>
  \<open>intrpt.c\<close>, \<open>bottomhalf.c\<close> and \<open>bh_threaded.c\<close>: two buttons on GPIO lines 17 and 18 raise
  interrupts, and a LED is on line 4.

  The preprocessor makes two programs of each file. The argument \<open>no_array\<close> of the definitions is
  the macro \<open>NO_GPIO_REQUEST_ARRAY\<close>, which is set for kernels from 6.10 on.
\<close>

section \<open>State\<close>

text \<open>
  \<open>bt_led_out\<close> says whether the LED's line is configured as an output, \<open>bt_led\<close> is its level;
  \<open>bt_work\<close> says whether the work of \<open>bottomhalf.c\<close> is queued.
\<close>

record buttons =
  bt_irq0 :: int
  bt_irq1 :: int
  bt_led_out :: bool
  bt_led :: int
  bt_work :: bool

definition buttons_zero :: "bool \<Rightarrow> int \<Rightarrow> buttons" where
  "buttons_zero led_out level = \<lparr>bt_irq0 = - 1, bt_irq1 = - 1, bt_led_out = led_out,
     bt_led = level, bt_work = False\<rparr>"

definition led_gpio :: nat where
  "led_gpio = 4"

definition button_gpio0 :: nat where
  "button_gpio0 = 17"

definition button_gpio1 :: nat where
  "button_gpio1 = 18"

text \<open>A level is set on a line that is an output; on an input the call has no effect on the line.\<close>

definition set_led :: "buttons \<Rightarrow> int \<Rightarrow> buttons" where
  "set_led s v = (if bt_led_out s then s\<lparr>bt_led := v\<rparr> else s)"

definition led_output :: "buttons \<Rightarrow> int \<Rightarrow> buttons" where
  "led_output s v = s\<lparr>bt_led_out := True, bt_led := v\<rparr>"

section \<open>Interrupt handlers\<close>

definition IRQ_HANDLED :: int where
  "IRQ_HANDLED = 1"

definition IRQ_WAKE_THREAD :: int where
  "IRQ_WAKE_THREAD = 2"

definition intrpt_button_isr :: "buttons \<Rightarrow> int \<Rightarrow> int \<times> buttons" where
  "intrpt_button_isr s irq =
     (IRQ_HANDLED,
      if irq = bt_irq0 s \<and> bt_led s = 0 then set_led s 1
      else if irq = bt_irq1 s \<and> bt_led s \<noteq> 0 then set_led s 0
      else s)"

definition bottomhalf_button_isr :: "buttons \<Rightarrow> int \<Rightarrow> int \<times> buttons" where
  "bottomhalf_button_isr s irq =
     (let s = (if irq = bt_irq0 s \<and> bt_led s = 0 then set_led s 1
               else if irq = bt_irq1 s \<and> bt_led s \<noteq> 0 then set_led s 0
               else s)
      in (IRQ_HANDLED, s\<lparr>bt_work := True\<rparr>))"

text \<open>The kernel's worker takes the work from the queue and runs the function, which only waits.\<close>

definition bottomhalf_work_fn :: "buttons \<Rightarrow> buttons" where
  "bottomhalf_work_fn s = s\<lparr>bt_work := False\<rparr>"

definition button_top_half :: "buttons \<Rightarrow> int \<Rightarrow> int \<times> buttons" where
  "button_top_half s irq = (IRQ_WAKE_THREAD, s)"

definition button_bottom_half :: "buttons \<Rightarrow> int \<Rightarrow> int \<times> buttons" where
  "button_bottom_half s irq = (IRQ_HANDLED, s)"

text \<open>The kernel runs the thread's function when the top half asks for it.\<close>

definition bh_threaded_irq :: "buttons \<Rightarrow> int \<Rightarrow> int \<times> buttons" where
  "bh_threaded_irq s irq =
     (let (r, s) = button_top_half s irq
      in if r = IRQ_WAKE_THREAD then button_bottom_half s irq else (r, s))"

section \<open>Load and unload\<close>

record button_env =
  ret_leds :: int          \<comment> \<open>\<open>gpio_request\<close> or \<open>gpio_request_array\<close> for the LED\<close>
  ret_led_dir :: int       \<comment> \<open>\<open>gpio_direction_output\<close>\<close>
  ret_button0 :: int       \<comment> \<open>\<open>gpio_request\<close> for the first button\<close>
  ret_button1 :: int
  ret_buttons :: int       \<comment> \<open>\<open>gpio_request_array\<close> for both\<close>
  ret_dir0 :: int          \<comment> \<open>\<open>gpio_direction_input\<close>\<close>
  ret_dir1 :: int
  ret_irq0 :: int          \<comment> \<open>\<open>gpio_to_irq\<close>\<close>
  ret_request0 :: int      \<comment> \<open>\<open>request_irq\<close> or \<open>request_threaded_irq\<close>\<close>
  ret_irq1 :: int
  ret_request1 :: int

text \<open>
  The cleanup labels: each releases its resource and falls through to the next one.
  \<open>dev_id\<close> is what the handlers are registered with.
\<close>

definition fail_led :: "event list" where
  "fail_led = [Rel (Gpio led_gpio)]"

definition fail_button0 :: "event list" where
  "fail_button0 = Rel (Gpio button_gpio0) # fail_led"

definition fail_button1 :: "event list" where
  "fail_button1 = Rel (Gpio button_gpio1) # fail_button0"

definition fail_irq0 :: "buttons \<Rightarrow> event list" where
  "fail_irq0 s = Rel (Irq (bt_irq0 s) ''NULL'') # fail_button1"

definition fail_leds :: "event list" where
  "fail_leds = [Rel (GpioArray [led_gpio])]"

definition fail_buttons :: "event list" where
  "fail_buttons = Rel (GpioArray [button_gpio0, button_gpio1]) # fail_leds"

definition fail_irq0_array :: "buttons \<Rightarrow> string \<Rightarrow> event list" where
  "fail_irq0_array s dev_id = Rel (Irq (bt_irq0 s) dev_id) # fail_buttons"

text \<open>
  The program for kernels before 6.10, which the three files share but for the \<open>dev_id\<close>s \<open>d0\<close>
  and \<open>d1\<close> of the two handlers.
\<close>

definition array_init ::
    "string \<Rightarrow> string \<Rightarrow> button_env \<Rightarrow> buttons \<Rightarrow> int \<times> buttons \<times> event list" where
  "array_init d0 d1 e s =
     (if ret_leds e \<noteq> 0 then (ret_leds e, s, [])
      else let t = [Acq (GpioArray [led_gpio])]; s = led_output s 0 in
      if ret_buttons e \<noteq> 0 then (ret_buttons e, s, t @ fail_leds)
      else let t = t @ [Acq (GpioArray [button_gpio0, button_gpio1])] in
      if ret_irq0 e < 0 then (ret_irq0 e, s, t @ fail_buttons)
      else let s = s\<lparr>bt_irq0 := ret_irq0 e\<rparr> in
      if ret_request0 e \<noteq> 0 then (ret_request0 e, s, t @ fail_buttons)
      else let t = t @ [Acq (Irq (bt_irq0 s) d0)] in
      if ret_irq1 e < 0 then (ret_irq1 e, s, t @ fail_buttons)
      else let s = s\<lparr>bt_irq1 := ret_irq1 e\<rparr> in
      if ret_request1 e \<noteq> 0 then (ret_request1 e, s, t @ fail_irq0_array s d0)
      else (0, s, t @ [Acq (Irq (bt_irq1 s) d1)]))"

definition intrpt_init :: "bool \<Rightarrow> button_env \<Rightarrow> buttons \<Rightarrow> int \<times> buttons \<times> event list" where
  "intrpt_init no_array e s =
     (if no_array then
        (if ret_leds e \<noteq> 0 then (ret_leds e, s, [])
         else let t = [Acq (Gpio led_gpio)] in
         if ret_button0 e \<noteq> 0 then (ret_button0 e, s, t @ fail_led)
         else let t = t @ [Acq (Gpio button_gpio0)] in
         if ret_button1 e \<noteq> 0 then (ret_button1 e, s, t @ fail_button0)
         else let t = t @ [Acq (Gpio button_gpio1)] in
         if ret_irq0 e < 0 then (ret_irq0 e, s, t @ fail_button1)
         else let s = s\<lparr>bt_irq0 := ret_irq0 e\<rparr> in
         if ret_request0 e \<noteq> 0 then (ret_request0 e, s, t @ fail_button1)
         else let t = t @ [Acq (Irq (bt_irq0 s) ''NULL'')] in
         if ret_irq1 e < 0 then (ret_irq1 e, s, t @ fail_irq0 s)
         else let s = s\<lparr>bt_irq1 := ret_irq1 e\<rparr> in
         if ret_request1 e \<noteq> 0 then (ret_request1 e, s, t @ fail_irq0 s)
         else (0, s, t @ [Acq (Irq (bt_irq1 s) ''NULL'')]))
      else array_init ''NULL'' ''NULL'' e s)"

text \<open>The load functions of \<open>bottomhalf.c\<close> and \<open>bh_threaded.c\<close> also set the directions.\<close>

definition bottomhalf_init :: "bool \<Rightarrow> button_env \<Rightarrow> buttons \<Rightarrow> int \<times> buttons \<times> event list" where
  "bottomhalf_init no_array e s =
     (if no_array then
        (if ret_leds e \<noteq> 0 then (ret_leds e, s, [])
         else let t = [Acq (Gpio led_gpio)] in
         if ret_led_dir e \<noteq> 0 then (ret_led_dir e, s, t @ fail_led)
         else let s = led_output s 0 in
         if ret_button0 e \<noteq> 0 then (ret_button0 e, s, t @ fail_led)
         else let t = t @ [Acq (Gpio button_gpio0)] in
         if ret_button1 e \<noteq> 0 then (ret_button1 e, s, t @ fail_button0)
         else let t = t @ [Acq (Gpio button_gpio1)] in
         if ret_dir0 e \<noteq> 0 then (ret_dir0 e, s, t @ fail_button1)
         else if ret_dir1 e \<noteq> 0 then (ret_dir1 e, s, t @ fail_button1)
         else if ret_irq0 e < 0 then (ret_irq0 e, s, t @ fail_button1)
         else let s = s\<lparr>bt_irq0 := ret_irq0 e\<rparr> in
         if ret_request0 e \<noteq> 0 then (ret_request0 e, s, t @ fail_button1)
         else let t = t @ [Acq (Irq (bt_irq0 s) ''NULL'')] in
         if ret_irq1 e < 0 then (ret_irq1 e, s, t @ fail_irq0 s)
         else let s = s\<lparr>bt_irq1 := ret_irq1 e\<rparr> in
         if ret_request1 e \<noteq> 0 then (ret_request1 e, s, t @ fail_irq0 s)
         else (0, s, t @ [Acq (Irq (bt_irq1 s) ''NULL'')]))
      else array_init ''NULL'' ''NULL'' e s)"

definition bh_threaded_init :: "bool \<Rightarrow> button_env \<Rightarrow> buttons \<Rightarrow> int \<times> buttons \<times> event list" where
  "bh_threaded_init no_array e s =
     (if no_array then bottomhalf_init True e s
      else array_init ''&buttons[0]'' ''&buttons[1]'' e s)"

text \<open>Unloading turns the LED off, which changes the state, and gives back the resources.\<close>

definition exit_leds :: "bool \<Rightarrow> event list" where
  "exit_leds no_array =
     (if no_array then [Rel (Gpio led_gpio), Rel (Gpio button_gpio0), Rel (Gpio button_gpio1)]
      else [Rel (GpioArray [led_gpio]), Rel (GpioArray [button_gpio0, button_gpio1])])"

definition intrpt_exit :: "bool \<Rightarrow> buttons \<Rightarrow> event list" where
  "intrpt_exit no_array s =
     [Rel (Irq (bt_irq0 s) ''NULL''), Rel (Irq (bt_irq1 s) ''NULL'')] @ exit_leds no_array"

definition bottomhalf_exit :: "bool \<Rightarrow> buttons \<Rightarrow> event list" where
  "bottomhalf_exit no_array s =
     [Rel (Irq (bt_irq0 s) ''NULL''), Rel (Irq (bt_irq1 s) ''NULL'')] @ exit_leds no_array"

definition bh_threaded_exit :: "bool \<Rightarrow> buttons \<Rightarrow> event list" where
  "bh_threaded_exit no_array s =
     (if no_array then [Rel (Irq (bt_irq0 s) ''NULL''), Rel (Irq (bt_irq1 s) ''NULL'')]
      else [Rel (Irq (bt_irq0 s) ''&buttons[0]''), Rel (Irq (bt_irq1 s) ''&buttons[1]'')]) @
     exit_leds no_array"

definition buttons_exit_state :: "buttons \<Rightarrow> buttons" where
  "buttons_exit_state s = set_led s 0"

lemmas button_cleanup [mod_init] =
  fail_led_def fail_button0_def fail_button1_def fail_irq0_def fail_leds_def
  fail_buttons_def fail_irq0_array_def exit_leds_def Let_def led_gpio_def button_gpio0_def
  button_gpio1_def

lemmas button_loads [mod_init] =
  array_init_def intrpt_init_def bottomhalf_init_def bh_threaded_init_def intrpt_exit_def
  bottomhalf_exit_def bh_threaded_exit_def

section \<open>Resources\<close>

text \<open>From 6.10 on, each load function gives back on a failure what it acquired.\<close>

interpretation intrpt_mod: lkm_module "intrpt_init True" "intrpt_exit True"
  by (rule lkm_moduleI) (auto simp: mod_init split: if_splits)

interpretation bottomhalf_mod: lkm_module "bottomhalf_init True" "bottomhalf_exit True"
  by (rule lkm_moduleI) (auto simp: mod_init split: if_splits)

interpretation bh_threaded_mod: lkm_module "bh_threaded_init True" "bh_threaded_exit True"
  by (rule lkm_moduleI) (auto simp: mod_init split: if_splits)

text \<open>The case in which the program for older kernels takes the wrong label.\<close>

definition second_line_fails :: "button_env \<Rightarrow> bool" where
  "second_line_fails e \<longleftrightarrow> ret_leds e = 0 \<and> ret_buttons e = 0 \<and> 0 \<le> ret_irq0 e \<and>
     ret_request0 e = 0 \<and> ret_irq1 e < 0"

lemma array_init_leak:
  assumes "array_init d0 d1 e s = (r, s', t)"
  shows "r \<noteq> 0 \<Longrightarrow> replay [] t = Some (if second_line_fails e then [Irq (ret_irq0 e) d0] else [])"
  using assms
  by (auto simp: array_init_def button_cleanup second_line_fails_def split: if_splits)

text \<open>
  The programs for older kernels leave the interrupt of the first button in that case, and nothing else.
\<close>

definition array_leaves :: "string \<Rightarrow> button_env \<Rightarrow> kres list" where
  "array_leaves d0 e = (if second_line_fails e then [Irq (ret_irq0 e) d0] else [])"

lemmas array_mod = mod_init array_leaves_def second_line_fails_def

interpretation intrpt_array_mod: module_leaving "intrpt_init False" "intrpt_exit False" "array_leaves ''NULL''"
  by (rule module_leavingI) (auto simp: array_mod split: if_splits)

interpretation bottomhalf_array_mod: module_leaving "bottomhalf_init False" "bottomhalf_exit False"
    "array_leaves ''NULL''"
  by (rule module_leavingI) (auto simp: array_mod split: if_splits)

interpretation bh_threaded_array_mod: module_leaving "bh_threaded_init False" "bh_threaded_exit False"
    "array_leaves ''&buttons[0]''"
  by (rule module_leavingI) (auto simp: array_mod split: if_splits)

section \<open>The LED\<close>

definition led_spec :: "buttons \<Rightarrow> int list \<Rightarrow> int" where
  "led_spec s irqs =
     (case rev (filter (\<lambda>i. i = bt_irq0 s \<or> i = bt_irq1 s) irqs) of
        [] \<Rightarrow> bt_led s | i # _ \<Rightarrow> if i = bt_irq0 s then 1 else 0)"

definition run_irqs :: "(buttons \<Rightarrow> int \<Rightarrow> int \<times> buttons) \<Rightarrow> buttons \<Rightarrow> int list \<Rightarrow> buttons" where
  "run_irqs isr s irqs = fold (\<lambda>irq s. snd (isr s irq)) irqs s"

lemma run_irqs_snoc: "run_irqs isr s (irqs @ [irq]) = snd (isr (run_irqs isr s irqs) irq)"
  by (simp add: run_irqs_def)

lemma intrpt_isr_irqs: "bt_irq0 (snd (intrpt_button_isr s i)) = bt_irq0 s"
  "bt_irq1 (snd (intrpt_button_isr s i)) = bt_irq1 s"
  "bt_led_out (snd (intrpt_button_isr s i)) = bt_led_out s"
  by (simp_all add: intrpt_button_isr_def set_led_def)

lemma led_spec_snoc:
  "led_spec s (irqs @ [i]) =
    (if i = bt_irq0 s then 1 else if i = bt_irq1 s then 0 else led_spec s irqs)"
  by (simp add: led_spec_def)

lemma intrpt_isr_led:
  assumes "bt_led_out s" and "bt_irq0 s \<noteq> bt_irq1 s" and "bt_led s \<in> {0, 1}"
  shows "bt_led (snd (intrpt_button_isr s i)) =
    (if i = bt_irq0 s then 1 else if i = bt_irq1 s then 0 else bt_led s)"
  using assms by (auto simp: intrpt_button_isr_def set_led_def)

lemma run_intrpt:
  assumes "bt_led_out s" and "bt_irq0 s \<noteq> bt_irq1 s" and "bt_led s \<in> {0, 1}"
  shows "bt_led (run_irqs intrpt_button_isr s irqs) = led_spec s irqs \<and>
    bt_irq0 (run_irqs intrpt_button_isr s irqs) = bt_irq0 s \<and>
    bt_irq1 (run_irqs intrpt_button_isr s irqs) = bt_irq1 s \<and>
    bt_led_out (run_irqs intrpt_button_isr s irqs)"
proof (induction irqs rule: rev_induct)
  case Nil
  then show ?case using assms by (simp add: run_irqs_def led_spec_def)
next
  case (snoc i irqs)
  have "led_spec s irqs \<in> {0, 1}" using assms(3) by (auto simp: led_spec_def split: list.splits)
  with snoc assms intrpt_isr_led[of "run_irqs intrpt_button_isr s irqs" i] show ?case
    by (simp add: run_irqs_snoc intrpt_isr_irqs led_spec_snoc)
qed

lemma bottomhalf_isr_eq:
  "snd (bottomhalf_button_isr s i) = (snd (intrpt_button_isr s i))\<lparr>bt_work := True\<rparr>"
  by (simp add: bottomhalf_button_isr_def intrpt_button_isr_def Let_def)

lemma run_bottomhalf:
  "run_irqs bottomhalf_button_isr s irqs =
    (run_irqs intrpt_button_isr s irqs)\<lparr>bt_work := bt_work s \<or> irqs \<noteq> []\<rparr>"
proof (induction irqs rule: rev_induct)
  case Nil
  then show ?case by (simp add: run_irqs_def)
next
  case (snoc i irqs)
  have "bt_work (snd (intrpt_button_isr s i)) = bt_work s" for s
    by (simp add: intrpt_button_isr_def set_led_def)
  moreover have "snd (intrpt_button_isr (s\<lparr>bt_work := b\<rparr>) i) = (snd (intrpt_button_isr s i))\<lparr>bt_work := b\<rparr>" for s b
    by (simp add: intrpt_button_isr_def set_led_def)
  ultimately show ?case using snoc by (simp add: run_irqs_snoc bottomhalf_isr_eq)
qed

text \<open>In \<open>bh_threaded.c\<close> no handler touches the LED, although its header says what the buttons do to it.\<close>

lemma run_bh_threaded: "run_irqs bh_threaded_irq s irqs = s"
  by (induction irqs) (simp_all add: run_irqs_def bh_threaded_irq_def button_top_half_def
      button_bottom_half_def IRQ_WAKE_THREAD_def)

section \<open>Properties\<close>

definition second_line_env :: button_env where
  "second_line_env = \<lparr>ret_leds = 0, ret_led_dir = 0, ret_button0 = 0, ret_button1 = 0,
     ret_buttons = 0, ret_dir0 = 0, ret_dir1 = 0, ret_irq0 = 55, ret_request0 = 0,
     ret_irq1 = - ENODEV, ret_request1 = 0\<rparr>"

text \<open>What a load that succeeds leaves: the two interrupts, and the LED's line an output or as it was.\<close>

lemma intrpt_loaded:
  assumes "intrpt_init no_array e s = (0, s', t)"
  shows "bt_irq0 s' = ret_irq0 e \<and> bt_irq1 s' = ret_irq1 e \<and>
    bt_led_out s' = (if no_array then bt_led_out s else True) \<and> bt_led s' = (if no_array then bt_led s else 0)"
  using assms by (cases no_array) (auto simp: button_loads led_output_def Let_def split: if_splits)

lemma bottomhalf_loaded:
  assumes "bottomhalf_init no_array e s = (0, s', t)"
  shows "bt_irq0 s' = ret_irq0 e \<and> bt_irq1 s' = ret_irq1 e \<and> bt_led_out s' \<and> bt_led s' = 0 \<and>
    bt_work s' = bt_work s"
  using assms by (cases no_array) (auto simp: button_loads led_output_def Let_def split: if_splits)

lemma intrpt_led_input:
  "\<not> bt_led_out s \<Longrightarrow> bt_led (run_irqs intrpt_button_isr s irqs) = bt_led s \<and>
    \<not> bt_led_out (run_irqs intrpt_button_isr s irqs)"
  by (induction irqs rule: rev_induct)
    (auto simp: run_irqs_snoc intrpt_isr_irqs intrpt_button_isr_def set_led_def, simp_all add: run_irqs_def)

text \<open>
  C38 (functional): after a successful load of \<open>bottomhalf.c\<close>, or of \<open>intrpt.c\<close> for kernels before 6.10, that gave the
  buttons different interrupts, the LED is off, and after any sequence of interrupts it is on if the last one of a
  button came from the first button and off if it came from the second; \<open>bottomhalf.c\<close> has
  queued its work when there was any. For kernels from 6.10 on, \<open>intrpt.c\<close> does the same where the line was an
  output, low or high, before the load; where it was an input, the buttons never change its level.
\<close>

theorem buttons_switch_the_led:
  assumes irqs: "ret_irq0 e \<noteq> ret_irq1 e"
  shows "(bottomhalf_init no_array e s = (0, s', t) \<longrightarrow>
      bt_led s' = 0 \<and> bt_led (run_irqs bottomhalf_button_isr s' irqs) = led_spec s' irqs \<and>
      (bt_work (run_irqs bottomhalf_button_isr s' irqs) \<longleftrightarrow> bt_work s \<or> irqs \<noteq> [])) \<and>
    (intrpt_init False e s = (0, s', t) \<longrightarrow>
      bt_led s' = 0 \<and> bt_led (run_irqs intrpt_button_isr s' irqs) = led_spec s' irqs) \<and>
    (intrpt_init True e s = (0, s', t) \<longrightarrow>
      (bt_led_out s \<and> bt_led s \<in> {0, 1} \<longrightarrow> bt_led (run_irqs intrpt_button_isr s' irqs) = led_spec s' irqs) \<and>
      (\<not> bt_led_out s \<longrightarrow> bt_led (run_irqs intrpt_button_isr s' irqs) = bt_led s))"
  using irqs bottomhalf_loaded[of no_array e s s' t] intrpt_loaded[of False e s s' t]
    intrpt_loaded[of True e s s' t] run_intrpt[of s' irqs] intrpt_led_input[of s' irqs]
  by (auto simp: run_bottomhalf)

theorem buttons_switch_the_led_witness:
  "\<exists>s' t. bottomhalf_init True (second_line_env\<lparr>ret_irq1 := 56\<rparr>) (buttons_zero False 1) = (0, s', t) \<and>
    bt_led (run_irqs bottomhalf_button_isr s' [56, 55, 7]) = 1"
proof -
  let ?e = "second_line_env\<lparr>ret_irq1 := 56\<rparr>"
  obtain r s' t where x: "bottomhalf_init True ?e (buttons_zero False 1) = (r, s', t)" by (metis prod_cases3)
  then have x: "bottomhalf_init True ?e (buttons_zero False 1) = (0, s', t)"
    by (simp add: bottomhalf_init_def second_line_env_def Let_def)
  have "ret_irq0 ?e \<noteq> ret_irq1 ?e" by (simp add: second_line_env_def)
  from buttons_switch_the_led[OF this, of True "buttons_zero False 1" s' t "[56, 55, 7]"] x
    bottomhalf_loaded[OF x] show ?thesis by (auto simp: led_spec_def second_line_env_def)
qed

text \<open>
  For kernels before 6.10 the three load functions, when they fail, keep exactly
  the interrupt of the first button if the second button's line has no interrupt number after
  the first button's was requested, and keep nothing in all other cases.
\<close>

lemma buttons_init_leaks_irq:
  assumes "array_init d0 d1 e s = (r, s', t)" and "r \<noteq> 0"
  shows "replay [] t = Some (if second_line_fails e then [Irq (ret_irq0 e) d0] else []) \<and>
    intrpt_init False e s = array_init ''NULL'' ''NULL'' e s \<and>
    bottomhalf_init False e s = array_init ''NULL'' ''NULL'' e s \<and>
    bh_threaded_init False e s = array_init ''&buttons[0]'' ''&buttons[1]'' e s"
  using array_init_leak[OF assms]
  by (simp add: intrpt_init_def bottomhalf_init_def bh_threaded_init_def)

lemma buttons_init_leaks_irq_witness:
  "\<exists>s' t. intrpt_init False second_line_env (buttons_zero False 0) = (- ENODEV, s', t) \<and>
    replay [] t = Some [Irq 55 ''NULL'']"
proof -
  obtain r s' t where x: "array_init ''NULL'' ''NULL'' second_line_env (buttons_zero False 0) = (r, s', t)"
    by (metis prod_cases3)
  then have r: "r = - ENODEV" by (simp add: array_init_def second_line_env_def Let_def)
  from buttons_init_leaks_irq[OF x] x r show ?thesis
    by (simp add: second_line_env_def second_line_fails_def)
qed

text \<open>
  A load that succeeds leaves the LED's line configured as an output and low,
  except for \<open>intrpt.c\<close> from 6.10 on, which leaves direction and level of the line as they were.
\<close>

lemma buttons_init_led_direction:
  shows "(intrpt_init no_array e s = (0, s', t) \<longrightarrow>
      (if no_array then bt_led_out s' = bt_led_out s \<and> bt_led s' = bt_led s
       else bt_led_out s' \<and> bt_led s' = 0)) \<and>
    (bottomhalf_init no_array e s = (0, s', t) \<longrightarrow> bt_led_out s' \<and> bt_led s' = 0) \<and>
    (bh_threaded_init no_array e s = (0, s', t) \<longrightarrow> bt_led_out s' \<and> bt_led s' = 0)"
  by (cases no_array) (auto simp: button_loads led_output_def Let_def split: if_splits)

lemma buttons_init_led_direction_witness:
  "\<exists>s' t. bottomhalf_init True (second_line_env\<lparr>ret_irq1 := 56\<rparr>) (buttons_zero False 1) = (0, s', t) \<and>
    bt_led_out s' \<and> bt_led s' = 0"
proof -
  obtain r s' t where x: "bottomhalf_init True (second_line_env\<lparr>ret_irq1 := 56\<rparr>)
      (buttons_zero False 1) = (r, s', t)" by (metis prod_cases3)
  then have "r = 0" by (simp add: bottomhalf_init_def second_line_env_def Let_def)
  with buttons_init_led_direction[of True _ _ s' t] x show ?thesis by blast
qed

text \<open>
  Unloading \<open>bottomhalf.c\<close> frees the interrupts but leaves the work queued that an
  interrupt has queued and the worker has not run: its function is then gone.
\<close>

lemma bottomhalf_unload_leaves_work:
  assumes "bottomhalf_init no_array e s0 = (0, s, t)"
  shows "\<exists>h. replay [] t = Some h \<and> replay h (bottomhalf_exit no_array s) = Some [] \<and>
    bt_work (buttons_exit_state (snd (bottomhalf_button_isr s irq))) \<and>
    \<not> bt_work (buttons_exit_state (bottomhalf_work_fn (snd (bottomhalf_button_isr s irq))))"
proof -
  have "\<exists>h. replay [] t = Some h \<and> replay h (bottomhalf_exit no_array s) = Some []"
    using assms by (cases no_array) (auto simp: mod_init split: if_splits)
  moreover have "bt_work (buttons_exit_state s) = bt_work s" for s
    by (simp add: buttons_exit_state_def set_led_def)
  moreover have "bt_work (snd (bottomhalf_button_isr s irq))"
    by (simp add: bottomhalf_button_isr_def Let_def)
  ultimately show ?thesis by (simp add: bottomhalf_work_fn_def)
qed

lemma bottomhalf_unload_leaves_work_witness:
  "\<exists>s t. bottomhalf_init True (second_line_env\<lparr>ret_irq1 := 56\<rparr>) (buttons_zero False 0) = (0, s, t) \<and>
    bt_work (buttons_exit_state (snd (bottomhalf_button_isr s 55)))"
proof -
  obtain r s t where x: "bottomhalf_init True (second_line_env\<lparr>ret_irq1 := 56\<rparr>)
      (buttons_zero False 0) = (r, s, t)" by (metis prod_cases3)
  then have "r = 0" by (simp add: bottomhalf_init_def second_line_env_def Let_def)
  with bottomhalf_unload_leaves_work[of True _ _ s t 55] x show ?thesis by auto
qed

end
