(* ===== verification/Gpio_Led.thy ===== *)
theory Gpio_Led
  imports User_Memory Resources
begin

text \<open>
  \<open>led.c\<close>: a character device that switches a LED on GPIO line 4. Its load function acquires
  five resources one after the other and releases them in the reverse order when a later step fails;
  \<open>dht11.c\<close> does the same.
\<close>

section \<open>State\<close>

record led =
  ld_control_signal :: "char list"
  ld_device_buffer_size :: nat
  ld_major_num :: int
  ld_minor_num :: int
  ld_dev_num :: int
  ld_level :: int

definition led_BUF_LEN :: nat where
  "led_BUF_LEN = 2"

definition led_line :: nat where
  "led_line = 4"

definition led_zero :: led where
  "led_zero = \<lparr>ld_control_signal = replicate led_BUF_LEN NUL, ld_device_buffer_size = 0,
     ld_major_num = 0, ld_minor_num = 0, ld_dev_num = 0, ld_level = 0\<rparr>"

section \<open>File operations\<close>

definition led_open :: "led \<Rightarrow> int \<times> led" where
  "led_open s = (0, s)"

definition led_release :: "led \<Rightarrow> int \<times> led" where
  "led_release s = (0, s)"

text \<open>The result: the return value, the offset and the state.\<close>

definition led_write ::
    "not_copied \<Rightarrow> led \<Rightarrow> umem \<Rightarrow> nat \<Rightarrow> nat \<Rightarrow> int \<Rightarrow> (int \<times> int \<times> led) option" where
  "led_write nc s u buffer len offset =
     (let s = s\<lparr>ld_device_buffer_size := min led_BUF_LEN len\<rparr>
      in case copy_from_user nc u buffer (ld_device_buffer_size s) (ld_control_signal s) of
           None \<Rightarrow> None
         | Some (n, sig) \<Rightarrow>
             let s = s\<lparr>ld_control_signal := sig\<rparr> in
             if n \<noteq> 0 then Some (- EFAULT, offset, s)
             else case char_at (ld_control_signal s) 0 of None \<Rightarrow> None
             | Some c \<Rightarrow>
                 let s = (if c = CHR ''0'' then s\<lparr>ld_level := 0\<rparr>
                          else if c = CHR ''1'' then s\<lparr>ld_level := 1\<rparr>
                          else s)
                 in Some (int (ld_device_buffer_size s), offset + int (ld_device_buffer_size s), s))"

section \<open>Load and unload\<close>

text \<open>What the kernel's functions return; \<open>ret_dev_num\<close> is the number it allocates.\<close>

record cdev_env =
  ret_region :: int
  ret_dev_num :: int
  ret_cdev_add :: int
  ret_cdev_class :: int
  ret_cdev_device :: int
  ret_gpio_request :: int
  ret_gpio_direction :: int

definition MKDEV :: "int \<Rightarrow> int \<Rightarrow> int" where
  "MKDEV major minor = major * 2 ^ 20 + minor"

text \<open>The labels of the load function, each of which falls through to the next.\<close>

definition cdev_fail1 :: "int \<Rightarrow> event list" where
  "cdev_fail1 dev_num = [Rel ChrRegion]"

definition cdev_fail2 :: "int \<Rightarrow> event list" where
  "cdev_fail2 dev_num = Rel Cdev # cdev_fail1 dev_num"

definition cdev_fail3 :: "int \<Rightarrow> event list" where
  "cdev_fail3 dev_num = Rel DevClass # cdev_fail2 dev_num"

definition cdev_fail4 :: "int \<Rightarrow> event list" where
  "cdev_fail4 dev_num = Drop (DevNode dev_num) # cdev_fail3 dev_num"

definition cdev_fail5 :: "int \<Rightarrow> nat \<Rightarrow> event list" where
  "cdev_fail5 dev_num line = Rel (Gpio line) # cdev_fail4 dev_num"

definition led_init :: "cdev_env \<Rightarrow> led \<Rightarrow> int \<times> led \<times> event list" where [mod_init]:
  "led_init e s =
     (let s = (if ld_major_num s \<noteq> 0
               then s\<lparr>ld_dev_num := MKDEV (ld_major_num s) (ld_minor_num s)\<rparr>
               else if ret_region e < 0 then s else s\<lparr>ld_dev_num := ret_dev_num e\<rparr>);
          d = ld_dev_num s
      in if ret_region e < 0 then (ret_region e, s, [])
         else let t = [Acq ChrRegion] in
         if ret_cdev_add e \<noteq> 0 then (ret_cdev_add e, s, t @ cdev_fail1 d)
         else let t = t @ [Acq Cdev] in
         if is_err (ret_cdev_class e) then (ret_cdev_class e, s, t @ cdev_fail2 d)
         else let t = t @ [Acq DevClass] in
         if is_err (ret_cdev_device e) then (ret_cdev_device e, s, t @ cdev_fail3 d)
         else let t = t @ [Acq (DevNode d)] in
         if ret_gpio_request e \<noteq> 0 then (ret_gpio_request e, s, t @ cdev_fail4 d)
         else let t = t @ [Acq (Gpio led_line)] in
         if ret_gpio_direction e \<noteq> 0 then (ret_gpio_direction e, s, t @ cdev_fail5 d led_line)
         else (0, s\<lparr>ld_level := 0\<rparr>, t))"

definition led_exit :: "led \<Rightarrow> event list" where [mod_init]:
  "led_exit s = Rel (Gpio led_line) # Drop (DevNode (ld_dev_num s)) #
     [Rel DevClass, Rel Cdev, Rel ChrRegion]"

lemmas cdev_cleanup [mod_init] =
  cdev_fail1_def cdev_fail2_def cdev_fail3_def cdev_fail4_def cdev_fail5_def
  Let_def is_err_def

interpretation led_mod: lkm_module led_init led_exit
  by (rule lkm_moduleI) (auto simp: mod_init split: if_splits)

section \<open>What a write does\<close>

definition led_good :: "led \<Rightarrow> bool" where
  "led_good s \<longleftrightarrow> length (ld_control_signal s) = led_BUF_LEN"

lemma led_zero_good: "led_good led_zero"
  by (simp add: led_good_def led_zero_def)

text \<open>The level after the command \<open>c\<close>.\<close>

definition led_command :: "char \<Rightarrow> int \<Rightarrow> int" where
  "led_command c level = (if c = CHR ''0'' then 0 else if c = CHR ''1'' then 1 else level)"

lemma led_write_ok:
  assumes nc: "user_access nc" and g: "led_good s" and m: "mapped u a (min 2 len)"
  shows "\<exists>s'. led_write nc s u a len off = Some (int (min 2 len), off + int (min 2 len), s') \<and>
    led_good s' \<and>
    ld_level s' = led_command (if len = 0 then ld_control_signal s ! 0 else get_user u a) (ld_level s) \<and>
    ld_control_signal s' ! 0 = (if len = 0 then ld_control_signal s ! 0 else get_user u a)"
proof -
  let ?b = "get_bytes u a (min 2 len)"
  let ?p = "put_front ?b (ld_control_signal s)"
  have l: "length (ld_control_signal s) = 2" using g by (simp add: led_good_def led_BUF_LEN_def)
  have p: "length ?p = 2" using l by simp
  have c: "?p ! 0 = (if len = 0 then ld_control_signal s ! 0 else get_user u a)"
    by (cases "len = 0") (simp_all add: put_front_nth_below)
  from user_access.copy_from_user_ok[OF nc m, of "ld_control_signal s"] l
  have "copy_from_user nc u a (min 2 len) (ld_control_signal s) = Some (0, ?p)" by simp
  with p c show ?thesis
    by (auto simp: led_write_def Let_def led_BUF_LEN_def char_at_def led_command_def led_good_def)
qed

lemma led_write_fault:
  assumes nc: "user_access nc" and g: "led_good s" and m: "\<not> mapped u a (min 2 len)"
  shows "\<exists>s'. led_write nc s u a len off = Some (- EFAULT, off, s') \<and> led_good s' \<and>
    ld_level s' = ld_level s"
proof -
  have "min 2 len \<le> length (ld_control_signal s)" using g by (simp add: led_good_def led_BUF_LEN_def)
  from user_access.copy_from_user_fault[OF nc m this] g show ?thesis
    by (auto simp: led_write_def Let_def led_BUF_LEN_def led_good_def)
qed

section \<open>Properties\<close>

text \<open>
  A write takes at most two bytes. When they are accessible the first one decides:
  \<open>0\<close> switches the LED off, \<open>1\<close> switches it on, any other leaves it; when they are not, the write
  fails with \<open>-EFAULT\<close> and leaves the LED. A write of no bytes repeats the command that is
  still in the buffer.
\<close>

lemma led_write_switches:
  assumes nc: "user_access nc" and g: "led_good s"
  shows "\<exists>r off' s'. led_write nc s u a len off = Some (r, off', s') \<and> led_good s' \<and>
    (if mapped u a (min 2 len)
     then r = int (min 2 len) \<and> off' = off + r \<and>
       ld_level s' =
         led_command (if len = 0 then ld_control_signal s ! 0 else get_user u a) (ld_level s)
     else r = - EFAULT \<and> off' = off \<and> ld_level s' = ld_level s)"
  using led_write_ok[OF nc g, of u a len off] led_write_fault[OF nc g, of u a len off]
  by (cases "mapped u a (min 2 len)") auto

lemma led_write_switches_witness:
  "\<exists>r off' s'. led_write bytewise led_zero (umem_with 8 ''1'') 8 1 0 = Some (r, off', s') \<and>
    r = 1 \<and> ld_level s' = 1"
proof -
  have "get_user (umem_with 8 ''1'') 8 = CHR ''1''"
    by (subst get_user_umem_with) simp_all
  with led_write_switches[OF bytewise.user_access_axioms led_zero_good, of "umem_with 8 ''1''" 8 1 0]
  show ?thesis by (auto simp: led_command_def)
qed

end
