(* ===== verification/Dht11.thy ===== *)
theory Dht11
  imports Vfs Gpio_Led
begin

text \<open>
  \<open>dht11.c\<close>: a temperature and humidity sensor on one GPIO line. Opening the device reads the
  sensor, reading the device gives the values as text.

  Time is counted in microseconds from the start of an attempt to read the sensor; only the
  delays of the code pass time. \<open>line t\<close> is the level of the line at time \<open>t\<close>. The sensor is a
  function of whether it got the start signal: the code drives the line low, which only
  an output does.
\<close>

section \<open>State\<close>

record dht11 =
  dh_msg :: "char list"
  dh_out :: bool
  dh_major_num :: int
  dh_minor_num :: int
  dh_dev_num :: int

definition dht11_line :: nat where
  "dht11_line = 575"

definition dht11_zero :: dht11 where
  "dht11_zero = \<lparr>dh_msg = replicate 64 NUL, dh_out = False, dh_major_num = 0, dh_minor_num = 0,
     dh_dev_num = 0\<rparr>"

section \<open>Reading the sensor\<close>

text \<open>
  \<open>while (gpio_get_value (pin) == level && timeout--) udelay (1)\<close>: the time and \<open>timeout\<close> after
  the loop.
\<close>

fun wait_while :: "(nat \<Rightarrow> bool) \<Rightarrow> bool \<Rightarrow> nat \<Rightarrow> nat \<Rightarrow> nat \<times> int" where
  "wait_while line level 0 t = (t, if line t = level then - 1 else 0)"
| "wait_while line level (Suc timeout) t =
     (if line t = level then wait_while line level timeout (Suc t) else (t, int (Suc timeout)))"

text \<open>The inner loop over the bits of a byte; \<open>Inl t\<close> is a timeout at time \<open>t\<close>.\<close>

fun dht11_bits :: "(nat \<Rightarrow> bool) \<Rightarrow> nat \<Rightarrow> nat \<Rightarrow> 8 word \<Rightarrow> nat + (nat \<times> 8 word)" where
  "dht11_bits line 0 t byte = Inr (t, byte)"
| "dht11_bits line (Suc i) t byte =
     (let (t, timeout) = wait_while line True 300 t in
      if timeout = - 1 then Inl t
      else let (t, timeout) = wait_while line False 300 t in
      if timeout = - 1 then Inl t
      else let t = t + 50;
               byte = push_bit 1 byte;
               byte = (if line t then byte OR 1 else byte)
           in dht11_bits line i t byte)"

fun dht11_bytes :: "(nat \<Rightarrow> bool) \<Rightarrow> nat \<Rightarrow> nat \<Rightarrow> 8 word list \<Rightarrow> nat + (nat \<times> 8 word list)" where
  "dht11_bytes line 0 t sensor_data = Inr (t, sensor_data)"
| "dht11_bytes line (Suc j) t sensor_data =
     (case dht11_bits line 8 t 0 of
        Inl t \<Rightarrow> Inl t
      | Inr (t, byte) \<Rightarrow> dht11_bytes line j t (sensor_data @ [byte]))"

definition dht11_text :: "8 word \<Rightarrow> 8 word \<Rightarrow> char list" where
  "dht11_text humidity temperature =
     ''Humidity: '' @ dec (uint humidity) @ ''%'' @ [NL] @
     ''Temperature: '' @ dec (uint temperature) @ '' deg C'' @ [NL]"

definition dht11_read_data ::
    "(bool \<Rightarrow> nat \<Rightarrow> bool) \<Rightarrow> dht11 \<Rightarrow> (int \<times> nat \<times> dht11) option" where
  "dht11_read_data sensor s =
     (let line = sensor (dh_out s);
          t = 20000 + 30;
          s = s\<lparr>dh_out := False\<rparr>;
          t = t + 2;
          (t, timeout) = wait_while line True 300 t in
      if timeout = - 1 then Some (- ETIMEDOUT, t, s)
      else let (t, timeout) = wait_while line False 300 t in
      if timeout = - 1 then Some (- ETIMEDOUT, t, s)
      else let (t, timeout) = wait_while line True 300 t in
      if timeout = - 1 then Some (- ETIMEDOUT, t, s)
      else case dht11_bytes line 5 t [] of
             Inl t \<Rightarrow> Some (- ETIMEDOUT, t, s)
           | Inr (t, d) \<Rightarrow>
               if d ! 4 \<noteq> d ! 0 + d ! 1 + d ! 2 + d ! 3 then Some (- EIO, t, s)
               else (case store_str (dh_msg s) (dht11_text (d ! 0) (d ! 2)) of
                       None \<Rightarrow> None
                     | Some msg \<Rightarrow> Some (0, t, s\<lparr>dh_out := True, dh_msg := msg\<rparr>)))"

section \<open>File operations\<close>

text \<open>\<open>sensors k\<close> is the sensor in attempt number \<open>k\<close>.\<close>

fun dht11_open_loop ::
    "(nat \<Rightarrow> bool \<Rightarrow> nat \<Rightarrow> bool) \<Rightarrow> nat \<Rightarrow> nat \<Rightarrow> int \<Rightarrow> dht11 \<Rightarrow> (int \<times> dht11) option" where
  "dht11_open_loop sensors retry 0 ret s = Some (ret, s\<lparr>dh_out := True\<rparr>)"
| "dht11_open_loop sensors retry (Suc n) ret s =
     (case dht11_read_data (sensors retry) s of
        None \<Rightarrow> None
      | Some (ret, t, s) \<Rightarrow>
          if ret = 0 then Some (0, s) else dht11_open_loop sensors (Suc retry) n ret s)"

definition dht11_open :: "(nat \<Rightarrow> bool \<Rightarrow> nat \<Rightarrow> bool) \<Rightarrow> dht11 \<Rightarrow> (int \<times> dht11) option" where
  "dht11_open sensors s = dht11_open_loop sensors 0 5 0 s"

definition dht11_release :: "dht11 \<Rightarrow> int \<times> dht11" where
  "dht11_release s = (0, s)"

definition dht11_read ::
    "not_copied \<Rightarrow> dht11 \<Rightarrow> umem \<Rightarrow> nat \<Rightarrow> nat \<Rightarrow> int \<Rightarrow> read_result option" where
  "dht11_read nc s u buffer len offset =
     (if \<not> terminated (dh_msg s) then None
      else let msg_len = int (length (cstr (dh_msg s))) in
      if msg_len \<le> offset then Some (0, offset, u)
      else if offset < 0 then None
      else let remain = nat (msg_len - offset);
               bytes_read = min len remain;
               (n, u) = copy_to_user nc u buffer (take bytes_read (drop (nat offset) (dh_msg s)))
           in if n \<noteq> 0 then Some (- EFAULT, offset, u)
              else Some (int bytes_read, offset + int bytes_read, u))"

section \<open>Load and unload\<close>

definition dht11_init :: "cdev_env \<Rightarrow> dht11 \<Rightarrow> int \<times> dht11 \<times> event list" where [mod_init]:
  "dht11_init e s =
     (let s = (if dh_major_num s \<noteq> 0
               then s\<lparr>dh_dev_num := MKDEV (dh_major_num s) (dh_minor_num s)\<rparr>
               else if ret_region e < 0 then s else s\<lparr>dh_dev_num := ret_dev_num e\<rparr>);
          d = dh_dev_num s
      in if ret_region e < 0 then (ret_region e, s, [])
         else let t = [Acq ChrRegion] in
         if ret_cdev_add e \<noteq> 0 then (ret_cdev_add e, s, t @ cdev_fail1 d)
         else let t = t @ [Acq Cdev] in
         if is_err (ret_cdev_class e) then (ret_cdev_class e, s, t @ cdev_fail2 d)
         else let t = t @ [Acq DevClass] in
         if is_err (ret_cdev_device e) then (ret_cdev_device e, s, t @ cdev_fail3 d)
         else let t = t @ [Acq (DevNode d)] in
         if ret_gpio_request e \<noteq> 0 then (ret_gpio_request e, s, t @ cdev_fail4 d)
         else let t = t @ [Acq (Gpio dht11_line)] in
         if ret_gpio_direction e \<noteq> 0 then (ret_gpio_direction e, s, t @ cdev_fail5 d dht11_line)
         else (0, s\<lparr>dh_out := True\<rparr>, t))"

definition dht11_exit :: "dht11 \<Rightarrow> event list" where [mod_init]:
  "dht11_exit s = Rel (Gpio dht11_line) # Drop (DevNode (dh_dev_num s)) #
     [Rel DevClass, Rel Cdev, Rel ChrRegion]"

interpretation dht11_mod: lkm_module dht11_init dht11_exit
  by (rule lkm_moduleI) (auto simp: mod_init split: if_splits)

section \<open>Waveforms\<close>

text \<open>
  A waveform is a list of levels with their durations; after the last one the line is high. The
  line follows a waveform from a time on.
\<close>

fun level_at :: "(bool \<times> nat) list \<Rightarrow> nat \<Rightarrow> bool" where
  "level_at [] t = True"
| "level_at ((b, d) # segs) t = (if t < d then b else level_at segs (t - d))"

definition follows :: "(nat \<Rightarrow> bool) \<Rightarrow> nat \<Rightarrow> (bool \<times> nat) list \<Rightarrow> bool" where
  "follows line t segs \<longleftrightarrow> (\<forall>k. line (t + k) = level_at segs k)"

lemma follows_now: "follows line t segs \<Longrightarrow> line t = level_at segs 0"
  by (metis add_0_right follows_def)

lemma follows_later: "follows line t ((b, d) # segs) \<Longrightarrow> follows line (t + d) segs"
  by (auto simp: follows_def add.assoc)

lemma follows_part:
  assumes "follows line t ((b, d) # segs)" and "k \<le> d"
  shows "follows line (t + k) ((b, d - k) # segs)"
  unfolding follows_def
proof
  fix j
  have "line (t + (k + j)) = level_at ((b, d) # segs) (k + j)"
    using assms(1) by (simp only: follows_def)
  then show "line (t + k + j) = level_at ((b, d - k) # segs) j"
    using assms(2) by (auto simp: add.assoc less_diff_conv add.commute[of j])
qed

lemma follows_zero: "follows line t ((b, 0) # segs) = follows line t segs"
  by (simp add: follows_def)

lemma follows_level: "follows line t ((b, d) # segs) \<Longrightarrow> k < d \<Longrightarrow> line (t + k) = b"
  by (simp add: follows_def)

text \<open>A level of \<open>r\<close> microseconds ends the loop after \<open>r\<close> rounds.\<close>

lemma wait_while_follows:
  assumes "follows line t ((lv, r) # (\<not> lv, d) # segs)" and "0 < d" and "r \<le> n"
  shows "wait_while line lv n t = (t + r, int (n - r))"
  using assms
proof (induction n arbitrary: r t)
  case 0
  then have "line t \<noteq> lv" using follows_now by fastforce
  with 0 show ?case by simp
next
  case (Suc n)
  show ?case
  proof (cases r)
    case 0
    with Suc.prems have "line t \<noteq> lv" using follows_now by fastforce
    with 0 show ?thesis by simp
  next
    case r: (Suc r')
    then have "line t = lv" using follows_now[OF Suc.prems(1)] by simp
    moreover from follows_part[OF Suc.prems(1), of 1] r
    have "follows line (Suc t) ((lv, r') # (\<not> lv, d) # segs)" by simp
    from Suc.IH[OF this Suc.prems(2)] r Suc.prems(3)
    have "wait_while line lv n (Suc t) = (Suc t + r', int (n - r'))" by simp
    ultimately show ?thesis using r by simp
  qed
qed

section \<open>Decoding\<close>

text \<open>
  A bit is a high level of \<open>z\<close> microseconds for 0 or \<open>h\<close> for 1, and then a low level of \<open>l\<close>. These
  are the durations the code can decode; the sensor's data sheet has 50 for \<open>l\<close>, 26 to 28 for
  \<open>z\<close> and 70 for \<open>h\<close>.
\<close>

definition dht11_timing :: "nat \<Rightarrow> nat \<Rightarrow> nat \<Rightarrow> bool" where
  "dht11_timing l z h \<longleftrightarrow> 0 < l \<and> l \<le> 300 \<and> 0 < z \<and> z \<le> 50 \<and> 50 < z + l \<and> 50 < h \<and> h \<le> 350"

definition bit_segs :: "nat \<Rightarrow> nat \<Rightarrow> nat \<Rightarrow> bool list \<Rightarrow> (bool \<times> nat) list" where
  "bit_segs l z h bs = concat (map (\<lambda>b. [(True, if b then h else z), (False, l)]) bs)"

definition shift_in :: "8 word \<Rightarrow> bool \<Rightarrow> 8 word" where
  "shift_in w b = (if b then push_bit 1 w OR 1 else push_bit 1 w)"

definition bits_of_byte :: "8 word \<Rightarrow> bool list" where
  "bits_of_byte w = map (bit w) [7, 6, 5, 4, 3, 2, 1, 0]"

lemma shift_in_bits: "foldl shift_in 0 (bits_of_byte w) = w"
proof (rule bit_word_eqI)
  fix k
  assume "k < LENGTH(8)"
  then consider "k = 0" | "k = 1" | "k = 2" | "k = 3" | "k = 4" | "k = 5" | "k = 6" | "k = 7"
    by (simp add: numeral_eq_Suc less_Suc_eq) blast
  then show "bit (foldl shift_in 0 (bits_of_byte w)) k = bit w k"
    by cases (simp_all add: bits_of_byte_def shift_in_def bit_simps bit_0)
qed

lemma dht11_bits_step:
  assumes f: "follows line t ((True, r) # (False, l') # (True, if b then h else z) # (False, l) # segs)"
    and tm: "dht11_timing l z h" and r: "r \<le> 300" and l': "0 < l'" "l' \<le> 300"
  shows "\<exists>t' r' l''. dht11_bits line (Suc i) t byte = dht11_bits line i t' (shift_in byte b) \<and>
    follows line t' ((True, r') # (False, l'') # segs) \<and> r' \<le> 300 \<and> 0 < l'' \<and> l'' \<le> 300"
proof -
  let ?d = "if b then h else z"
  have d: "0 < ?d" using tm by (auto simp: dht11_timing_def)
  have w1: "wait_while line True 300 t = (t + r, int (300 - r))"
    by (rule wait_while_follows[of _ _ True r l']) (use f l' r in simp_all)
  have f1: "follows line (t + r) ((False, l') # (True, ?d) # (False, l) # segs)"
    by (rule follows_later[OF f])
  have w2: "wait_while line False 300 (t + r) = (t + r + l', int (300 - l'))"
    by (rule wait_while_follows[of _ _ False l' ?d]) (use f1 l' d in simp_all)
  let ?t = "t + r + l'"
  have f2: "follows line ?t ((True, ?d) # (False, l) # segs)" by (rule follows_later[OF f1])
  have step: "dht11_bits line (Suc i) t byte =
      dht11_bits line i (?t + 50) (shift_in byte (line (?t + 50)))"
    by (simp add: w1 w2 shift_in_def)
  show ?thesis
  proof (cases b)
    case True
    then have h: "?d = h" "50 < h" "h \<le> 350" using tm by (simp_all add: dht11_timing_def)
    have "line (?t + 50) = True" by (rule follows_level[OF f2]) (use h in simp)
    moreover have "follows line (?t + 50) ((True, h - 50) # (False, l) # segs)"
      using follows_part[OF f2, of 50] h by simp
    moreover have "h - 50 \<le> 300" "0 < l" "l \<le> 300" using h(3) tm by (auto simp: dht11_timing_def)
    ultimately show ?thesis using step True by metis
  next
    case False
    then have z: "?d = z" "z \<le> 50" "50 - z < l" using tm by (auto simp: dht11_timing_def)
    have f3: "follows line (?t + z) ((False, l) # segs)" using follows_later[OF f2] z(1) by simp
    have "line (?t + z + (50 - z)) = False" by (rule follows_level[OF f3]) (use z in simp)
    moreover have "follows line (?t + z + (50 - z)) ((False, l - (50 - z)) # segs)"
      by (rule follows_part[OF f3]) (use z in simp)
    moreover have "?t + z + (50 - z) = ?t + 50" using z by simp
    moreover have "(0::nat) \<le> 300" "0 < l - (50 - z)" "l - (50 - z) \<le> 300"
      using z tm by (auto simp: dht11_timing_def)
    ultimately show ?thesis using step False follows_zero by metis
  qed
qed

lemma dht11_bits_decode:
  assumes "follows line t ((True, r) # (False, l') # bit_segs l z h bs @ segs)"
    and tm: "dht11_timing l z h" and "r \<le> 300" "0 < l'" "l' \<le> 300"
  shows "\<exists>t' r' l''. dht11_bits line (length bs) t byte = Inr (t', foldl shift_in byte bs) \<and>
    follows line t' ((True, r') # (False, l'') # segs) \<and> r' \<le> 300 \<and> 0 < l'' \<and> l'' \<le> 300"
  using assms(1,3,4,5)
proof (induction bs arbitrary: t r l' byte)
  case Nil
  then show ?case by (auto simp: bit_segs_def)
next
  case (Cons b bs)
  then have "follows line t ((True, r) # (False, l') # (True, if b then h else z) # (False, l) #
      bit_segs l z h bs @ segs)" by (simp add: bit_segs_def)
  from dht11_bits_step[OF this tm Cons.prems(2-4), of "length bs" byte] obtain t' r' l'' where
    1: "dht11_bits line (Suc (length bs)) t byte = dht11_bits line (length bs) t' (shift_in byte b)"
    and 2: "follows line t' ((True, r') # (False, l'') # bit_segs l z h bs @ segs)"
    "r' \<le> 300" "0 < l''" "l'' \<le> 300" by blast
  from Cons.IH[OF 2, of "shift_in byte b"] 1 show ?case by simp
qed

lemma dht11_bytes_decode:
  assumes "follows line t ((True, r) # (False, l') # bit_segs l z h (concat (map bits_of_byte ws)))"
    and tm: "dht11_timing l z h" and "r \<le> 300" "0 < l'" "l' \<le> 300"
  shows "\<exists>t'. dht11_bytes line (length ws) t ds = Inr (t', ds @ ws)"
  using assms(1,3,4,5)
proof (induction ws arbitrary: t r l' ds)
  case Nil
  then show ?case by simp
next
  case (Cons w ws)
  let ?rest = "bit_segs l z h (concat (map bits_of_byte ws))"
  have "follows line t ((True, r) # (False, l') # bit_segs l z h (bits_of_byte w) @ ?rest)"
    using Cons.prems(1) by (simp add: bit_segs_def)
  from dht11_bits_decode[OF this tm Cons.prems(2-4), of 0] obtain t' r' l'' where
    1: "dht11_bits line (length (bits_of_byte w)) t 0 = Inr (t', w)"
    and 2: "follows line t' ((True, r') # (False, l'') # ?rest)" "r' \<le> 300" "0 < l''" "l'' \<le> 300"
    by (auto simp: shift_in_bits)
  have "length (bits_of_byte w) = 8" by (simp add: bits_of_byte_def)
  with 1 Cons.IH[OF 2, of "ds @ [w]"] show ?case by simp
qed

section \<open>A whole answer\<close>

text \<open>
  What the line does after the start signal: it stays high for \<open>a\<close> microseconds after the code
  began to look, then the sensor answers with a low and a high level and sends its bytes.
\<close>

definition dht11_answer :: "nat \<Rightarrow> nat \<Rightarrow> nat \<Rightarrow> nat \<Rightarrow> nat \<Rightarrow> nat \<Rightarrow> 8 word list \<Rightarrow> (bool \<times> nat) list" where
  "dht11_answer a lo hi l z h ws =
     (True, 20032 + a) # (False, lo) # (True, hi) # (False, l) #
       bit_segs l z h (concat (map bits_of_byte ws))"

definition answer_ok :: "nat \<Rightarrow> nat \<Rightarrow> nat \<Rightarrow> nat \<Rightarrow> nat \<Rightarrow> nat \<Rightarrow> bool" where
  "answer_ok a lo hi l z h \<longleftrightarrow> a \<le> 300 \<and> 0 < lo \<and> lo \<le> 300 \<and> 0 < hi \<and> hi \<le> 300 \<and> dht11_timing l z h"

definition dht11_good :: "dht11 \<Rightarrow> bool" where
  "dht11_good s \<longleftrightarrow> length (dh_msg s) = 64 \<and> terminated (dh_msg s)"

lemma dht11_zero_good: "dht11_good dht11_zero"
  by (simp add: dht11_good_def dht11_zero_def terminated_def)

lemma dht11_frame:
  assumes line: "\<And>t. sensor (dh_out s) t = level_at (dht11_answer a lo hi l z h ws) t"
    and ok: "answer_ok a lo hi l z h" and ws: "length ws = 5"
  shows "\<exists>t. dht11_read_data sensor s =
    (if ws ! 4 \<noteq> ws ! 0 + ws ! 1 + ws ! 2 + ws ! 3 then Some (- EIO, t, s\<lparr>dh_out := False\<rparr>)
     else (case store_str (dh_msg s) (dht11_text (ws ! 0) (ws ! 2)) of
             None \<Rightarrow> None
           | Some msg \<Rightarrow> Some (0, t, s\<lparr>dh_out := True, dh_msg := msg\<rparr>)))"
proof -
  let ?l = "sensor (dh_out s)"
  let ?bits = "bit_segs l z h (concat (map bits_of_byte ws))"
  have f0: "follows ?l 0 (dht11_answer a lo hi l z h ws)" by (simp add: follows_def line)
  have lh: "a \<le> 300" "0 < lo" "lo \<le> 300" "0 < hi" "hi \<le> 300" "0 < l" "l \<le> 300"
    and tm: "dht11_timing l z h"
    using ok by (simp_all add: answer_ok_def dht11_timing_def)
  have f1: "follows ?l 20032 ((True, a) # (False, lo) # (True, hi) # (False, l) # ?bits)"
    using follows_part[OF f0[unfolded dht11_answer_def], of 20032] by simp
  have w1: "wait_while ?l True 300 20032 = (20032 + a, int (300 - a))"
    by (rule wait_while_follows[of _ _ True a lo]) (use f1 lh in simp_all)
  have f2: "follows ?l (20032 + a) ((False, lo) # (True, hi) # (False, l) # ?bits)"
    by (rule follows_later[OF f1])
  have w2: "wait_while ?l False 300 (20032 + a) = (20032 + a + lo, int (300 - lo))"
    by (rule wait_while_follows[of _ _ False lo hi]) (use f2 lh in simp_all)
  have f3: "follows ?l (20032 + a + lo) ((True, hi) # (False, l) # ?bits)"
    by (rule follows_later[OF f2])
  have w3: "wait_while ?l True 300 (20032 + a + lo) = (20032 + a + lo + hi, int (300 - hi))"
    by (rule wait_while_follows[of _ _ True hi l]) (use f3 lh in simp_all)
  have f4: "follows ?l (20032 + a + lo + hi) ((True, 0) # (False, l) # ?bits)"
    using follows_later[OF f3] by (simp add: follows_zero)
  from dht11_bytes_decode[OF f4 tm, of "[]"] lh ws obtain t where
    "dht11_bytes ?l 5 (20032 + a + lo + hi) [] = Inr (t, ws)" by auto
  with w1 w2 w3 show ?thesis by (intro exI[of _ t]) (simp add: dht11_read_data_def split: option.split)
qed

section \<open>Time and errors\<close>

lemma wait_while_time: "wait_while line lv n t = (t', r) \<Longrightarrow> t' \<le> t + n"
  by (induction n arbitrary: t) (fastforce split: if_splits)+

lemma dht11_bits_time:
  "(case dht11_bits line n t byte of Inl t' \<Rightarrow> t' | Inr (t', b) \<Rightarrow> t') \<le> t + n * 650"
proof (induction n arbitrary: t byte)
  case 0
  then show ?case by simp
next
  case (Suc n)
  obtain t1 r1 where 1: "wait_while line True 300 t = (t1, r1)" by force
  obtain t2 r2 where 2: "wait_while line False 300 t1 = (t2, r2)" by force
  note w = wait_while_time[OF 1] wait_while_time[OF 2]
  show ?case
  proof (cases "r1 = - 1 \<or> r2 = - 1")
    case True
    with w show ?thesis by (auto simp: 1 2)
  next
    case False
    let ?b = "if line (t2 + 50) then push_bit 1 byte OR 1 else push_bit 1 byte"
    have "dht11_bits line (Suc n) t byte = dht11_bits line n (t2 + 50) ?b"
      using False by (simp add: 1 2)
    with Suc[of "t2 + 50" ?b] w show ?thesis by (auto split: sum.splits prod.splits)
  qed
qed

lemma dht11_bytes_time:
  "(case dht11_bytes line n t ds of Inl t' \<Rightarrow> t' | Inr (t', d) \<Rightarrow> t') \<le> t + n * 5200"
proof (induction n arbitrary: t ds)
  case 0
  then show ?case by simp
next
  case (Suc n)
  note b = dht11_bits_time[of line 8 t 0]
  show ?case
  proof (cases "dht11_bits line 8 t 0")
    case (Inl t')
    with b show ?thesis by simp
  next
    case (Inr x)
    then obtain t' w where "dht11_bits line 8 t 0 = Inr (t', w)" by (cases x) simp
    with b Suc[of t' "ds @ [w]"] show ?thesis by (auto split: sum.splits prod.splits)
  qed
qed

lemma length_dec_byte: "length (dec (uint (w :: 8 word))) \<le> 4"
proof -
  have "uint w < 2 ^ 8" using uint_range_size[of w] by (simp add: word_size)
  then have "\<bar>uint w\<bar> < 10 ^ 3" by simp
  from length_dec[OF _ this] show ?thesis by simp
qed

lemma NUL_notin_dht11_text [simp]: "NUL \<notin> set (dht11_text h t)"
  by (simp add: dht11_text_def)

lemma length_dht11_text: "length (dht11_text h t) < 64"
  using length_dec_byte[of h] length_dec_byte[of t] by (simp add: dht11_text_def)

lemma dht11_store:
  assumes "dht11_good s"
  shows "\<exists>msg. store_str (dh_msg s) (dht11_text h t) = Some msg \<and> cstr msg = dht11_text h t \<and>
    length msg = 64 \<and> terminated msg"
proof -
  let ?t = "dht11_text h t"
  have l: "length ?t < length (dh_msg s)"
    using assms length_dht11_text[of h t] by (simp add: dht11_good_def)
  then have "length (?t @ [NUL]) \<le> length (dh_msg s)" by simp
  from length_put_front[OF this] store_str_Some[OF l] assms show ?thesis
    by (simp add: dht11_good_def del: length_append)
qed

lemma dht11_read_data_ok:
  assumes g: "dht11_good s"
  shows "\<exists>r t s'. dht11_read_data sensor s = Some (r, t, s') \<and> r \<in> {0, - ETIMEDOUT, - EIO} \<and>
    t \<le> 46932 \<and> dht11_good s' \<and> (dh_out s' \<longleftrightarrow> r = 0) \<and> (r \<noteq> 0 \<longrightarrow> dh_msg s' = dh_msg s)"
proof -
  let ?l = "sensor (dh_out s)"
  obtain t1 r1 where 1: "wait_while ?l True 300 20032 = (t1, r1)" by force
  obtain t2 r2 where 2: "wait_while ?l False 300 t1 = (t2, r2)" by force
  obtain t3 r3 where 3: "wait_while ?l True 300 t2 = (t3, r3)" by force
  have t1: "t1 \<le> 20332" using wait_while_time[OF 1] by simp
  have t2: "t2 \<le> 20632" using wait_while_time[OF 2] t1 by simp
  have t3: "t3 \<le> 20932" using wait_while_time[OF 3] t2 by simp
  note w = t1 t2 t3
  note b = dht11_bytes_time[of ?l 5 t3 "[]"]
  show ?thesis
  proof (cases "r1 = - 1 \<or> r2 = - 1 \<or> r3 = - 1")
    case True
    with w g show ?thesis by (auto simp: dht11_read_data_def 1 2 3 Let_def dht11_good_def)
  next
    case False
    show ?thesis
    proof (cases "dht11_bytes ?l 5 t3 []")
      case (Inl t)
      with b w g False show ?thesis by (auto simp: dht11_read_data_def 1 2 3 dht11_good_def)
    next
      case (Inr x)
      obtain t d where x: "x = (t, d)" by force
      obtain msg where m: "store_str (dh_msg s) (dht11_text (d ! 0) (d ! 2)) = Some msg"
        "length msg = 64" "terminated msg"
        using dht11_store[OF g, of "d ! 0" "d ! 2"] by blast
      have t: "t \<le> 46932" using b w Inr x by simp
      show ?thesis using Inr x m t False g
        by (cases "d ! 4 = d ! 0 + d ! 1 + d ! 2 + d ! 3")
          (simp_all add: dht11_read_data_def 1 2 3 dht11_good_def Let_def)
    qed
  qed
qed

lemma dht11_open_total:
  assumes g: "dht11_good s"
  shows "\<exists>r s'. dht11_open sensors s = Some (r, s') \<and> r \<in> {0, - ETIMEDOUT, - EIO} \<and>
    dht11_good s' \<and> dh_out s' \<and> (r \<noteq> 0 \<longrightarrow> dh_msg s' = dh_msg s)"
proof -
  have "\<exists>r s'. dht11_open_loop sensors k n ret s = Some (r, s') \<and>
      (ret \<in> {0, - ETIMEDOUT, - EIO} \<longrightarrow> r \<in> {0, - ETIMEDOUT, - EIO}) \<and>
      dht11_good s' \<and> dh_out s' \<and> (r \<noteq> 0 \<longrightarrow> dh_msg s' = dh_msg s)" if "dht11_good s" for k n ret s
    using that
  proof (induction n arbitrary: k ret s)
    case 0
    then show ?case by (simp add: dht11_good_def)
  next
    case (Suc n)
    from dht11_read_data_ok[OF Suc.prems, of "sensors k"] obtain r t s1 where
      1: "dht11_read_data (sensors k) s = Some (r, t, s1)" "r \<in> {0, - ETIMEDOUT, - EIO}"
      "dht11_good s1" "dh_out s1 \<longleftrightarrow> r = 0" "r \<noteq> 0 \<longrightarrow> dh_msg s1 = dh_msg s" by blast
    with Suc.IH[of s1 "Suc k" r] show ?case by auto
  qed
  from this[OF g, of 0 5 0] show ?thesis by (simp add: dht11_open_def)
qed

lemma dht11_no_answer:
  assumes "\<And>t. sensor (dh_out s) t"
  shows "dht11_read_data sensor s = Some (- ETIMEDOUT, 20332, s\<lparr>dh_out := False\<rparr>)"
proof -
  have "wait_while (sensor (dh_out s)) True n t = (t + n, - 1)" for n t
    by (induction n arbitrary: t) (simp_all add: assms)
  then show ?thesis by (simp add: dht11_read_data_def)
qed

lemma dht11_open_silent:
  assumes "\<And>k t. sensors k False t" and "\<not> dh_out s"
  shows "dht11_open_loop sensors k (Suc n) ret s = Some (- ETIMEDOUT, s\<lparr>dh_out := True\<rparr>)"
  using assms(2)
proof (induction n arbitrary: k ret s)
  case 0
  have "dht11_read_data (sensors k) s = Some (- ETIMEDOUT, 20332, s\<lparr>dh_out := False\<rparr>)"
    by (rule dht11_no_answer) (use 0 assms(1) in simp)
  then show ?case by simp
next
  case (Suc n)
  have "dht11_read_data (sensors k) s = Some (- ETIMEDOUT, 20332, s\<lparr>dh_out := False\<rparr>)"
    by (rule dht11_no_answer) (use Suc.prems assms(1) in simp)
  with Suc.IH[of "s\<lparr>dh_out := False\<rparr>" "Suc k" "- ETIMEDOUT"] show ?case
    by (simp del: dht11_open_loop.simps(2) add: dht11_open_loop.simps(2)[of _ _ "Suc n"])
qed

section \<open>Reading the text\<close>

lemma dht11_stream:
  assumes nc: "user_access nc"
  shows "stream_device (dht11_read nc) (\<lambda>s. cstr (dh_msg s)) dht11_good"
proof
  fix s u a n off
  assume g: "dht11_good s" and m: "mapped u a n" and off: "off < length (cstr (dh_msg s))"
  let ?k = "min n (length (cstr (dh_msg s)) - off)"
  have t: "terminated (dh_msg s)" using g by (simp add: dht11_good_def)
  have tk: "take ?k (drop off (dh_msg s)) = take n (drop off (cstr (dh_msg s)))"
  proof -
    have "take (length (cstr (dh_msg s))) (dh_msg s) = cstr (dh_msg s)"
      unfolding cstr_def by (rule takeWhile_eq_take[symmetric])
    then have "drop off (cstr (dh_msg s)) = take (length (cstr (dh_msg s)) - off) (drop off (dh_msg s))"
      by (metis drop_take)
    then show ?thesis by (simp add: min.commute)
  qed
  have "mapped u a (length (take n (drop off (cstr (dh_msg s)))))"
    by (rule mapped_mono[OF m]) simp
  from user_access.copy_to_user_ok[OF nc this] off t tk
  show "dht11_read nc s u a n (int off) = Some (int ?k, int (off + ?k),
      put_bytes u a (take n (drop off (cstr (dh_msg s)))))"
    by (simp add: dht11_read_def Let_def nat_diff_distrib)
next
  fix s u a n
  assume "dht11_good s" "mapped u a n"
  then show "\<exists>off'. dht11_read nc s u a n (int (length (cstr (dh_msg s)))) = Some (0, off', u)"
    by (auto simp: dht11_read_def dht11_good_def)
qed

section \<open>Properties\<close>

text \<open>
  C8 (functional): a sensor that answers the start signal of the first attempt with five bytes, the
  last of which is the sum of the others modulo 256, in any timing within the bounds, is
  decoded: the open succeeds, and a process that reads the device to the end, with any buffer,
  gets the first byte as the humidity and the third as the temperature.
\<close>

theorem dht11_open_then_read:
  assumes nc: "user_access nc" and g: "dht11_good s" and out: "dh_out s"
    and line: "\<And>t. sensors 0 True t = level_at (dht11_answer a lo hi l z h ws) t"
    and ok: "answer_ok a lo hi l z h" and ws: "length ws = 5"
    and sum: "ws ! 4 = ws ! 0 + ws ! 1 + ws ! 2 + ws ! 3"
    and m: "mapped u b n" and n: "0 < n"
  shows "\<exists>s'. dht11_open sensors s = Some (0, s') \<and> dht11_good s' \<and> dh_out s' \<and>
    read_all 65 (dht11_read nc s') u b n 0 [] = Some (0, dht11_text (ws ! 0) (ws ! 2))"
proof -
  let ?t = "dht11_text (ws ! 0) (ws ! 2)"
  obtain msg where msg: "store_str (dh_msg s) ?t = Some msg" "cstr msg = ?t"
    "length msg = 64" "terminated msg" using dht11_store[OF g, of "ws ! 0" "ws ! 2"] by blast
  have "\<And>t. sensors 0 (dh_out s) t = level_at (dht11_answer a lo hi l z h ws) t"
    using line out by simp
  from dht11_frame[where sensor = "sensors 0" and s = s, OF this ok ws] sum msg(1) obtain t where
    r: "dht11_read_data (sensors 0) s = Some (0, t, s\<lparr>dh_out := True, dh_msg := msg\<rparr>)" by auto
  let ?s = "s\<lparr>dh_out := True, dh_msg := msg\<rparr>"
  have o: "dht11_open sensors s = Some (0, ?s)"
    using r by (simp add: dht11_open_def numeral_eq_Suc)
  have g': "dht11_good ?s" using msg by (simp add: dht11_good_def)
  have "read_all 65 (dht11_read nc ?s) u b n (int 0) [] = Some (0, [] @ drop 0 (cstr (dh_msg ?s)))"
    by (rule stream_device.read_all_from[OF dht11_stream[OF nc] g' m n])
      (use msg(2) length_dht11_text[of "ws ! 0" "ws ! 2"] in auto)
  with o g' msg(2) show ?thesis by simp
qed

theorem dht11_open_then_read_witness:
  "\<exists>s'. dht11_open (\<lambda>k started. level_at (dht11_answer 10 80 80 50 27 70 [55, 0, 23, 0, 78]))
      (dht11_zero\<lparr>dh_out := True\<rparr>) = Some (0, s') \<and>
    read_all 65 (dht11_read bytewise s') (umem_with 4 []) 4 7 0 [] =
      Some (0, ''Humidity: 55%'' @ [NL] @ ''Temperature: 23 deg C'' @ [NL])"
proof -
  have g: "dht11_good (dht11_zero\<lparr>dh_out := True\<rparr>)"
    using dht11_zero_good by (simp add: dht11_good_def)
  have t: "dht11_text 55 23 = ''Humidity: 55%'' @ [NL] @ ''Temperature: 23 deg C'' @ [NL]"
    by (simp add: dht11_text_def dec_def digits.simps digit_values)
  from dht11_open_then_read[OF bytewise.user_access_axioms g, of
      "\<lambda>k started. level_at (dht11_answer 10 80 80 50 27 70 [55, 0, 23, 0, 78])"
      10 80 80 50 27 70 "[55, 0, 23, 0, 78]" "umem_with 4 []" 4 7]
  show ?thesis by (auto simp: answer_ok_def dht11_timing_def t)
qed

text \<open>
  C37 (bounds): whatever the line does, an attempt to read the sensor ends within 46932
  microseconds of delays, with 0, \<open>-ETIMEDOUT\<close> or \<open>-EIO\<close>, and leaves the message in its array;
  only a success changes the message. So does an open, of at most five attempts.
\<close>

theorem dht11_attempt_bounded:
  assumes g: "dht11_good s"
  shows "(\<exists>r t s'. dht11_read_data sensor s = Some (r, t, s') \<and> t \<le> 46932 \<and>
      r \<in> {0, - ETIMEDOUT, - EIO} \<and> dht11_good s' \<and> (r \<noteq> 0 \<longrightarrow> dh_msg s' = dh_msg s)) \<and>
    (\<exists>r s'. dht11_open sensors s = Some (r, s') \<and> r \<in> {0, - ETIMEDOUT, - EIO} \<and>
      dht11_good s' \<and> dh_out s' \<and> (r \<noteq> 0 \<longrightarrow> dh_msg s' = dh_msg s))"
proof
  show "\<exists>r t s'. dht11_read_data sensor s = Some (r, t, s') \<and> t \<le> 46932 \<and>
      r \<in> {0, - ETIMEDOUT, - EIO} \<and> dht11_good s' \<and> (r \<noteq> 0 \<longrightarrow> dh_msg s' = dh_msg s)"
    using dht11_read_data_ok[OF g, of sensor] by blast
  show "\<exists>r s'. dht11_open sensors s = Some (r, s') \<and> r \<in> {0, - ETIMEDOUT, - EIO} \<and>
      dht11_good s' \<and> dh_out s' \<and> (r \<noteq> 0 \<longrightarrow> dh_msg s' = dh_msg s)" by (rule dht11_open_total[OF g])
qed

theorem dht11_attempt_bounded_witness:
  "\<exists>r t s'. dht11_read_data (\<lambda>_ _. False) dht11_zero = Some (r, t, s') \<and> t \<le> 46932"
  using dht11_attempt_bounded[OF dht11_zero_good, of "\<lambda>_ _. False"] by blast

text \<open>
  The retries of an open cannot help. A failed attempt leaves the line an input, so
  no later attempt drives the start signal; with a sensor that stays silent without it, an
  open whose first attempt fails ends with \<open>-ETIMEDOUT\<close>, whatever the sensor would answer.
\<close>

lemma dht11_retries_in_vain:
  assumes g: "dht11_good s" and f: "dht11_read_data (sensors 0) s = Some (r, t, s1)" and r: "r \<noteq> 0"
    and silent: "\<And>k t. sensors k False t"
  shows "\<exists>s'. dht11_open sensors s = Some (- ETIMEDOUT, s') \<and> dh_msg s' = dh_msg s"
proof -
  from dht11_read_data_ok[OF g, of "sensors 0"] f r have "\<not> dh_out s1" "dh_msg s1 = dh_msg s" by auto
  with dht11_open_silent[of sensors s1 1 3 r, OF silent] f r show ?thesis
    by (auto simp: dht11_open_def numeral_eq_Suc)
qed

lemma dht11_retries_in_vain_witness:
  "\<exists>s'. dht11_open (\<lambda>k started. if started \<and> 0 < k
      then level_at (dht11_answer 10 80 80 50 27 70 [55, 0, 23, 0, 78]) else (\<lambda>_. True))
    (dht11_zero\<lparr>dh_out := True\<rparr>) = Some (- ETIMEDOUT, s')"
proof -
  let ?sensors = "\<lambda>k started. if started \<and> (0::nat) < k
      then level_at (dht11_answer 10 80 80 50 27 70 [55, 0, 23, 0, 78]) else (\<lambda>_. True)"
  let ?s = "dht11_zero\<lparr>dh_out := True\<rparr>"
  have g: "dht11_good ?s" using dht11_zero_good by (simp add: dht11_good_def)
  have "dht11_read_data (?sensors 0) ?s = Some (- ETIMEDOUT, 20332, ?s\<lparr>dh_out := False\<rparr>)"
    by (rule dht11_no_answer) simp
  from dht11_retries_in_vain[of ?s ?sensors, OF g this] show ?thesis by auto
qed

end
