(* ===== verification/Blkram.thy ===== *)
theory Blkram
  imports Resources
begin

text \<open>
  \<open>blkram.c\<close>: a block device in memory. The block layer hands the driver requests, which are lists
  of segments in memory; the driver copies between them and its array. Offsets and sizes are
  64-bit words, as in the code.

  The load function has four variants, one for each of the kernel versions where the block
  layer's interface changed.
\<close>

section \<open>State and requests\<close>

record blkram =
  br_major :: int
  br_data :: "char list"
  br_size :: "64 word"
  br_capacity :: "64 word"

text \<open>
  A request: the first sector, the direction, whether it is a passthrough request, and the
  segments' contents. A segment is shorter than \<open>2 ^ 32\<close> bytes.
\<close>

record request =
  rq_pos :: "64 word"
  rq_write :: bool
  rq_passthrough :: bool
  rq_segs :: "char list list"

datatype blk_status = BLK_STS_OK | BLK_STS_IOERR

definition BLKRAM_SECTOR_SIZE :: "64 word" where
  "BLKRAM_SECTOR_SIZE = 512"

section \<open>Transfers\<close>

text \<open>\<open>memcpy\<close> into and out of the array of the device, which it must not leave.\<close>

definition blk_store :: "char list \<Rightarrow> nat \<Rightarrow> char list \<Rightarrow> char list option" where
  "blk_store data off bs =
     (if off + length bs \<le> length data
      then Some (take off data @ bs @ drop (off + length bs) data) else None)"

definition blk_load :: "char list \<Rightarrow> nat \<Rightarrow> nat \<Rightarrow> char list option" where
  "blk_load data off n =
     (if off + n \<le> length data then Some (take n (drop off data)) else None)"

text \<open>
  The loop over the segments: the status, the array, and the segments with what was read into them.
\<close>

fun transfer_loop ::
    "64 word \<Rightarrow> bool \<Rightarrow> char list list \<Rightarrow> 64 word \<Rightarrow> char list \<Rightarrow>
      (blk_status \<times> char list \<times> char list list) option" where
  "transfer_loop sz write [] offset data = Some (BLK_STS_OK, data, [])"
| "transfer_loop sz write (seg # segs) offset data =
     (let len = of_nat (length seg) in
      if sz < offset + len then Some (BLK_STS_IOERR, data, seg # segs)
      else if write then
        do { data \<leftarrow> blk_store data (unat offset) seg;
             (st, data, segs) \<leftarrow> transfer_loop sz write segs (offset + len) data;
             Some (st, data, seg # segs) }
      else
        do { seg \<leftarrow> blk_load data (unat offset) (length seg);
             (st, data, segs) \<leftarrow> transfer_loop sz write segs (offset + len) data;
             Some (st, data, seg # segs) })"

definition blkram_transfer ::
    "blkram \<Rightarrow> request \<Rightarrow> (blk_status \<times> blkram \<times> request) option" where
  "blkram_transfer dev rq =
     (let offset = rq_pos rq * BLKRAM_SECTOR_SIZE in
      do { (st, data, segs) \<leftarrow>
             transfer_loop (br_size dev) (rq_write rq) (rq_segs rq) offset (br_data dev);
           Some (st, dev\<lparr>br_data := data\<rparr>, rq\<lparr>rq_segs := segs\<rparr>) })"

text \<open>The result: the return value, the status the request is ended with, device and request.\<close>

definition blkram_queue_rq ::
    "blkram \<Rightarrow> request \<Rightarrow> (blk_status \<times> blk_status \<times> blkram \<times> request) option" where
  "blkram_queue_rq dev rq =
     (if rq_passthrough rq then Some (BLK_STS_OK, BLK_STS_IOERR, dev, rq)
      else do { (status, dev, rq) \<leftarrow> blkram_transfer dev rq;
                Some (BLK_STS_OK, status, dev, rq) })"

section \<open>Load and unload\<close>

text \<open>The kernels: before 5.15, 5.15, 5.16 to 6.8, from 6.9 on.\<close>

datatype blk_era = Before515 | From515 | From516 | From609

record blkram_env =
  ret_register_blkdev :: int
  kzalloc_ok :: bool
  vzalloc_ok :: bool
  ret_tag_set :: int
  ret_alloc_disk :: int       \<comment> \<open>\<open>blk_mq_alloc_disk\<close>, as a pointer\<close>
  ret_init_queue :: int       \<comment> \<open>\<open>blk_mq_init_queue\<close>, as a pointer\<close>
  alloc_disk_ok :: bool
  ret_add_disk :: int

text \<open>The labels of the load function; \<open>m\<close> is the major number.\<close>

definition err_unreg :: "int \<Rightarrow> event list" where
  "err_unreg m = [Rel (Blkdev m)]"

definition err_free_dev :: "int \<Rightarrow> event list" where
  "err_free_dev m = Rel (Mem ''blkram'') # err_unreg m"

definition err_free_data :: "int \<Rightarrow> event list" where
  "err_free_data m = Rel (Mem ''data'') # err_free_dev m"

definition err_tag_set :: "int \<Rightarrow> event list" where
  "err_tag_set m = Rel TagSet # err_free_data m"

definition err_cleanup_queue :: "int \<Rightarrow> event list" where
  "err_cleanup_queue m = Rel BlkQueue # err_tag_set m"

definition err_put_disk :: "int \<Rightarrow> event list" where
  "err_put_disk m = Rel GenDisk # err_tag_set m"

text \<open>\<open>blkram_mb\<close> is a module parameter; its product with 2 ^ 20 is a word of 64 bits.\<close>

definition blkram_init ::
    "blk_era \<Rightarrow> 64 word \<Rightarrow> blkram_env \<Rightarrow> blkram \<Rightarrow> int \<times> blkram \<times> event list" where [mod_init]:
  "blkram_init era blkram_mb e s =
     (let s = s\<lparr>br_major := ret_register_blkdev e\<rparr>; m = br_major s in
      if m < 0 then (m, s, [])
      else let t = [Acq (Blkdev m)] in
      if \<not> kzalloc_ok e then (- ENOMEM, s, t @ err_unreg m)
      else let t = t @ [Acq (Mem ''blkram'')];
               s = s\<lparr>br_size := blkram_mb * 1024 * 1024\<rparr>;
               sectors = br_size s div BLKRAM_SECTOR_SIZE in
      if \<not> vzalloc_ok e then (- ENOMEM, s, t @ err_free_dev m)
      else let t = t @ [Acq (Mem ''data'')];
               s = s\<lparr>br_data := replicate (unat (br_size s)) NUL\<rparr> in
      if ret_tag_set e \<noteq> 0 then (ret_tag_set e, s, t @ err_free_data m)
      else let t = t @ [Acq TagSet];
               (ret, disk_events, label) =
                 (if era = Before515 then
                    (if is_err (ret_init_queue e) then (ret_init_queue e, [], err_tag_set m)
                     else if \<not> alloc_disk_ok e then (- ENOMEM, [Acq BlkQueue], err_cleanup_queue m)
                     else (0, [Acq BlkQueue, Acq GenDisk], []))
                  else if is_err (ret_alloc_disk e) then (ret_alloc_disk e, [], err_tag_set m)
                  else (0, [Acq GenDisk], []));
               t = t @ disk_events in
      if ret \<noteq> 0 then (ret, s, t @ label)
      else let s = s\<lparr>br_capacity := sectors\<rparr> in
      if era \<in> {From516, From609} \<and> ret_add_disk e \<noteq> 0
      then (ret_add_disk e, s, t @ err_put_disk m)
      else (0, s, t @ [Acq DiskLive]))"

definition blkram_exit :: "blk_era \<Rightarrow> blkram \<Rightarrow> event list" where [mod_init]:
  "blkram_exit era s =
     [Rel DiskLive, Rel GenDisk] @ (if era = Before515 then [Rel BlkQueue] else []) @
     [Rel TagSet, Rel (Mem ''data''), Rel (Mem ''blkram''), Rel (Blkdev (br_major s))]"

lemmas blkram_labels [mod_init] =
  err_unreg_def err_free_dev_def err_free_data_def err_tag_set_def
  err_cleanup_queue_def err_put_disk_def Let_def is_err_def

interpretation blkram_mod: lkm_module "blkram_init era mb" "blkram_exit era" for era mb
  by (rule lkm_moduleI; cases era)
    (auto simp: mod_init split: if_splits)

section \<open>What a transfer does\<close>

definition blkram_good :: "blkram \<Rightarrow> bool" where
  "blkram_good s \<longleftrightarrow> length (br_data s) = unat (br_size s) \<and>
     br_capacity s = br_size s div BLKRAM_SECTOR_SIZE"

definition blkram_init_good :: "blk_era \<Rightarrow> 64 word \<Rightarrow> blkram_env \<Rightarrow> blkram \<Rightarrow> bool" where
  "blkram_init_good era mb e s \<longleftrightarrow>
     (case blkram_init era mb e s of (r, s', t) \<Rightarrow> r = 0 \<longrightarrow> blkram_good s')"

lemma blkram_init_keeps_good: "blkram_init_good era mb e s"
  by (auto simp: blkram_init_good_def blkram_init_def blkram_good_def Let_def split: if_splits prod.splits)

text \<open>The leading segments that fit into \<open>n\<close> bytes.\<close>

fun fitting :: "nat \<Rightarrow> char list list \<Rightarrow> char list list" where
  "fitting n [] = []"
| "fitting n (seg # segs) =
     (if length seg \<le> n then seg # fitting (n - length seg) segs else [])"

lemma fitting_all: "fitting n segs = segs \<longleftrightarrow> length (concat segs) \<le> n"
proof (induction segs arbitrary: n)
  case Nil
  then show ?case by simp
next
  case (Cons seg segs)
  show ?case
  proof (cases "length seg \<le> n")
    case True
    with Cons[of "n - length seg"] show ?thesis by (simp add: le_diff_conv2 add.commute)
  qed simp
qed

lemma fitting_le: "length (concat (fitting n segs)) \<le> n"
proof (induction segs arbitrary: n)
  case Nil
  then show ?case by simp
next
  case (Cons seg segs)
  from Cons[of "n - length seg"]
  have "length seg \<le> n \<Longrightarrow> length seg + length (concat (fitting (n - length seg) segs)) \<le> n"
    by linarith
  then show ?case by simp
qed

definition blk_put :: "char list \<Rightarrow> nat \<Rightarrow> char list \<Rightarrow> char list" where
  "blk_put data off bs = take off data @ bs @ drop (off + length bs) data"

lemma length_blk_put: "off + length bs \<le> length data \<Longrightarrow> length (blk_put data off bs) = length data"
  by (simp add: blk_put_def)

lemma blk_put_append:
  "off + length bs + length cs \<le> length data \<Longrightarrow>
    blk_put (blk_put data off bs) (off + length bs) cs = blk_put data off (bs @ cs)"
  by (cases bs) (simp_all add: blk_put_def min_def add_ac)

lemma blk_put_Nil: "off \<le> length data \<Longrightarrow> blk_put data off [] = data"
  by (simp add: blk_put_def)

lemma blk_put_read: "off + length bs \<le> length data \<Longrightarrow>
    take (length bs) (drop off (blk_put data off bs)) = bs"
  by (simp add: blk_put_def)

text \<open>An offset inside the array plus a segment does not wrap round, and is compared exactly.\<close>

lemma offset_check:
  fixes off sz :: "64 word"
  assumes "unat off \<le> unat sz" and "length seg < 2 ^ 32" and "unat sz \<le> 2 ^ 63"
  shows "unat (off + of_nat (length seg)) = unat off + length seg"
    and "sz < off + of_nat (length seg) \<longleftrightarrow> unat sz < unat off + length seg"
proof -
  have "unat (of_nat (length seg) :: 64 word) = length seg"
    using assms(2) by (simp add: unat_of_nat take_bit_nat_eq_self)
  then show 1: "unat (off + of_nat (length seg)) = unat off + length seg"
    using assms by (subst unat_word_ariths) simp
  show "sz < off + of_nat (length seg) \<longleftrightarrow> unat sz < unat off + length seg"
    by (simp add: word_less_nat_alt 1)
qed

lemma transfer_write:
  assumes "unat off \<le> unat sz" and "unat sz \<le> 2 ^ 63" and "length data = unat sz"
    and "list_all (\<lambda>seg. length seg < 2 ^ 32) segs"
  shows "transfer_loop sz True segs off data =
    Some (if length (concat segs) \<le> unat sz - unat off then BLK_STS_OK else BLK_STS_IOERR,
      blk_put data (unat off) (concat (fitting (unat sz - unat off) segs)), segs)"
  using assms
proof (induction segs arbitrary: off data)
  case Nil
  then show ?case by (simp add: blk_put_Nil)
next
  case (Cons seg segs)
  from Cons.prems have l: "length seg < 2 ^ 32" by simp
  note c = offset_check[OF Cons.prems(1) l Cons.prems(2)]
  show ?case
  proof (cases "unat sz < unat off + length seg")
    case True
    with c(2) Cons.prems(1,3) show ?thesis
      by (auto simp: blk_put_Nil)
  next
    case False
    let ?d = "blk_put data (unat off) seg"
    let ?rest = "fitting (unat sz - (unat off + length seg)) segs"
    have st: "blk_store data (unat off) seg = Some ?d"
      using False Cons.prems(3) by (simp add: blk_store_def blk_put_def)
    have d: "length ?d = unat sz" using False Cons.prems(3) by (simp add: length_blk_put)
    have "unat (off + of_nat (length seg)) \<le> unat sz" using False c(1) by simp
    from Cons.IH[OF this Cons.prems(2) d] Cons.prems(4) have IH:
      "transfer_loop sz True segs (off + of_nat (length seg)) ?d =
        Some (if length (concat segs) \<le> unat sz - (unat off + length seg) then BLK_STS_OK else BLK_STS_IOERR,
          blk_put ?d (unat off + length seg) (concat ?rest), segs)"
      by (simp add: c(1))
    have "unat off + length seg + length (concat ?rest) \<le> length data"
      using fitting_le[of "unat sz - (unat off + length seg)" segs] False Cons.prems(3) by simp
    note p = blk_put_append[OF this]
    have f: "fitting (unat sz - unat off) (seg # segs) = seg # ?rest" using False by simp
    show ?thesis
      using False c(2) by (simp add: st IH p f Let_def) auto
  qed
qed

lemma transfer_read:
  assumes "unat off \<le> unat sz" and "unat sz \<le> 2 ^ 63" and "length data = unat sz"
    and "list_all (\<lambda>seg. length seg < 2 ^ 32) segs"
  shows "\<exists>segs'. transfer_loop sz False segs off data =
      Some (if length (concat segs) \<le> unat sz - unat off then BLK_STS_OK else BLK_STS_IOERR,
        data, segs') \<and> map length segs' = map length segs \<and>
    (length (concat segs) \<le> unat sz - unat off \<longrightarrow>
      concat segs' = take (length (concat segs)) (drop (unat off) data))"
  using assms
proof (induction segs arbitrary: off)
  case Nil
  then show ?case by simp
next
  case (Cons seg segs)
  from Cons.prems have l: "length seg < 2 ^ 32" by simp
  note c = offset_check[OF Cons.prems(1) l Cons.prems(2)]
  show ?case
  proof (cases "unat sz < unat off + length seg")
    case True
    with c(2) Cons.prems(1) show ?thesis by (auto simp: Let_def)
  next
    case False
    let ?x = "take (length seg) (drop (unat off) data)"
    have ld: "blk_load data (unat off) (length seg) = Some ?x"
      using False Cons.prems(3) by (simp add: blk_load_def)
    have x: "length ?x = length seg" using False Cons.prems(3) by simp
    have "unat (off + of_nat (length seg)) \<le> unat sz" using False c(1) by simp
    from Cons.IH[OF this Cons.prems(2,3)] Cons.prems(4) obtain segs' where
      1: "transfer_loop sz False segs (off + of_nat (length seg)) data =
        Some (if length (concat segs) \<le> unat sz - (unat off + length seg) then BLK_STS_OK else BLK_STS_IOERR,
          data, segs')"
      and 2: "map length segs' = map length segs"
      and 3: "length (concat segs) \<le> unat sz - (unat off + length seg) \<Longrightarrow>
        concat segs' = take (length (concat segs)) (drop (unat off + length seg) data)"
      by (auto simp: c(1))
    have fits: "length (concat (seg # segs)) \<le> unat sz - unat off \<longleftrightarrow>
        length (concat segs) \<le> unat sz - (unat off + length seg)" using False by auto
    have "concat (?x # segs') = take (length (concat (seg # segs))) (drop (unat off) data)"
      if "length (concat segs) \<le> unat sz - (unat off + length seg)"
      using 3[OF that] by (simp add: take_add add.commute)
    moreover have "transfer_loop sz False (seg # segs) off data = Some
        (if length (concat (seg # segs)) \<le> unat sz - unat off then BLK_STS_OK else BLK_STS_IOERR,
          data, ?x # segs')"
      using False c(2) unfolding fits by (simp add: ld 1 Let_def)
    ultimately show ?thesis using 2 x fits by (intro exI[of _ "?x # segs'"]) (simp del: concat.simps)
  qed
qed

lemma unat_less_64: "unat (w :: 64 word) < 2 ^ 64"
  using unsigned_less[of w] by simp

lemma sector_offset:
  fixes p sz :: "64 word"
  assumes "unat p * 512 \<le> unat sz"
  shows "unat (p * BLKRAM_SECTOR_SIZE) = unat p * 512"
proof -
  have "unat p * 512 < 2 ^ 64" using assms unat_less_64[of sz] by simp
  then show ?thesis by (simp add: BLKRAM_SECTOR_SIZE_def unat_word_ariths)
qed

section \<open>Properties\<close>

text \<open>What a request has to be: segments of less than \<open>2 ^ 32\<close> bytes, starting on the disk.\<close>

definition request_ok :: "blkram \<Rightarrow> request \<Rightarrow> bool" where
  "request_ok s rq \<longleftrightarrow> list_all (\<lambda>seg. length seg < 2 ^ 32) (rq_segs rq) \<and>
     unat (rq_pos rq) * 512 \<le> unat (br_size s) \<and> unat (br_size s) \<le> 2 ^ 63"

text \<open>
  C6 (refinement): for every request that starts on the disk the driver stays in its array and
  refines reading and writing a list of bytes. The status is OK exactly when the request ends on
  the disk; a write stores its segments, or, when it runs over the end, the leading ones
  that fit; a read gives the bytes there; a passthrough request is refused.
\<close>

theorem blkram_refines_bytes:
  assumes g: "blkram_good s" and ok: "request_ok s rq"
  shows "\<exists>st s' rq'. blkram_queue_rq s rq = Some (BLK_STS_OK, st, s', rq') \<and> blkram_good s' \<and>
    (let off = unat (rq_pos rq) * 512; total = length (concat (rq_segs rq));
         fits = off + total \<le> unat (br_size s)
     in if rq_passthrough rq then st = BLK_STS_IOERR \<and> s' = s \<and> rq' = rq
        else st = (if fits then BLK_STS_OK else BLK_STS_IOERR) \<and>
          (if rq_write rq
           then br_data s' =
             blk_put (br_data s) off (concat (fitting (unat (br_size s) - off) (rq_segs rq)))
           else s' = s \<and> map length (rq_segs rq') = map length (rq_segs rq) \<and>
             (fits \<longrightarrow> concat (rq_segs rq') = take total (drop off (br_data s)))))"
proof (cases "rq_passthrough rq")
  case True
  with g show ?thesis by (simp add: blkram_queue_rq_def)
next
  case False
  let ?off = "unat (rq_pos rq) * 512" and ?sz = "br_size s" and ?segs = "rq_segs rq"
  from ok have sg: "list_all (\<lambda>seg. length seg < 2 ^ 32) ?segs" and le: "?off \<le> unat ?sz"
    and sz: "unat ?sz \<le> 2 ^ 63" by (simp_all add: request_ok_def)
  note so = sector_offset[OF le]
  have le': "unat (rq_pos rq * BLKRAM_SECTOR_SIZE) \<le> unat ?sz" using le so by simp
  have d: "length (br_data s) = unat ?sz" using g by (simp add: blkram_good_def)
  have fits: "length (concat ?segs) \<le> unat ?sz - ?off \<longleftrightarrow> ?off + length (concat ?segs) \<le> unat ?sz"
    using le by auto
  show ?thesis
  proof (cases "rq_write rq")
    case True
    let ?c = "concat (fitting (unat ?sz - ?off) ?segs)"
    have "length (blk_put (br_data s) ?off ?c) = unat ?sz"
      using fitting_le[of "unat ?sz - ?off" ?segs] le d by (subst length_blk_put) simp_all
    moreover note transfer_write[OF le' sz d sg, unfolded so fits]
    ultimately show ?thesis using True False g
      by (simp add: blkram_queue_rq_def blkram_transfer_def blkram_good_def Let_def)
  next
    case rd: False
    from transfer_read[OF le' sz d sg, unfolded so fits] obtain segs' where
      "transfer_loop ?sz False ?segs (rq_pos rq * BLKRAM_SECTOR_SIZE) (br_data s) =
        Some (if ?off + length (concat ?segs) \<le> unat ?sz then BLK_STS_OK else BLK_STS_IOERR,
          br_data s, segs')" "map length segs' = map length ?segs"
      "?off + length (concat ?segs) \<le> unat ?sz \<longrightarrow>
        concat segs' = take (length (concat ?segs)) (drop ?off (br_data s))" by blast
    with rd False g show ?thesis
      by (simp add: blkram_queue_rq_def blkram_transfer_def blkram_good_def Let_def)
  qed
qed

definition blkram_small :: blkram where
  "blkram_small = \<lparr>br_major = 1, br_data = replicate 1024 NUL, br_size = 1024, br_capacity = 2\<rparr>"

lemma blkram_small_good: "blkram_good blkram_small"
  by (simp add: blkram_good_def blkram_small_def BLKRAM_SECTOR_SIZE_def)

theorem blkram_refines_bytes_witness:
  "\<exists>s' rq'. blkram_queue_rq blkram_small \<lparr>rq_pos = 1, rq_write = True, rq_passthrough = False,
      rq_segs = [''ab'', ''c'']\<rparr> = Some (BLK_STS_OK, BLK_STS_OK, s', rq') \<and>
    br_data s' = blk_put (replicate 1024 NUL) 512 ''abc''"
  using blkram_refines_bytes[OF blkram_small_good, of "\<lparr>rq_pos = 1, rq_write = True,
      rq_passthrough = False, rq_segs = [''ab'', ''c'']\<rparr>"]
  by (auto simp: request_ok_def blkram_small_def Let_def)

text \<open>
  C23 (roundtrip): what a write request puts on the disk a read request of the same length at the
  same sector gets back, however the two are cut into segments.
\<close>

theorem blkram_write_then_read:
  assumes g: "blkram_good s" and w: "request_ok s rq" "rq_write rq" "\<not> rq_passthrough rq"
    and r: "request_ok s rq2" "\<not> rq_write rq2" "\<not> rq_passthrough rq2"
    and same: "rq_pos rq2 = rq_pos rq" "length (concat (rq_segs rq2)) = length (concat (rq_segs rq))"
    and fits: "unat (rq_pos rq) * 512 + length (concat (rq_segs rq)) \<le> unat (br_size s)"
  shows "\<exists>s' rq' rq2'. blkram_queue_rq s rq = Some (BLK_STS_OK, BLK_STS_OK, s', rq') \<and>
    blkram_queue_rq s' rq2 = Some (BLK_STS_OK, BLK_STS_OK, s', rq2') \<and>
    concat (rq_segs rq2') = concat (rq_segs rq)"
proof -
  let ?off = "unat (rq_pos rq) * 512" and ?sz = "br_size s"
  from w(1) r(1) have sg: "list_all (\<lambda>seg. length seg < 2 ^ 32) (rq_segs rq)"
    "list_all (\<lambda>seg. length seg < 2 ^ 32) (rq_segs rq2)"
    and le: "?off \<le> unat ?sz" and sz: "unat ?sz \<le> 2 ^ 63" by (simp_all add: request_ok_def)
  note so = sector_offset[OF le]
  have le': "unat (rq_pos rq * BLKRAM_SECTOR_SIZE) \<le> unat ?sz" using le so by simp
  have d: "length (br_data s) = unat ?sz" using g by (simp add: blkram_good_def)
  let ?d = "blk_put (br_data s) ?off (concat (rq_segs rq))"
  have fit: "length (concat (rq_segs rq)) \<le> unat ?sz - ?off" using fits by simp
  then have "fitting (unat ?sz - ?off) (rq_segs rq) = rq_segs rq" by (simp only: fitting_all)
  with transfer_write[OF le' sz d sg(1), unfolded so] fit w have 1:
    "blkram_queue_rq s rq = Some (BLK_STS_OK, BLK_STS_OK, s\<lparr>br_data := ?d\<rparr>, rq)"
    by (simp add: blkram_queue_rq_def blkram_transfer_def Let_def)
  have d': "length ?d = unat ?sz" using fits d by (simp add: length_blk_put)
  from transfer_read[OF le' sz d' sg(2), unfolded so] fit same obtain segs' where
    "transfer_loop ?sz False (rq_segs rq2) (rq_pos rq * BLKRAM_SECTOR_SIZE) ?d = Some (BLK_STS_OK, ?d, segs')"
    "concat segs' = take (length (concat (rq_segs rq))) (drop ?off ?d)" by auto
  moreover have "take (length (concat (rq_segs rq))) (drop ?off ?d) = concat (rq_segs rq)"
    using fits d by (intro blk_put_read) simp
  ultimately show ?thesis using 1 r same
    by (simp add: blkram_queue_rq_def blkram_transfer_def Let_def)
qed

theorem blkram_write_then_read_witness:
  "\<exists>s' rq' rq2'. blkram_queue_rq blkram_small \<lparr>rq_pos = 1, rq_write = True, rq_passthrough = False,
      rq_segs = [''ab'', ''c'']\<rparr> = Some (BLK_STS_OK, BLK_STS_OK, s', rq') \<and>
    blkram_queue_rq s' \<lparr>rq_pos = 1, rq_write = False, rq_passthrough = False,
      rq_segs = [''x'', ''yz'']\<rparr> = Some (BLK_STS_OK, BLK_STS_OK, s', rq2') \<and>
    concat (rq_segs rq2') = ''abc''"
  using blkram_write_then_read[OF blkram_small_good, of "\<lparr>rq_pos = 1, rq_write = True,
      rq_passthrough = False, rq_segs = [''ab'', ''c'']\<rparr>" "\<lparr>rq_pos = 1, rq_write = False,
      rq_passthrough = False, rq_segs = [''x'', ''yz'']\<rparr>"]
  by (auto simp: request_ok_def blkram_small_def)

text \<open>
  C34 (equivalence): how the block layer cuts a request into segments does not matter for a request that
  ends on the disk: two requests for the same place, with the same bytes in different segments of less than
  2 ^ 32 bytes, end with the same status, leave the same disk, and have the same bytes in them afterwards. When
  they run over the end, the statuses are still the same, and reads leave the disk; of writes then only the
  leading segments that fit are stored, which depends on the cuts.
\<close>

theorem blkram_cutting_equivalent:
  assumes g: "blkram_good s" and a: "request_ok s rq" "\<not> rq_passthrough rq"
    and b: "request_ok s rq2" "\<not> rq_passthrough rq2"
    and same: "rq_pos rq2 = rq_pos rq" "rq_write rq2 = rq_write rq"
      "concat (rq_segs rq2) = concat (rq_segs rq)"
  shows "\<exists>st s1 s2 rq' rq2'. blkram_queue_rq s rq = Some (BLK_STS_OK, st, s1, rq') \<and>
    blkram_queue_rq s rq2 = Some (BLK_STS_OK, st, s2, rq2') \<and>
    (if unat (rq_pos rq) * 512 + length (concat (rq_segs rq)) \<le> unat (br_size s)
     then st = BLK_STS_OK \<and> s2 = s1 \<and> concat (rq_segs rq2') = concat (rq_segs rq')
     else st = BLK_STS_IOERR \<and> (\<not> rq_write rq \<longrightarrow> s1 = s \<and> s2 = s))"
proof -
  let ?off = "unat (rq_pos rq) * 512" and ?sz = "br_size s"
  from a(1) b(1) have sg: "list_all (\<lambda>seg. length seg < 2 ^ 32) (rq_segs rq)"
    "list_all (\<lambda>seg. length seg < 2 ^ 32) (rq_segs rq2)"
    and le: "?off \<le> unat ?sz" and sz: "unat ?sz \<le> 2 ^ 63" by (simp_all add: request_ok_def)
  note so = sector_offset[OF le]
  have le': "unat (rq_pos rq * BLKRAM_SECTOR_SIZE) \<le> unat ?sz" using le so by simp
  have d: "length (br_data s) = unat ?sz" using g by (simp add: blkram_good_def)
  have fits: "length (concat segs) \<le> unat ?sz - ?off \<longleftrightarrow> ?off + length (concat segs) \<le> unat ?sz"
    for segs :: "char list list" using le by auto
  show ?thesis
  proof (cases "rq_write rq")
    case True
    have "fitting (unat ?sz - ?off) segs = segs" if "?off + length (concat segs) \<le> unat ?sz" for segs
      using that fits by (simp add: fitting_all)
    with transfer_write[OF le' sz d sg(1), unfolded so fits] transfer_write[OF le' sz d sg(2), unfolded so fits]
      a(2) b(2) same True show ?thesis
      by (simp add: blkram_queue_rq_def blkram_transfer_def Let_def)
  next
    case False
    from transfer_read[OF le' sz d sg(1), unfolded so fits] obtain segs' where
      "transfer_loop ?sz False (rq_segs rq) (rq_pos rq * BLKRAM_SECTOR_SIZE) (br_data s) =
        Some (if ?off + length (concat (rq_segs rq)) \<le> unat ?sz then BLK_STS_OK else BLK_STS_IOERR,
          br_data s, segs')"
      "?off + length (concat (rq_segs rq)) \<le> unat ?sz \<longrightarrow>
        concat segs' = take (length (concat (rq_segs rq))) (drop ?off (br_data s))" by blast
    moreover from transfer_read[OF le' sz d sg(2), unfolded so fits] same(3) obtain segs2 where
      "transfer_loop ?sz False (rq_segs rq2) (rq_pos rq * BLKRAM_SECTOR_SIZE) (br_data s) =
        Some (if ?off + length (concat (rq_segs rq)) \<le> unat ?sz then BLK_STS_OK else BLK_STS_IOERR,
          br_data s, segs2)"
      "?off + length (concat (rq_segs rq)) \<le> unat ?sz \<longrightarrow>
        concat segs2 = take (length (concat (rq_segs rq))) (drop ?off (br_data s))" by auto
    ultimately show ?thesis using a(2) b(2) same False
      by (simp add: blkram_queue_rq_def blkram_transfer_def Let_def)
  qed
qed

theorem blkram_cutting_equivalent_witness:
  "\<exists>s' rq' rq2'. blkram_queue_rq blkram_small \<lparr>rq_pos = 1, rq_write = True, rq_passthrough = False,
      rq_segs = [''ab'', ''c'']\<rparr> = Some (BLK_STS_OK, BLK_STS_OK, s', rq') \<and>
    blkram_queue_rq blkram_small \<lparr>rq_pos = 1, rq_write = True, rq_passthrough = False,
      rq_segs = [''abc'']\<rparr> = Some (BLK_STS_OK, BLK_STS_OK, s', rq2')"
  using blkram_cutting_equivalent[OF blkram_small_good, of "\<lparr>rq_pos = 1, rq_write = True,
      rq_passthrough = False, rq_segs = [''ab'', ''c'']\<rparr>" "\<lparr>rq_pos = 1, rq_write = True,
      rq_passthrough = False, rq_segs = [''abc'']\<rparr>"]
  by (auto simp: request_ok_def blkram_small_def)

text \<open>
  The check of the end of the disk is done in 64 bits and can wrap round: for the last
  sector that a word can number it passes on every disk, and the copy leaves the array. The
  driver relies on the block layer to refuse sectors beyond the capacity.
\<close>

lemma blkram_check_wraps:
  assumes g: "blkram_good s" and p: "rq_pos rq = 2 ^ 55 - 1" and q: "\<not> rq_passthrough rq"
    and s: "rq_segs rq = [seg]" "length seg = 512"
  shows "blkram_queue_rq s rq = None"
proof -
  have o: "rq_pos rq * BLKRAM_SECTOR_SIZE = - 512" by (simp add: p BLKRAM_SECTOR_SIZE_def)
  have "unat (- 512 :: 64 word) + 512 > length (br_data s)"
    using g unat_less_64[of "br_size s"] by (simp add: blkram_good_def)
  then show ?thesis using q s o
    by (simp add: blkram_queue_rq_def blkram_transfer_def blk_store_def blk_load_def)
qed

lemma blkram_check_wraps_witness:
  "blkram_queue_rq blkram_small \<lparr>rq_pos = 2 ^ 55 - 1, rq_write = True, rq_passthrough = False,
    rq_segs = [replicate 512 NUL]\<rparr> = None"
  by (rule blkram_check_wraps[OF blkram_small_good, of _ "replicate 512 NUL"])
    (simp, simp, simp, rule length_replicate)

end
