(* ===== verification/Ioctl_Test.thy ===== *)
theory Ioctl_Test
  imports Chardev2
begin

text \<open>
  \<open>ioctl.c\<close>: a device where every open file has a byte of its own, and all share a number. The
  byte is in an object that \<open>open\<close> allocates and \<open>close\<close> frees; the file points to it.
\<close>

section \<open>Numbers in user memory\<close>

text \<open>An \<open>unsigned int\<close> is four bytes, the lowest one first.\<close>

definition le_bytes :: "32 word \<Rightarrow> char list" where
  "le_bytes w = map (\<lambda>i. char_of (unat (ucast (drop_bit (8 * i) w) :: 8 word))) [0..<4]"

fun le_word :: "char list \<Rightarrow> 32 word" where
  "le_word [] = 0"
| "le_word (c # cs) = of_nat (of_char c) OR push_bit 8 (le_word cs)"

lemma length_le_bytes [simp]: "length (le_bytes w) = 4"
  by (simp add: le_bytes_def)

lemma unat_byte_mod: "unat (b :: 8 word) mod 256 = unat b"
proof -
  have "unat b < 2 ^ LENGTH(8)" by (rule unsigned_less)
  then show ?thesis by simp
qed

lemma le_word_bytes: "le_word (le_bytes w) = w"
proof (rule bit_word_eqI)
  fix k
  assume k: "k < LENGTH(32)"
  then consider "k < 8" | "8 \<le> k" "k < 16" | "16 \<le> k" "k < 24" | "24 \<le> k" "k < 32" by fastforce
  then show "bit (le_word (le_bytes w)) k = bit w k"
    by cases
      (simp_all add: le_bytes_def upt_rec unat_byte_mod bit_or_iff bit_push_bit_iff bit_unsigned_iff
        bit_drop_bit_eq comp_def, auto)
qed

section \<open>State\<close>

text \<open>
  \<open>it_heap\<close> holds the allocated objects; \<open>it_files\<close> the open files with their \<open>private_data\<close>.
\<close>

record ioctl_sys =
  it_num :: "32 word"
  it_heap :: "nat \<rightharpoonup> 8 word"
  it_files :: "nat \<rightharpoonup> nat"

definition ioctl_zero :: ioctl_sys where
  "ioctl_zero = \<lparr>it_num = 0, it_heap = (\<lambda>_. None), it_files = (\<lambda>_. None)\<rparr>"

definition IOC_MAGIC :: "32 word" where
  "IOC_MAGIC = 0x66"

definition IOCTL_VALSET :: "32 word" where
  "IOCTL_VALSET = ioc 1 IOC_MAGIC 0 4"

definition IOCTL_VALGET :: "32 word" where
  "IOCTL_VALGET = ioc 2 IOC_MAGIC 1 4"

definition IOCTL_VALGET_NUM :: "32 word" where
  "IOCTL_VALGET_NUM = ioc 2 IOC_MAGIC 2 4"

definition IOCTL_VALSET_NUM :: "32 word" where
  "IOCTL_VALSET_NUM = ioc 0 IOC_MAGIC 3 0"

lemma ioctl_test_nums:
  "IOCTL_VALSET = 0x40046600" "IOCTL_VALGET = 0x80046601" "IOCTL_VALGET_NUM = 0x80046602"
  "IOCTL_VALSET_NUM = 0x6603"
  by (simp_all add: IOCTL_VALSET_def IOCTL_VALGET_def IOCTL_VALGET_NUM_def IOCTL_VALSET_NUM_def
      ioc_def IOC_MAGIC_def)

section \<open>Operations\<close>

text \<open>
  The argument \<open>arg\<close> is a word of 64 bits, as a number or as an address. The upper half of the addresses
  is the kernel's. \<open>copy_from_user\<close> and \<open>copy_to_user\<close> refuse them; \<open>__put_user\<close> does not, it leaves
  the test \<open>access_ok\<close> to its caller, and \<open>ioctl.c\<close> has none.
\<close>

definition kernel_address :: "64 word \<Rightarrow> bool" where
  "kernel_address arg \<longleftrightarrow> bit arg 63"

text \<open>
  An ioctl on the file \<open>f\<close>; \<open>None\<close> when its \<open>private_data\<close> is no allocated object, or when
  \<open>__put_user\<close> is given a kernel address: then the number is stored over whatever the kernel has there.
\<close>

definition test_ioctl_ioctl ::
    "not_copied \<Rightarrow> ioctl_sys \<Rightarrow> nat \<Rightarrow> umem \<Rightarrow> 32 word \<Rightarrow> 64 word \<Rightarrow> (int \<times> ioctl_sys \<times> umem) option" where
  "test_ioctl_ioctl nc s f u cmd arg =
     do { p \<leftarrow> it_files s f;
          if cmd = IOCTL_VALSET then
            do { (n, bs) \<leftarrow> copy_from_user nc u (unat arg) 4 (replicate 4 NUL);
                 if n \<noteq> 0 then Some (- EFAULT, s, u)
                 else do { old \<leftarrow> it_heap s p;
                           Some (0, s\<lparr>it_heap := (it_heap s)(p \<mapsto> ucast (le_word bs))\<rparr>, u) } }
          else if cmd = IOCTL_VALGET then
            do { val \<leftarrow> it_heap s p;
                 let (n, u) = copy_to_user nc u (unat arg) (le_bytes (ucast val));
                 Some (if n \<noteq> 0 then - EFAULT else 0, s, u) }
          else if cmd = IOCTL_VALGET_NUM then
            if kernel_address arg then None
            else Some (if mapped u (unat arg) 4 then (0, s, put_bytes u (unat arg) (le_bytes (it_num s)))
                       else (- EFAULT, s, u))
          else if cmd = IOCTL_VALSET_NUM then Some (0, s\<lparr>it_num := ucast arg\<rparr>, u)
          else Some (- ENOTTY, s, u) }"

text \<open>
  \<open>for (; i < count; i++) copy_to_user (&buf[i], &val, 1)\<close>: whether it faulted, and the memory. The
  kernel calls a read function with a \<open>count\<close> below 2 to the 31, which the \<open>int\<close>s \<open>i\<close> and \<open>retval\<close> hold.
\<close>

fun ioctl_read_loop :: "not_copied \<Rightarrow> umem \<Rightarrow> nat \<Rightarrow> nat \<Rightarrow> char \<Rightarrow> bool \<times> umem" where
  "ioctl_read_loop nc u buf 0 c = (False, u)"
| "ioctl_read_loop nc u buf (Suc n) c =
     (case copy_to_user nc u buf [c] of
        (k, u) \<Rightarrow> if k \<noteq> 0 then (True, u) else ioctl_read_loop nc u (Suc buf) n c)"

definition test_ioctl_read ::
    "not_copied \<Rightarrow> ioctl_sys \<Rightarrow> nat \<Rightarrow> umem \<Rightarrow> nat \<Rightarrow> nat \<Rightarrow> (int \<times> umem) option" where
  "test_ioctl_read nc s f u buf count =
     do { p \<leftarrow> it_files s f;
          val \<leftarrow> it_heap s p;
          let (fault, u) = ioctl_read_loop nc u buf count (char_of (unat val));
          Some (if fault then - EFAULT else int count, u) }"

definition test_ioctl_close :: "ioctl_sys \<Rightarrow> nat \<Rightarrow> (int \<times> ioctl_sys) option" where
  "test_ioctl_close s f =
     (case it_files s f of
        None \<Rightarrow> Some (0, s)
      | Some p \<Rightarrow>
          do { heap \<leftarrow> kfree (it_heap s) p;
               Some (0, s\<lparr>it_heap := heap, it_files := (it_files s)(f := None)\<rparr>) })"

text \<open>\<open>kmalloc\<close> returns the address of an object or \<open>None\<close>.\<close>

definition test_ioctl_open :: "nat option \<Rightarrow> ioctl_sys \<Rightarrow> nat \<Rightarrow> int \<times> ioctl_sys" where
  "test_ioctl_open kmalloc s f =
     (case kmalloc of
        None \<Rightarrow> (- ENOMEM, s)
      | Some p \<Rightarrow> (0, s\<lparr>it_heap := (it_heap s)(p \<mapsto> 0xFF), it_files := (it_files s)(f \<mapsto> p)\<rparr>))"

record ioctl_env =
  ret_alloc_region :: int
  ret_add_cdev :: int

definition ioctl_init :: "ioctl_env \<Rightarrow> ioctl_sys \<Rightarrow> int \<times> ioctl_sys \<times> event list" where [mod_init]:
  "ioctl_init e s =
     (if ret_alloc_region e \<noteq> 0 then (ret_alloc_region e, s, [])
      else if ret_add_cdev e \<noteq> 0 then (ret_add_cdev e, s, [Acq ChrRegion, Rel ChrRegion])
      else (0, s, [Acq ChrRegion, Acq Cdev]))"

definition ioctl_exit :: "ioctl_sys \<Rightarrow> event list" where [mod_init]:
  "ioctl_exit s = [Rel Cdev, Rel ChrRegion]"

interpretation ioctl_mod: lkm_module ioctl_init ioctl_exit
  by (rule lkm_moduleI) (auto simp: mod_init split: if_splits)

section \<open>Invariant\<close>

text \<open>Every open file has an object of its own, and there are no other objects.\<close>

definition ioctl_inv :: "ioctl_sys \<Rightarrow> bool" where
  "ioctl_inv s \<longleftrightarrow>
     (\<forall>f p. it_files s f = Some p \<longrightarrow> it_heap s p \<noteq> None) \<and>
     (\<forall>f g p. it_files s f = Some p \<and> it_files s g = Some p \<longrightarrow> f = g) \<and>
     (\<forall>p. it_heap s p \<noteq> None \<longrightarrow> (\<exists>f. it_files s f = Some p))"

lemma ioctl_inv_file: "ioctl_inv s \<Longrightarrow> it_files s f = Some p \<Longrightarrow> \<exists>v. it_heap s p = Some v"
  unfolding ioctl_inv_def by blast

lemma ioctl_inv_unique:
  "ioctl_inv s \<Longrightarrow> it_files s f = Some p \<Longrightarrow> it_files s g = Some p \<Longrightarrow> f = g"
  unfolding ioctl_inv_def by blast

lemma ioctl_inv_used: "ioctl_inv s \<Longrightarrow> it_heap s p = Some v \<Longrightarrow> \<exists>f. it_files s f = Some p"
  unfolding ioctl_inv_def by blast

lemma ioctl_invI:
  assumes "\<And>f p. it_files s f = Some p \<Longrightarrow> \<exists>v. it_heap s p = Some v"
    and "\<And>f g p. it_files s f = Some p \<Longrightarrow> it_files s g = Some p \<Longrightarrow> f = g"
    and "\<And>p v. it_heap s p = Some v \<Longrightarrow> \<exists>f. it_files s f = Some p"
  shows "ioctl_inv s"
  using assms unfolding ioctl_inv_def by blast

lemma ioctl_zero_inv: "ioctl_inv ioctl_zero"
  by (simp add: ioctl_inv_def ioctl_zero_def)

lemma ioctl_inv_update:
  "ioctl_inv s \<Longrightarrow> it_heap s p \<noteq> None \<Longrightarrow> ioctl_inv (s\<lparr>it_heap := (it_heap s)(p \<mapsto> v)\<rparr>)"
  unfolding ioctl_inv_def by (auto split: if_splits)

lemma test_ioctl_open_inv:
  assumes inv: "ioctl_inv s" and f: "it_files s f = None"
    and fresh: "\<And>p. kmalloc = Some p \<Longrightarrow> it_heap s p = None"
  shows "ioctl_inv (snd (test_ioctl_open kmalloc s f))"
proof (cases kmalloc)
  case None
  with inv show ?thesis by (simp add: test_ioctl_open_def)
next
  case (Some p)
  with fresh have p: "it_heap s p = None" by simp
  have "it_files s g \<noteq> Some p" for g using ioctl_inv_file[OF inv, of g p] p by auto
  let ?s = "snd (test_ioctl_open kmalloc s f)"
  have s: "it_heap ?s = (it_heap s)(p \<mapsto> 0xFF)" "it_files ?s = (it_files s)(f \<mapsto> p)"
    using Some by (simp_all add: test_ioctl_open_def)
  have other: "it_files s g \<noteq> Some p" for g using ioctl_inv_file[OF inv, of g p] p by auto
  show ?thesis
  proof (rule ioctl_invI)
    fix g q
    assume "it_files ?s g = Some q"
    then show "\<exists>v. it_heap ?s q = Some v"
      using ioctl_inv_file[OF inv, of g q] by (auto simp: s split: if_splits)
  next
    fix g h q
    assume "it_files ?s g = Some q" "it_files ?s h = Some q"
    then show "g = h"
      using ioctl_inv_unique[OF inv, of g q h] other by (auto simp: s split: if_splits)
  next
    fix q w
    assume w: "it_heap ?s q = Some w"
    show "\<exists>g. it_files ?s g = Some q"
    proof (cases "q = p")
      case True
      then show ?thesis by (intro exI[of _ f]) (simp add: s)
    next
      case False
      with w have "it_heap s q = Some w" by (simp add: s)
      from ioctl_inv_used[OF inv this] obtain g where g: "it_files s g = Some q" by blast
      with f have "g \<noteq> f" by auto
      with g show ?thesis by (intro exI[of _ g]) (simp add: s)
    qed
  qed
qed

lemma test_ioctl_close_inv:
  assumes inv: "ioctl_inv s"
  shows "\<exists>s'. test_ioctl_close s f = Some (0, s') \<and> ioctl_inv s' \<and> it_files s' f = None"
proof (cases "it_files s f")
  case None
  with inv show ?thesis by (simp add: test_ioctl_close_def)
next
  case (Some p)
  with ioctl_inv_file[OF inv Some] obtain v where v: "it_heap s p = Some v" by blast
  let ?s = "s\<lparr>it_heap := (it_heap s)(p := None), it_files := (it_files s)(f := None)\<rparr>"
  have "test_ioctl_close s f = Some (0, ?s)" using Some v by (simp add: test_ioctl_close_def kfree_def)
  moreover have "ioctl_inv ?s"
  proof (rule ioctl_invI)
    fix g q
    assume "it_files ?s g = Some q"
    then have g: "g \<noteq> f" "it_files s g = Some q" by (auto split: if_splits)
    with ioctl_inv_unique[OF inv Some, of g] have "q \<noteq> p" by auto
    with ioctl_inv_file[OF inv g(2)] show "\<exists>v. it_heap ?s q = Some v" by simp
  next
    fix g h q
    assume "it_files ?s g = Some q" "it_files ?s h = Some q"
    then show "g = h" using ioctl_inv_unique[OF inv, of g q h] by (auto split: if_splits)
  next
    fix q w
    assume "it_heap ?s q = Some w"
    then have q: "q \<noteq> p" "it_heap s q = Some w" by (auto split: if_splits)
    from ioctl_inv_used[OF inv q(2)] obtain g where "it_files s g = Some q" by blast
    with q(1) Some show "\<exists>g. it_files ?s g = Some q" by (intro exI[of _ g]) auto
  qed
  ultimately show ?thesis by simp
qed

lemma test_ioctl_ioctl_inv:
  assumes nc: "user_access nc" and inv: "ioctl_inv s" and f: "it_files s f = Some p"
    and user: "\<not> (cmd = IOCTL_VALGET_NUM \<and> kernel_address arg)"
  shows "\<exists>r s' u'. test_ioctl_ioctl nc s f u cmd arg = Some (r, s', u') \<and> ioctl_inv s' \<and>
    it_files s' = it_files s"
proof -
  from ioctl_inv_file[OF inv f] obtain v where v: "it_heap s p = Some v" by blast
  obtain n bs where c: "copy_from_user nc u (unat arg) 4 (replicate 4 NUL) = Some (n, bs)"
    by (simp add: copy_from_user_def)
  have "ioctl_inv (s\<lparr>it_heap := (it_heap s)(p \<mapsto> w)\<rparr>)" for w
    by (rule ioctl_inv_update[OF inv]) (simp add: v)
  moreover have "ioctl_inv (s\<lparr>it_num := w\<rparr>)" for w using inv by (simp add: ioctl_inv_def)
  ultimately show ?thesis using inv f v c user
    by (auto simp: test_ioctl_ioctl_def split: prod.splits)
qed

text \<open>A process sets the number and has it stored at any address of the kernel.\<close>

lemma ioctl_num_over_kernel:
  assumes "it_files s f = Some p" and "kernel_address target"
  shows "\<exists>s'. test_ioctl_ioctl nc s f u IOCTL_VALSET_NUM val = Some (0, s', u) \<and> it_num s' = ucast val \<and>
    test_ioctl_ioctl nc s' f u IOCTL_VALGET_NUM target = None"
  using assms by (simp add: test_ioctl_ioctl_def ioctl_test_nums)

section \<open>Any sequence of calls\<close>

text \<open>
  The file layer gives a new file a number that is not in use, calls \<open>release\<close> once for an open
  file, and passes ioctls only for open files; the allocator returns no address in use. Other
  actions change nothing.
\<close>

datatype ioctl_action =
    OpenFile nat "nat option"
  | CloseFile nat
  | IoctlFile nat umem "32 word" "64 word"

definition ioctl_exec :: "not_copied \<Rightarrow> ioctl_sys \<Rightarrow> ioctl_action \<Rightarrow> ioctl_sys option" where
  "ioctl_exec nc s act =
     (case act of
        OpenFile f kmalloc \<Rightarrow>
          Some (if it_files s f = None \<and> (case kmalloc of Some p \<Rightarrow> it_heap s p = None | None \<Rightarrow> True)
                then snd (test_ioctl_open kmalloc s f) else s)
      | CloseFile f \<Rightarrow> map_option snd (test_ioctl_close s f)
      | IoctlFile f u cmd arg \<Rightarrow>
          if it_files s f = None then Some s
          else map_option (\<lambda>(r, s, u). s) (test_ioctl_ioctl nc s f u cmd arg))"

fun ioctl_run :: "not_copied \<Rightarrow> ioctl_sys \<Rightarrow> ioctl_action list \<Rightarrow> ioctl_sys option" where
  "ioctl_run nc s [] = Some s"
| "ioctl_run nc s (act # acts) =
     (case ioctl_exec nc s act of None \<Rightarrow> None | Some s' \<Rightarrow> ioctl_run nc s' acts)"

text \<open>The only call that can go wrong.\<close>

definition stray_store :: "ioctl_sys \<Rightarrow> ioctl_action \<Rightarrow> bool" where
  "stray_store s act \<longleftrightarrow>
     (case act of
        IoctlFile f u cmd arg \<Rightarrow> it_files s f \<noteq> None \<and> cmd = IOCTL_VALGET_NUM \<and> kernel_address arg
      | _ \<Rightarrow> False)"

lemma ioctl_exec_inv:
  assumes nc: "user_access nc" and inv: "ioctl_inv s" and user: "\<not> stray_store s act"
  shows "\<exists>s'. ioctl_exec nc s act = Some s' \<and> ioctl_inv s'"
proof (cases act)
  case (OpenFile f kmalloc)
  with inv test_ioctl_open_inv[OF inv, of f kmalloc] show ?thesis
    by (auto simp: ioctl_exec_def split: option.splits)
next
  case (CloseFile f)
  with test_ioctl_close_inv[OF inv, of f] show ?thesis by (auto simp: ioctl_exec_def)
next
  case (IoctlFile f u cmd arg)
  with inv user test_ioctl_ioctl_inv[OF nc inv, of f _ cmd arg u] show ?thesis
    by (cases "it_files s f") (auto simp: ioctl_exec_def stray_store_def)
qed

lemma ioctl_run_inv:
  assumes nc: "user_access nc"
  shows "ioctl_inv s \<Longrightarrow>
    case ioctl_run nc s acts of
      Some s' \<Rightarrow> ioctl_inv s'
    | None \<Rightarrow> \<exists>pre act post s'. acts = pre @ act # post \<and> ioctl_run nc s pre = Some s' \<and> stray_store s' act"
proof (induction acts arbitrary: s)
  case Nil
  then show ?case by simp
next
  case (Cons act acts)
  show ?case
  proof (cases "stray_store s act")
    case True
    then obtain f u arg where act: "act = IoctlFile f u IOCTL_VALGET_NUM arg"
      and f: "it_files s f \<noteq> None" and arg: "kernel_address arg"
      by (cases act) (auto simp: stray_store_def)
    then have "ioctl_exec nc s act = None"
      by (auto simp: ioctl_exec_def test_ioctl_ioctl_def ioctl_test_nums)
    moreover have "act # acts = [] @ act # acts" "ioctl_run nc s [] = Some s" by simp_all
    ultimately show ?thesis using True by fastforce
  next
    case False
    from ioctl_exec_inv[OF nc Cons.prems False] obtain s1 where
      s1: "ioctl_exec nc s act = Some s1" "ioctl_inv s1" by blast
    show ?thesis
    proof (cases "ioctl_run nc s1 acts")
      case (Some s')
      with s1 Cons.IH[OF s1(2)] show ?thesis by simp
    next
      case None
      with Cons.IH[OF s1(2)] obtain pre act' post s' where
        "acts = pre @ act' # post" "ioctl_run nc s1 pre = Some s'" "stray_store s' act'" by auto
      then have "act # acts = (act # pre) @ act' # post \<and> ioctl_run nc s (act # pre) = Some s' \<and> stray_store s' act'"
        using s1 by simp
      moreover have "ioctl_run nc s (act # acts) = None" using None s1 by simp
      ultimately show ?thesis by (simp only: option.case) blast
    qed
  qed
qed

section \<open>Properties\<close>

text \<open>
  \<open>IOCTL_VALSET\<close> on a file keeps the low eight bits of its argument, which
  \<open>IOCTL_VALGET\<close> on that file then returns; the bytes of all other files stay. A number set with
  \<open>IOCTL_VALSET_NUM\<close> comes back from \<open>IOCTL_VALGET_NUM\<close> on any file, cut to 32 bits.
\<close>

lemma ioctl_set_then_get:
  assumes nc: "user_access nc" and inv: "ioctl_inv s" and f: "it_files s f = Some p"
    and g: "it_files s g = Some q"
    and m: "mapped u (unat arg) 4" and b: "get_bytes u (unat arg) 4 = le_bytes w"
    and m': "mapped u (unat arg') 4" and user: "\<not> kernel_address arg'"
  shows "(\<exists>s'. test_ioctl_ioctl nc s f u IOCTL_VALSET arg = Some (0, s', u) \<and>
      test_ioctl_ioctl nc s' f u IOCTL_VALGET arg' =
        Some (0, s', put_bytes u (unat arg') (le_bytes (take_bit 8 w))) \<and>
      (g \<noteq> f \<longrightarrow> it_heap s' q = it_heap s q)) \<and>
    (\<exists>s'. test_ioctl_ioctl nc s f u IOCTL_VALSET_NUM arg = Some (0, s', u) \<and>
      test_ioctl_ioctl nc s' g u IOCTL_VALGET_NUM arg' =
        Some (0, s', put_bytes u (unat arg') (le_bytes (ucast arg))))"
proof
  from ioctl_inv_file[OF inv f] obtain v where v: "it_heap s p = Some v" by blast
  let ?s = "s\<lparr>it_heap := (it_heap s)(p \<mapsto> ucast w)\<rparr>"
  have "copy_from_user nc u (unat arg) 4 (replicate 4 NUL) = Some (0, put_front (le_bytes w) (replicate 4 NUL))"
    using user_access.copy_from_user_ok[OF nc m, of "replicate 4 NUL"] b by simp
  moreover have "put_front (le_bytes w) (replicate 4 NUL) = le_bytes w" by (simp add: put_front_def)
  ultimately have 1: "test_ioctl_ioctl nc s f u IOCTL_VALSET arg = Some (0, ?s, u)"
    using f v by (simp add: test_ioctl_ioctl_def le_word_bytes)
  have "(ucast (ucast w :: 8 word) :: 32 word) = take_bit 8 w"
    by (rule bit_word_eqI) (auto simp: bit_simps)
  moreover have "mapped u (unat arg') (length (le_bytes (ucast (ucast w :: 8 word))))" using m' by simp
  note user_access.copy_to_user_ok[OF nc this]
  ultimately have 2: "test_ioctl_ioctl nc ?s f u IOCTL_VALGET arg' =
      Some (0, ?s, put_bytes u (unat arg') (le_bytes (take_bit 8 w)))"
    using f by (simp add: test_ioctl_ioctl_def ioctl_test_nums)
  have "g \<noteq> f \<Longrightarrow> q \<noteq> p" using ioctl_inv_unique[OF inv f, of g] g by auto
  with 1 2 show "\<exists>s'. test_ioctl_ioctl nc s f u IOCTL_VALSET arg = Some (0, s', u) \<and>
      test_ioctl_ioctl nc s' f u IOCTL_VALGET arg' =
        Some (0, s', put_bytes u (unat arg') (le_bytes (take_bit 8 w))) \<and>
      (g \<noteq> f \<longrightarrow> it_heap s' q = it_heap s q)" by (intro exI[of _ ?s]) simp
  show "\<exists>s'. test_ioctl_ioctl nc s f u IOCTL_VALSET_NUM arg = Some (0, s', u) \<and>
      test_ioctl_ioctl nc s' g u IOCTL_VALGET_NUM arg' =
        Some (0, s', put_bytes u (unat arg') (le_bytes (ucast arg)))"
    using f g m' user by (simp add: test_ioctl_ioctl_def ioctl_test_nums)
qed

definition ioctl_two :: ioctl_sys where
  "ioctl_two = snd (test_ioctl_open (Some 71) (snd (test_ioctl_open (Some 70) ioctl_zero 1)) 2)"

lemma ioctl_two_inv: "ioctl_inv ioctl_two"
  unfolding ioctl_two_def
  by (intro test_ioctl_open_inv ioctl_zero_inv)
    (auto simp: test_ioctl_open_def ioctl_zero_def)

lemma ioctl_set_then_get_witness:
  "\<exists>s'. test_ioctl_ioctl bytewise ioctl_two 1 (umem_with 8 (le_bytes 0x1234)) IOCTL_VALSET 8 =
      Some (0, s', umem_with 8 (le_bytes 0x1234)) \<and>
    test_ioctl_ioctl bytewise s' 1 (umem_with 8 (le_bytes 0x1234)) IOCTL_VALGET 40 =
      Some (0, s', put_bytes (umem_with 8 (le_bytes 0x1234)) 40 (le_bytes 0x34)) \<and>
    it_heap s' 71 = Some 0xFF"
proof -
  have f: "it_files ioctl_two 1 = Some 70" "it_files ioctl_two 2 = Some 71" "it_heap ioctl_two 71 = Some 0xFF"
    by (simp_all add: ioctl_two_def test_ioctl_open_def)
  have "get_bytes (umem_with 8 (le_bytes 0x1234)) 8 4 = le_bytes 0x1234"
    by (rule get_bytes_umem_with) simp
  with ioctl_set_then_get[OF bytewise.user_access_axioms ioctl_two_inv f(1,2),
      of "umem_with 8 (le_bytes 0x1234)" 8 "0x1234" 40] f(3)
  show ?thesis by (auto simp: kernel_address_def)
qed

text \<open>
  C28 (invariant): for every sequence of opens, closes and ioctls, with any failures of the allocator
  and any arguments, every open file has an object of its own, and none is left when no file is
  open; no call uses an object that is not allocated and none is freed twice. The one thing that can
  go wrong is a store: a process gives \<open>IOCTL_VALGET_NUM\<close> an address of the kernel.
\<close>

theorem ioctl_objects_belong_to_files:
  assumes "user_access nc"
  shows "case ioctl_run nc ioctl_zero acts of
      Some s \<Rightarrow>
        (\<forall>f p. it_files s f = Some p \<longrightarrow> it_heap s p \<noteq> None \<and> (\<forall>g. it_files s g = Some p \<longrightarrow> g = f)) \<and>
        ((\<forall>f. it_files s f = None) \<longrightarrow> (\<forall>p. it_heap s p = None))
    | None \<Rightarrow> \<exists>pre act post s. acts = pre @ act # post \<and> ioctl_run nc ioctl_zero pre = Some s \<and> stray_store s act"
proof (cases "ioctl_run nc ioctl_zero acts")
  case None
  with ioctl_run_inv[OF assms ioctl_zero_inv, of acts] show ?thesis by simp
next
  case (Some s)
  with ioctl_run_inv[OF assms ioctl_zero_inv, of acts] have s: "ioctl_inv s" by simp
  have "it_heap s p = None" if "\<forall>f. it_files s f = None" for p
    using ioctl_inv_used[OF s, of p] that by (cases "it_heap s p") auto
  with Some ioctl_inv_file[OF s] ioctl_inv_unique[OF s] show ?thesis by fastforce
qed

theorem ioctl_objects_belong_to_files_witness:
  "\<exists>s. ioctl_run bytewise ioctl_zero
    [OpenFile 1 (Some 70), OpenFile 2 None, IoctlFile 1 (\<lambda>_. None) IOCTL_VALSET_NUM 8, CloseFile 1] = Some s \<and>
    (\<forall>p. it_heap s p = None)"
proof -
  let ?acts = "[OpenFile 1 (Some 70), OpenFile 2 None, IoctlFile 1 (\<lambda>_. None) IOCTL_VALSET_NUM 8, CloseFile 1]"
  obtain s where s: "ioctl_run bytewise ioctl_zero ?acts = Some s" "\<forall>f. it_files s f = None"
    by (simp add: ioctl_exec_def test_ioctl_open_def ioctl_zero_def test_ioctl_ioctl_def ioctl_test_nums
        test_ioctl_close_def kfree_def)
  with ioctl_objects_belong_to_files[OF bytewise.user_access_axioms, of ?acts] show ?thesis by auto
qed

end
