(* ===== verification/Procfs.thy ===== *)
theory Procfs
  imports Vfs Resources
begin

text \<open>
  \<open>procfs1.c\<close> to \<open>procfs4.c\<close>: files below \<open>/proc\<close>. The first two show a fixed text, the second and
  third keep what is written in an array, the fourth counts with the kernel's sequence interface.
\<close>

section \<open>The fixed text\<close>

text \<open>\<open>procfile_read\<close> of the first two modules: the array \<open>s\<close> has 13 bytes with the terminator.\<close>

definition procfile_text :: "char list" where
  "procfile_text = ''HelloWorld!'' @ [NL, NUL]"

definition procfile_read ::
    "not_copied \<Rightarrow> umem \<Rightarrow> nat \<Rightarrow> nat \<Rightarrow> int \<Rightarrow> int \<times> int \<times> umem" where
  "procfile_read nc u buffer buffer_length offset =
     (let len = int (length procfile_text) in
      if len \<le> offset then (0, offset, u)
      else let (n, u) = copy_to_user nc u buffer procfile_text in
           if n \<noteq> 0 then (0, offset, u) else (len, offset + len, u))"

section \<open>Arrays that are written\<close>

record procfs =
  pf_buffer :: "char list"
  pf_buffer_size :: nat

definition procfs2_MAX_SIZE :: nat where
  "procfs2_MAX_SIZE = 1024"

definition procfs2_zero :: procfs where
  "procfs2_zero = \<lparr>pf_buffer = replicate procfs2_MAX_SIZE NUL, pf_buffer_size = 0\<rparr>"

text \<open>
  The second module reads the fixed text too, and never the array. The results of a write: the return
  value, the offset, the state.
\<close>

definition procfs2_read ::
    "not_copied \<Rightarrow> umem \<Rightarrow> nat \<Rightarrow> nat \<Rightarrow> int \<Rightarrow> int \<times> int \<times> umem" where
  "procfs2_read nc u buffer buffer_length offset =
     (let s = procfile_text; len = int (length s); ret = len in
      if len \<le> offset then (0, offset, u)
      else case copy_to_user nc u buffer s of
             (n, u) \<Rightarrow> if n \<noteq> 0 then (0, offset, u) else (ret, offset + len, u))"

lemma procfs2_read_same: "procfs2_read = procfile_read"
  by (simp add: fun_eq_iff procfs2_read_def procfile_read_def Let_def)

definition procfs2_write ::
    "not_copied \<Rightarrow> procfs \<Rightarrow> umem \<Rightarrow> nat \<Rightarrow> nat \<Rightarrow> int \<Rightarrow> (int \<times> int \<times> procfs) option" where
  "procfs2_write nc s u buff len off =
     (let s = s\<lparr>pf_buffer_size := len\<rparr>;
          s = (if procfs2_MAX_SIZE \<le> pf_buffer_size s
               then s\<lparr>pf_buffer_size := procfs2_MAX_SIZE - 1\<rparr> else s)
      in case copy_from_user nc u buff (pf_buffer_size s) (pf_buffer s) of
           None \<Rightarrow> None
         | Some (n, bs) \<Rightarrow>
             let s = s\<lparr>pf_buffer := bs\<rparr> in
             if n \<noteq> 0 then Some (- EFAULT, off, s)
             else if pf_buffer_size s < length (pf_buffer s)
             then Some (int (pf_buffer_size s), off + int (pf_buffer_size s),
                    s\<lparr>pf_buffer := (pf_buffer s)[pf_buffer_size s := NUL]\<rparr>)
             else None)"

definition procfs3_MAX_SIZE :: nat where
  "procfs3_MAX_SIZE = 2048"

definition procfs3_zero :: procfs where
  "procfs3_zero = \<lparr>pf_buffer = replicate procfs3_MAX_SIZE NUL, pf_buffer_size = 0\<rparr>"

text \<open>The result of a read: the return value, the offset, the state, the user memory.\<close>

definition procfs3_read ::
    "not_copied \<Rightarrow> procfs \<Rightarrow> umem \<Rightarrow> nat \<Rightarrow> nat \<Rightarrow> int \<Rightarrow> (int \<times> int \<times> procfs \<times> umem) option" where
  "procfs3_read nc s u buffer len offset =
     (if offset \<noteq> 0 \<or> pf_buffer_size s = 0 then Some (0, 0, s, u)
      else let s = s\<lparr>pf_buffer_size := min (pf_buffer_size s) len\<rparr> in
      if length (pf_buffer s) < pf_buffer_size s then None
      else let (n, u) = copy_to_user nc u buffer (take (pf_buffer_size s) (pf_buffer s)) in
      if n \<noteq> 0 then Some (- EFAULT, offset, s, u)
      else Some (int (pf_buffer_size s), offset + int (pf_buffer_size s), s, u))"

definition procfs3_write ::
    "not_copied \<Rightarrow> procfs \<Rightarrow> umem \<Rightarrow> nat \<Rightarrow> nat \<Rightarrow> int \<Rightarrow> (int \<times> int \<times> procfs) option" where
  "procfs3_write nc s u buffer len off =
     (let s = s\<lparr>pf_buffer_size := min procfs3_MAX_SIZE len\<rparr>
      in case copy_from_user nc u buffer (pf_buffer_size s) (pf_buffer s) of
           None \<Rightarrow> None
         | Some (n, bs) \<Rightarrow>
             let s = s\<lparr>pf_buffer := bs\<rparr> in
             if n \<noteq> 0 then Some (- EFAULT, off, s)
             else Some (int (pf_buffer_size s), off + int (pf_buffer_size s), s))"

definition procfs3_open :: int where
  "procfs3_open = 0"

definition procfs3_close :: int where
  "procfs3_close = 0"

section \<open>The sequence\<close>

text \<open>
  The counter is a static variable of \<open>my_seq_start\<close>. \<open>start\<close> gives whether there is an
  element (the pointer to the counter) and the new position; \<open>show\<close> prints the counter, read
  through a pointer to a signed number.
\<close>

definition my_seq_start :: "int \<Rightarrow> bool \<times> int" where
  "my_seq_start pos = (if pos = 0 then (True, pos) else (False, 0))"

definition my_seq_next :: "64 word \<Rightarrow> int \<Rightarrow> bool \<times> 64 word \<times> int" where
  "my_seq_next counter pos = (False, counter + 1, pos + 1)"

definition my_seq_stop :: "64 word \<Rightarrow> 64 word" where
  "my_seq_stop counter = counter"

definition my_seq_show :: "64 word \<Rightarrow> char list" where
  "my_seq_show counter = dec (sint counter) @ [NL]"

text \<open>
  How the kernel documents that it reads a sequence: \<open>start\<close> at the position of the file,
  \<open>show\<close> and \<open>next\<close> as long as there is an element, then \<open>stop\<close>. One read of a large enough
  buffer: what is shown, the counter and the position. \<open>fuel\<close> bounds the elements.
\<close>

fun seq_loop :: "nat \<Rightarrow> bool \<Rightarrow> 64 word \<Rightarrow> int \<Rightarrow> char list \<Rightarrow> (char list \<times> 64 word \<times> int) option" where
  "seq_loop fuel False counter pos out = Some (out, my_seq_stop counter, pos)"
| "seq_loop 0 True counter pos out = None"
| "seq_loop (Suc fuel) True counter pos out =
     (let out = out @ my_seq_show counter;
          (more, counter, pos) = my_seq_next counter pos
      in seq_loop fuel more counter pos out)"

definition my_seq_read :: "64 word \<Rightarrow> int \<Rightarrow> (char list \<times> 64 word \<times> int) option" where
  "my_seq_read counter pos =
     (let (more, pos) = my_seq_start pos in seq_loop 2 more counter pos [])"

section \<open>Load and unload\<close>

text \<open>All four modules create one file and remove it; \<open>ok\<close> is the success of \<open>proc_create\<close>.\<close>

definition procfs1_init :: "bool \<Rightarrow> unit \<Rightarrow> int \<times> unit \<times> event list" where [mod_init]:
  "procfs1_init ok s = (if \<not> ok then (- ENOMEM, s, []) else (0, s, [Acq (ProcEntry ''helloworld'')]))"

definition procfs1_exit :: "unit \<Rightarrow> event list" where [mod_init]:
  "procfs1_exit s = [Rel (ProcEntry ''helloworld'')]"

definition procfs2_init :: "bool \<Rightarrow> procfs \<Rightarrow> int \<times> procfs \<times> event list" where [mod_init]:
  "procfs2_init ok s = (if \<not> ok then (- ENOMEM, s, []) else (0, s, [Acq (ProcEntry ''buffer1k'')]))"

definition procfs2_exit :: "procfs \<Rightarrow> event list" where [mod_init]:
  "procfs2_exit s = [Rel (ProcEntry ''buffer1k'')]"

definition procfs3_init :: "bool \<Rightarrow> procfs \<Rightarrow> int \<times> procfs \<times> event list" where [mod_init]:
  "procfs3_init ok s = (if \<not> ok then (- ENOMEM, s, []) else (0, s, [Acq (ProcEntry ''buffer2k'')]))"

definition procfs3_exit :: "procfs \<Rightarrow> event list" where [mod_init]:
  "procfs3_exit s = [Rel (ProcEntry ''buffer2k'')]"

definition procfs4_init :: "bool \<Rightarrow> 64 word \<Rightarrow> int \<times> 64 word \<times> event list" where [mod_init]:
  "procfs4_init ok s = (if \<not> ok then (- ENOMEM, s, []) else (0, s, [Acq (ProcEntry ''iter'')]))"

definition procfs4_exit :: "64 word \<Rightarrow> event list" where [mod_init]:
  "procfs4_exit s = [Rel (ProcEntry ''iter'')]"

interpretation procfs1_mod: lkm_module procfs1_init procfs1_exit
  by (rule lkm_moduleI) (auto simp: mod_init split: if_splits)

interpretation procfs2_mod: lkm_module procfs2_init procfs2_exit
  by (rule lkm_moduleI) (auto simp: mod_init split: if_splits)

interpretation procfs3_mod: lkm_module procfs3_init procfs3_exit
  by (rule lkm_moduleI) (auto simp: mod_init split: if_splits)

interpretation procfs4_mod: lkm_module procfs4_init procfs4_exit
  by (rule lkm_moduleI) (auto simp: mod_init split: if_splits)

section \<open>What reads and writes do\<close>

text \<open>
  A write of any length to \<open>/proc/buffer1k\<close> stays in the array; it takes at most 1023 accessible
  bytes, after which the array holds them as a string; a faulting one returns \<open>-EFAULT\<close>.
\<close>

lemma procfs2_write_keeps_a_string:
  assumes nc: "user_access nc" and l: "length (pf_buffer s) = 1024"
  shows "\<exists>r off' s'. procfs2_write nc s u a len off = Some (r, off', s') \<and>
    length (pf_buffer s') = 1024 \<and>
    (if mapped u a (min 1023 len)
     then r = int (min 1023 len) \<and> off' = off + r \<and> terminated (pf_buffer s') \<and>
       cstr (pf_buffer s') = cstr (get_bytes u a (min 1023 len))
     else r = - EFAULT \<and> off' = off)"
proof -
  let ?k = "min 1023 len"
  let ?g = "get_bytes u a ?k"
  have k: "?k \<le> length (pf_buffer s)" using l by simp
  have kk: "?k = (if 1024 \<le> len then 1023 else len)" by simp
  have eq: "procfs2_write nc s u a len off =
    (case copy_from_user nc u a ?k (pf_buffer s) of None \<Rightarrow> None
     | Some (n, bs) \<Rightarrow>
         if n \<noteq> 0 then Some (- EFAULT, off, s\<lparr>pf_buffer_size := ?k, pf_buffer := bs\<rparr>)
         else if ?k < length bs
         then Some (int ?k, off + int ?k, s\<lparr>pf_buffer_size := ?k, pf_buffer := bs[?k := NUL]\<rparr>)
         else None)"
    unfolding kk procfs2_write_def procfs2_MAX_SIZE_def Let_def
    by (cases "1024 \<le> len") (simp_all split: option.split)
  show ?thesis
  proof (cases "mapped u a ?k")
    case True
    have "(put_front ?g (pf_buffer s))[?k := NUL] = put_front (?g @ [NUL]) (pf_buffer s)"
      using put_front_update[of ?g "pf_buffer s" NUL] l by simp
    moreover have "cstr (put_front (?g @ [NUL]) (pf_buffer s)) = cstr ?g"
      by (simp add: put_front_def cstr_snoc_NUL)
    moreover have "length (put_front (?g @ [NUL]) (pf_buffer s)) = 1024" using l by simp
    ultimately show ?thesis
      using True user_access.copy_from_user_ok[OF nc True k] l by (simp add: eq)
  next
    case False
    from user_access.copy_from_user_fault[OF nc False k] l False show ?thesis
      by (auto simp: eq)
  qed
qed

definition procfs3_good :: "procfs \<Rightarrow> bool" where
  "procfs3_good s \<longleftrightarrow> length (pf_buffer s) = procfs3_MAX_SIZE \<and> pf_buffer_size s \<le> procfs3_MAX_SIZE"

lemma procfs3_zero_good: "procfs3_good procfs3_zero"
  by (simp add: procfs3_good_def procfs3_zero_def)

lemma procfs3_write_ok:
  assumes nc: "user_access nc" and g: "procfs3_good s" and m: "mapped u a (min 2048 len)"
  shows "\<exists>s'. procfs3_write nc s u a len off = Some (int (min 2048 len), off + int (min 2048 len), s') \<and>
    procfs3_good s' \<and> pf_buffer_size s' = min 2048 len \<and>
    take (min 2048 len) (pf_buffer s') = get_bytes u a (min 2048 len)"
proof -
  let ?b = "get_bytes u a (min 2048 len)"
  have l: "length (pf_buffer s) = 2048" using g by (simp add: procfs3_good_def procfs3_MAX_SIZE_def)
  then have "min 2048 len \<le> length (pf_buffer s)" by simp
  note user_access.copy_from_user_ok[OF nc m this]
  moreover have "length (put_front ?b (pf_buffer s)) = 2048" using l by simp
  moreover have "take (min 2048 len) (put_front ?b (pf_buffer s)) = ?b" by (simp add: put_front_def)
  ultimately show ?thesis
    by (simp add: procfs3_write_def procfs3_MAX_SIZE_def procfs3_good_def Let_def)
qed

lemma procfs3_read_ok:
  assumes nc: "user_access nc" and g: "procfs3_good s" and m: "mapped u b (min (pf_buffer_size s) n)"
    and z: "pf_buffer_size s \<noteq> 0"
  shows "procfs3_read nc s u b n 0 = Some (int (min (pf_buffer_size s) n), int (min (pf_buffer_size s) n),
    s\<lparr>pf_buffer_size := min (pf_buffer_size s) n\<rparr>,
    put_bytes u b (take (min (pf_buffer_size s) n) (pf_buffer s)))"
proof -
  have l: "min (pf_buffer_size s) n \<le> length (pf_buffer s)" using g
    by (simp add: procfs3_good_def min.coboundedI1)
  then have "mapped u b (length (take (min (pf_buffer_size s) n) (pf_buffer s)))" using m by simp
  note c = user_access.copy_to_user_ok[OF nc this]
  have "\<not> length (pf_buffer s) < min (pf_buffer_size s) n" using l by (simp only: not_less)
  with c z show ?thesis by (simp add: procfs3_read_def Let_def del: min_less_iff_disj min_less_iff_conj)
qed

section \<open>Properties\<close>

text \<open>
  A write to \<open>/proc/buffer2k\<close> keeps its first 2048 bytes. A read with a buffer of \<open>n\<close>
  bytes gets at most \<open>n\<close> of them and the next read of the file gets 0; but what a short read did
  not get is lost: a later reader gets no more than \<open>n\<close> bytes, however large its buffer.
\<close>

lemma procfs3_short_read_truncates:
  assumes nc: "user_access nc" and g: "procfs3_good s" and m: "mapped u a (min 2048 len)"
    and len: "0 < len" and n: "0 < n" and m1: "mapped u b n" and m2: "mapped u c k"
    and k: "n \<le> k"
  shows "\<exists>s1 s2 u1 u2 r. procfs3_write nc s u a len off = Some (int (min 2048 len), off + int (min 2048 len), s1) \<and>
    r = min (min 2048 len) n \<and>
    procfs3_read nc s1 u b n 0 = Some (int r, int r, s2, u1) \<and>
    get_bytes u1 b r = take n (get_bytes u a (min 2048 len)) \<and>
    procfs3_read nc s2 u1 b n (int r) = Some (0, 0, s2, u1) \<and>
    procfs3_read nc s2 u c k 0 = Some (int r, int r, s2, u2) \<and>
    get_bytes u2 c r = take n (get_bytes u a (min 2048 len))"
proof -
  let ?w = "min 2048 len"
  let ?r = "min ?w n"
  let ?g = "get_bytes u a ?w"
  from procfs3_write_ok[OF nc g m, of off] obtain s1 where
    w: "procfs3_write nc s u a len off = Some (int ?w, off + int ?w, s1)" and g1: "procfs3_good s1"
    and sz: "pf_buffer_size s1 = ?w" and b: "take ?w (pf_buffer s1) = ?g" by blast
  let ?s2 = "s1\<lparr>pf_buffer_size := ?r\<rparr>"
  have z: "pf_buffer_size s1 \<noteq> 0" using sz len by simp
  have t: "take ?r (pf_buffer s1) = take n ?g"
    unfolding b[symmetric] by (simp add: min.commute)
  have lt: "length (take n ?g) = ?r" by (simp add: min.commute)
  have r1: "procfs3_read nc s1 u b n 0 = Some (int ?r, int ?r, ?s2, put_bytes u b (take n ?g))"
    using procfs3_read_ok[OF nc g1 _ z, of u b n] mapped_mono[OF m1, of ?r] by (simp add: sz t)
  have g2: "procfs3_good ?s2" using g1 by (simp add: procfs3_good_def procfs3_MAX_SIZE_def)
  have z2: "pf_buffer_size ?s2 \<noteq> 0" using len n by simp
  have mr: "min ?r k = ?r" using k by simp
  have m2': "mapped u c ?r" using mapped_mono[OF m2, of ?r] k by simp
  have r2: "procfs3_read nc ?s2 u c k 0 = Some (int ?r, int ?r, ?s2, put_bytes u c (take n ?g))"
    using procfs3_read_ok[OF nc g2 _ z2, of u c k] m2' mr t by simp
  have e: "procfs3_read nc ?s2 x b n (int ?r) = Some (0, 0, ?s2, x)" for x
    using z2 by (simp add: procfs3_read_def)
  have get: "get_bytes (put_bytes u d (take n ?g)) d ?r = take n ?g" if "mapped u d ?r" for d
    using get_bytes_put_bytes[of u d "take n ?g"] that lt by simp
  show ?thesis
    using w r1 r2 e get[OF m2'] get[OF mapped_mono[OF m1, of ?r]] by auto
qed

lemma procfs3_short_read_truncates_witness:
  "\<exists>s1 s2 u1 u2. procfs3_write bytewise procfs3_zero (umem_with 8 ''hello'') 8 5 0 = Some (5, 5, s1) \<and>
    procfs3_read bytewise s1 (umem_with 8 ''hello'') 50 2 0 = Some (2, 2, s2, u1) \<and>
    procfs3_read bytewise s2 (umem_with 8 ''hello'') 90 100 0 = Some (2, 2, s2, u2) \<and>
    get_bytes u2 90 2 = ''he''"
proof -
  have "get_bytes (umem_with 8 ''hello'') 8 5 = ''hello''" by (rule get_bytes_umem_with) simp
  with procfs3_short_read_truncates[OF bytewise.user_access_axioms procfs3_zero_good, of
      "umem_with 8 ''hello''" 8 5 2 50 90 100 0] show ?thesis by (auto simp: numeral_eq_Suc)
qed

text \<open>
  A read of \<open>/proc/helloworld\<close> or \<open>/proc/buffer1k\<close> pays no attention to the length of the
  buffer: it stores 13 bytes, the terminator among them, in memory that may lie behind the
  buffer, and returns 13.
\<close>

lemma procfile_read_overruns:
  assumes nc: "user_access nc" and m: "mapped u a 13" and off: "off < 13"
  shows "\<exists>u'. procfile_read nc u a n off = (13, off + 13, u') \<and>
    get_bytes u' a 13 = ''HelloWorld!'' @ [NL, NUL] \<and>
    (\<forall>i<13. u' (a + i) = Some ((''HelloWorld!'' @ [NL, NUL]) ! i))"
proof -
  have l: "length procfile_text = 13" by (simp add: procfile_text_def)
  then have m': "mapped u a (length procfile_text)" using m by simp
  have "get_bytes (put_bytes u a procfile_text) a 13 = procfile_text"
    using get_bytes_put_bytes[OF m'] l by simp
  moreover have "put_bytes u a procfile_text (a + i) = Some (procfile_text ! i)" if "i < 13" for i
    using put_bytes_at[of i procfile_text u a] that l m by (simp add: mapped_iff)
  ultimately show ?thesis
    using user_access.copy_to_user_ok[OF nc m'] l off
    by (simp add: procfile_read_def Let_def) (simp add: procfile_text_def)
qed

lemma procfile_read_overruns_witness:
  "\<exists>u'. procfile_read bytewise (umem_with 4 []) 4 1 0 = (13, 13, u') \<and> u' 5 = Some CHR ''e''"
proof -
  from procfile_read_overruns[OF bytewise.user_access_axioms, of "umem_with 4 []" 4 0 1]
  obtain u' where u: "procfile_read bytewise (umem_with 4 []) 4 1 0 = (13, 13, u')"
    "\<forall>i<13. u' (4 + i) = Some ((''HelloWorld!'' @ [NL, NUL]) ! i)" by auto
  from u(2) have "u' (4 + 1) = Some ((''HelloWorld!'' @ [NL, NUL]) ! 1)"
    by (rule allE[of _ 1]) simp
  with u(1) show ?thesis by simp
qed

text \<open>
  The k-th process that reads \<open>/proc/iter\<close> from the beginning to the end gets the
  number k - 1 and a newline, and then the end of the file; the number wraps at 64 bits.
\<close>

lemma procfs4_counts:
  "my_seq_read (of_nat k) 0 = Some (dec (sint (of_nat k :: 64 word)) @ [NL], of_nat (Suc k), 1) \<and>
    my_seq_read c 1 = Some ([], c, 0)"
  by (simp add: my_seq_read_def my_seq_start_def my_seq_next_def my_seq_stop_def my_seq_show_def
      numeral_eq_Suc add.commute)

end
