(* ===== verification/Syscall_Steal.thy ===== *)
theory Syscall_Steal
  imports User_Memory Resources
begin

text \<open>
  \<open>syscall-steal.c\<close>: a module that puts its own function into the kernel's table of system
  calls, writes the names of the files that one user opens to the log, and calls the function
  that was in the table before. Any number of such modules may be loaded at the same time.
\<close>

section \<open>The kernel's memory\<close>

text \<open>
  Words of 64 bits at addresses; an address that is not mapped has no entry. A write to a
  read-only address faults while bit 16 of the register CR0 is set.
\<close>

record kernel =
  kn_mem :: "64 word \<rightharpoonup> 64 word"
  kn_ro :: "64 word \<Rightarrow> bool"
  kn_cr0 :: "64 word"

definition kwrite :: "kernel \<Rightarrow> 64 word \<Rightarrow> 64 word \<Rightarrow> kernel option" where
  "kwrite k a v =
     (if kn_mem k a = None \<or> kn_ro k a \<and> bit (kn_cr0 k) 16 then None
      else Some (k\<lparr>kn_mem := (kn_mem k)(a \<mapsto> v)\<rparr>))"

text \<open>The address of the entry \<open>nr\<close> of a table.\<close>

definition sct_entry :: "64 word \<Rightarrow> 64 word \<Rightarrow> 64 word" where
  "sct_entry table nr = table + 8 * nr"

definition enable_write_protection :: "kernel \<Rightarrow> kernel" where
  "enable_write_protection k =
     (let cr0 = kn_cr0 k; cr0 = set_bit 16 cr0 in k\<lparr>kn_cr0 := cr0\<rparr>)"

definition disable_write_protection :: "kernel \<Rightarrow> kernel" where
  "disable_write_protection k =
     (let cr0 = kn_cr0 k; cr0 = unset_bit 16 cr0 in k\<lparr>kn_cr0 := cr0\<rparr>)"

section \<open>The search for the table\<close>

text \<open>
  Up to Linux 5.4 the module looks at every address from \<open>PAGE_OFFSET\<close> on. The result is
  \<open>None\<close> when the loop does not end, and \<open>Some None\<close> when it reads an address that is not
  mapped; else it is the pointer returned, 0 for \<open>NULL\<close>. \<open>nr\<close> is \<open>__NR_close\<close>, \<open>f\<close> is
  \<open>ksys_close\<close>.
\<close>

partial_function (option) sct_search ::
    "(64 word \<rightharpoonup> 64 word) \<Rightarrow> 64 word \<Rightarrow> 64 word \<Rightarrow> 64 word \<Rightarrow> 64 word option option" where
  [code]: "sct_search mem nr f offset =
     (if offset < - 1
      then (case mem (sct_entry offset nr) of
              None \<Rightarrow> Some None
            | Some w \<Rightarrow> if w = f then Some (Some offset) else sct_search mem nr f (offset + 8))
      else Some (Some 0))"

text \<open>
  The four programs that the preprocessor makes of \<open>acquire_sys_call_table\<close>, with what they ask
  from the kernel: \<open>Ksys_Close\<close> searches; \<open>Sym_Param\<close> checks the module parameter \<open>sym\<close> with
  the text that \<open>sprint_symbol\<close> prints into an array of 40 bytes; \<open>Kprobe\<close> finds the address of
  the function \<open>kallsyms_lookup_name\<close> by registering a probe, and calls what is there; \<open>Kallsyms\<close>
  calls it by name.
\<close>

datatype acquire_env =
    Ksys_Close "64 word \<rightharpoonup> 64 word" "64 word" "64 word" "64 word"
  | Sym_Param "64 word" "64 word \<Rightarrow> char list"
  | Kprobe int "64 word" "64 word \<Rightarrow> char list \<Rightarrow> 64 word"
  | Kallsyms "char list \<Rightarrow> 64 word"

definition sct_name :: "char list" where
  "sct_name = ''sys_call_table''"

definition acquire_sys_call_table :: "acquire_env \<Rightarrow> 64 word option option" where
  "acquire_sys_call_table e =
     (case e of
        Ksys_Close mem nr f page_offset \<Rightarrow> sct_search mem nr f page_offset
      | Sym_Param addr sprint_symbol \<Rightarrow>
          if addr = 0 then Some (Some 0)
          else (case store_str (replicate 40 NUL) (sprint_symbol addr) of
                  None \<Rightarrow> Some None
                | Some symbol \<Rightarrow> Some (Some (if has_prefix symbol sct_name then addr else 0)))
      | Kprobe ret addr call \<Rightarrow>
          Some (Some (if ret < 0 then 0 else call addr sct_name))
      | Kallsyms kallsyms_lookup_name \<Rightarrow> Some (Some (kallsyms_lookup_name sct_name)))"

section \<open>The system call\<close>

text \<open>
  The loop over the name: the characters written to the log, with the one that ends the loop.
  \<open>get_user\<close> gives 0 for an address that faults.
\<close>

partial_function (option) spy_loop :: "umem \<Rightarrow> nat \<Rightarrow> nat \<Rightarrow> char list option" where
  [code]: "spy_loop u filename i =
     (let ch = get_user u (filename + i); i = i + 1 in
      if ch \<noteq> NUL then do { name \<leftarrow> spy_loop u filename i; Some (ch # name) } else Some [ch])"

record steal =
  st_uid :: "32 word"
  st_table :: "64 word"
  st_original :: "64 word"

text \<open>
  \<open>our_sys_openat\<close> for a process of the user \<open>cur\<close>: the file name in the log, if it is reported.
  The call itself goes on to \<open>st_original\<close>.
\<close>

definition our_sys_openat :: "steal \<Rightarrow> 32 word \<Rightarrow> umem \<Rightarrow> nat \<Rightarrow> char list list option" where
  "our_sys_openat s cur u filename =
     (if cur \<noteq> st_uid s then Some []
      else map_option (\<lambda>name. [name]) (spy_loop u filename 0))"

text \<open>
  The program with a probe instead of the table: \<open>sys_call_kprobe_pre_handler\<close> writes the
  symbol to the log, the system call then runs as ever.
\<close>

definition sys_call_kprobe_pre_handler ::
    "char list \<Rightarrow> 32 word \<Rightarrow> 32 word \<Rightarrow> char list list \<times> int" where
  "sys_call_kprobe_pre_handler syscall_sym uid cur =
     (if cur \<noteq> uid then ([], 0)
      else ([syscall_sym @ '' called by '' @ dec (sint uid) @ [NL]], 0))"

section \<open>Load and unload\<close>

text \<open>
  \<open>table\<close> is what \<open>acquire_sys_call_table\<close> returned, \<open>our\<close> the address of \<open>our_sys_openat\<close>, \<open>nr\<close>
  is \<open>__NR_openat\<close>.
\<close>

definition syscall_steal_start ::
    "64 word \<Rightarrow> 64 word \<Rightarrow> 64 word \<Rightarrow> steal \<Rightarrow> kernel \<Rightarrow> (int \<times> steal \<times> kernel) option" where
  "syscall_steal_start table our nr s k =
     (let s = s\<lparr>st_table := table\<rparr> in
      if table = 0 then Some (- 1, s, k)
      else let k = disable_write_protection k in
      do { original_call \<leftarrow> kn_mem k (sct_entry (st_table s) nr);
           let s = s\<lparr>st_original := original_call\<rparr>;
           k \<leftarrow> kwrite k (sct_entry (st_table s) nr) our;
           Some (0, s, enable_write_protection k) })"

definition syscall_steal_end :: "64 word \<Rightarrow> steal \<Rightarrow> kernel \<Rightarrow> kernel option" where
  "syscall_steal_end nr s k =
     (if st_table s = 0 then Some k
      else let k = disable_write_protection k in
      do { k \<leftarrow> kwrite k (sct_entry (st_table s) nr) (st_original s);
           Some (enable_write_protection k) })"

text \<open>The program with a probe; its variable is \<open>syscall_sym\<close>, \<open>err\<close> what \<open>register_kprobe\<close> returns.\<close>

definition syscall_kprobe_start :: "int \<Rightarrow> string \<Rightarrow> int \<times> string \<times> event list" where [mod_init]:
  "syscall_kprobe_start err syscall_sym =
     (if err \<noteq> 0 then (err, syscall_sym, []) else (0, syscall_sym, [Acq (Kprobe_at syscall_sym)]))"

definition syscall_kprobe_end :: "string \<Rightarrow> event list" where [mod_init]:
  "syscall_kprobe_end syscall_sym = [Rel (Kprobe_at syscall_sym)]"

interpretation steal_kprobe_mod: lkm_module syscall_kprobe_start syscall_kprobe_end
  by (rule lkm_moduleI) (auto simp: mod_init split: if_splits)

section \<open>The search never fails\<close>

text \<open>
  From an address that is a multiple of 8 the search does not come to its \<open>return NULL\<close>: the
  highest address it can reach is below \<open>ULLONG_MAX\<close>, and then it wraps round to 0.
\<close>

definition aligned :: "64 word \<Rightarrow> bool" where
  "aligned offset \<longleftrightarrow> unat offset mod 8 = 0"

lemma aligned_less_max: "aligned offset \<Longrightarrow> offset < - 1"
proof -
  assume "aligned offset"
  then have "offset \<noteq> - 1" by (auto simp: aligned_def unsigned_minus_1_eq_mask mask_eq_exp_minus_1)
  then show ?thesis by (simp add: word_order.not_eq_extremum)
qed

lemma aligned_step: "aligned offset \<Longrightarrow> aligned (offset + 8 * of_nat n)"
proof (induction n)
  case 0
  then show ?case by simp
next
  case (Suc n)
  have "aligned (w + 8)" if w: "aligned w" for w
  proof -
    have "unat (w + 8) = (unat w + 8) mod 2 ^ 64" by (simp add: unat_word_ariths)
    moreover have "(unat w + 8) mod 2 ^ 64 mod 8 = (unat w + 8) mod 8"
      by (rule mod_mod_cancel, rule dvdI[of _ _ "2 ^ 61"]) simp
    ultimately show ?thesis using w by (simp add: aligned_def)
  qed
  from this[OF Suc.IH[OF Suc.prems]] show ?case by (simp add: algebra_simps)
qed

lemma sct_search_step:
  assumes "aligned offset"
  shows "sct_search mem nr f offset =
    (case mem (sct_entry offset nr) of None \<Rightarrow> Some None
     | Some w \<Rightarrow> if w = f then Some (Some offset) else sct_search mem nr f (offset + 8))"
  using aligned_less_max[OF assms] by (subst sct_search.simps) simp

lemma sct_search_never_fails:
  assumes "sct_search mem nr f offset = Some r" and "aligned offset"
  shows "r = None \<or> (\<exists>p. r = Some p \<and> aligned p \<and> mem (sct_entry p nr) = Some f)"
proof -
  have "aligned offset \<longrightarrow> r = None \<or> (\<exists>p. r = Some p \<and> aligned p \<and> mem (sct_entry p nr) = Some f)"
  proof (rule sct_search.raw_induct[OF _ assms(1)])
    fix search mem nr f offset r
    assume IH: "\<And>mem nr f offset r. search mem nr f offset = Some r \<Longrightarrow>
        aligned offset \<longrightarrow> r = None \<or> (\<exists>p. r = Some p \<and> aligned p \<and> mem (sct_entry p nr) = Some f)"
      and eq: "(if offset < - 1
        then (case mem (sct_entry offset nr) of None \<Rightarrow> Some None
              | Some w \<Rightarrow> if w = f then Some (Some offset) else search mem nr f (offset + 8))
        else Some (Some 0)) = Some r"
    show "aligned offset \<longrightarrow> r = None \<or> (\<exists>p. r = Some p \<and> aligned p \<and> mem (sct_entry p nr) = Some f)"
    proof
      assume a: "aligned offset"
      then have "aligned (offset + 8)" using aligned_step[of offset 1] by simp
      with eq aligned_less_max[OF a] a IH[of mem nr f "offset + 8" r]
      show "r = None \<or> (\<exists>p. r = Some p \<and> aligned p \<and> mem (sct_entry p nr) = Some f)"
        by (auto split: option.splits if_splits)
    qed
  qed
  with assms(2) show ?thesis by blast
qed

lemma sct_search_reads:
  assumes "sct_search mem nr f offset = Some None" and "aligned offset"
  shows "\<exists>p. aligned p \<and> mem (sct_entry p nr) = None"
proof -
  have "r = None \<longrightarrow> aligned offset \<longrightarrow> (\<exists>p. aligned p \<and> mem (sct_entry p nr) = None)"
    if s: "sct_search mem nr f offset = Some r" for r
  proof (rule sct_search.raw_induct[OF _ s])
    fix search mem nr f offset r
    assume IH: "\<And>mem nr f offset r. search mem nr f offset = Some r \<Longrightarrow>
        r = None \<longrightarrow> aligned offset \<longrightarrow> (\<exists>p. aligned p \<and> mem (sct_entry p nr) = None)"
      and eq: "(if offset < - 1
        then (case mem (sct_entry offset nr) of None \<Rightarrow> Some None
              | Some w \<Rightarrow> if w = f then Some (Some offset) else search mem nr f (offset + 8))
        else Some (Some 0)) = Some r"
    show "r = None \<longrightarrow> aligned offset \<longrightarrow> (\<exists>p. aligned p \<and> mem (sct_entry p nr) = None)"
    proof (intro impI)
      assume r: "r = None" and a: "aligned offset"
      then have "aligned (offset + 8)" using aligned_step[of offset 1] by simp
      with eq aligned_less_max[OF a] a r IH[of mem nr f "offset + 8" r]
      show "\<exists>p. aligned p \<and> mem (sct_entry p nr) = None"
        by (auto split: option.splits if_splits)
    qed
  qed
  from this[OF assms(1)] assms(2) show ?thesis by blast
qed

lemma sct_search_first:
  assumes "aligned offset"
    and "\<And>i. i < n \<Longrightarrow> \<exists>w. mem (sct_entry (offset + 8 * of_nat i) nr) = Some w \<and> w \<noteq> f"
    and "mem (sct_entry (offset + 8 * of_nat n) nr) = Some f"
  shows "sct_search mem nr f offset = Some (Some (offset + 8 * of_nat n))"
  using assms
proof (induction n arbitrary: offset)
  case 0
  then show ?case by (simp add: sct_search_step)
next
  case (Suc n)
  have a: "aligned (offset + 8)" using aligned_step[OF Suc.prems(1), of 1] by simp
  have s: "offset + 8 + 8 * of_nat i = offset + 8 * of_nat (Suc i)" for i
    by (simp add: algebra_simps)
  have "sct_search mem nr f (offset + 8) = Some (Some (offset + 8 + 8 * of_nat n))"
  proof (rule Suc.IH[OF a])
    show "\<exists>w. mem (sct_entry (offset + 8 + 8 * of_nat i) nr) = Some w \<and> w \<noteq> f" if "i < n" for i
      using Suc.prems(2)[of "Suc i"] that by (simp only: s Suc_less_eq)
    show "mem (sct_entry (offset + 8 + 8 * of_nat n) nr) = Some f"
      using Suc.prems(3) by (simp only: s)
  qed
  moreover from Suc.prems(2)[of 0] obtain w where "mem (sct_entry offset nr) = Some w" "w \<noteq> f"
    by auto
  ultimately show ?case using Suc.prems(1) by (simp add: sct_search_step s)
qed

section \<open>Several modules\<close>

text \<open>
  The modules loaded at a time, the newest first, each with the address of its function; an
  address is loaded only once. \<open>table\<close> is what every module finds.
\<close>

record steal_conf =
  sf_kernel :: kernel
  sf_loaded :: "(64 word \<times> steal) list"

datatype steal_action = Insmod "64 word" "32 word" | Rmmod "64 word"

definition steal_exec ::
    "64 word \<Rightarrow> 64 word \<Rightarrow> steal_conf \<Rightarrow> steal_action \<Rightarrow> steal_conf option" where
  "steal_exec table nr c act =
     (case act of
        Insmod a uid \<Rightarrow>
          if a \<in> fst ` set (sf_loaded c) then Some c
          else do { (r, s, k) \<leftarrow> syscall_steal_start table a nr
                      \<lparr>st_uid = uid, st_table = 0, st_original = 0\<rparr> (sf_kernel c);
                    Some \<lparr>sf_kernel = k,
                      sf_loaded = (if r = 0 then (a, s) # sf_loaded c else sf_loaded c)\<rparr> }
      | Rmmod a \<Rightarrow>
          (case map_of (sf_loaded c) a of
             None \<Rightarrow> Some c
           | Some s \<Rightarrow>
               do { k \<leftarrow> syscall_steal_end nr s (sf_kernel c);
                    Some \<lparr>sf_kernel = k,
                      sf_loaded = filter (\<lambda>m. fst m \<noteq> a) (sf_loaded c)\<rparr> }))"

fun steal_run ::
    "64 word \<Rightarrow> 64 word \<Rightarrow> steal_conf \<Rightarrow> steal_action list \<Rightarrow> steal_conf option" where
  "steal_run table nr c [] = Some c"
| "steal_run table nr c (act # acts) =
     (case steal_exec table nr c act of None \<Rightarrow> None | Some c' \<Rightarrow> steal_run table nr c' acts)"

text \<open>
  A call of the function at the address \<open>a\<close>, where \<open>real\<close> is the kernel's own: the names that
  are reported on the way to it, or \<open>None\<close> when the call jumps to code that is not there. Each
  function calls the one that its module found; \<open>fuel\<close> bounds the number of functions.
\<close>

fun openat_call ::
    "nat \<Rightarrow> (64 word \<times> steal) list \<Rightarrow> 64 word \<Rightarrow> 32 word \<Rightarrow> umem \<Rightarrow> nat \<Rightarrow> 64 word \<Rightarrow>
      char list list option" where
  "openat_call 0 loaded real cur u filename a = None"
| "openat_call (Suc fuel) loaded real cur u filename a =
     (if a = real then Some []
      else do { s \<leftarrow> map_of loaded a;
                names \<leftarrow> our_sys_openat s cur u filename;
                rest \<leftarrow> openat_call fuel loaded real cur u filename (st_original s);
                Some (names @ rest) })"

definition openat_syscall ::
    "64 word \<Rightarrow> 64 word \<Rightarrow> 64 word \<Rightarrow> steal_conf \<Rightarrow> 32 word \<Rightarrow> umem \<Rightarrow> nat \<Rightarrow>
      char list list option" where
  "openat_syscall table nr real c cur u filename =
     do { a \<leftarrow> kn_mem (sf_kernel c) (sct_entry table nr);
          openat_call (Suc (length (sf_loaded c))) (sf_loaded c) real cur u filename a }"

text \<open>
  The modules that are loaded after a sequence of actions in which only the newest module
  is unloaded, and none is loaded twice; \<open>None\<close> for other sequences.
\<close>

fun nest :: "(64 word \<times> 32 word) list \<Rightarrow> steal_action list \<Rightarrow> (64 word \<times> 32 word) list option" where
  "nest st [] = Some st"
| "nest st (Insmod a uid # acts) =
     (if a \<in> fst ` set st then None else nest ((a, uid) # st) acts)"
| "nest [] (Rmmod a # acts) = None"
| "nest (m # st) (Rmmod a # acts) = (if a = fst m then nest st acts else None)"

text \<open>Each module found the function of the one that was loaded before it.\<close>

fun chained :: "64 word \<Rightarrow> 64 word \<Rightarrow> (64 word \<times> 32 word) list \<Rightarrow> (64 word \<times> steal) list" where
  "chained table real [] = []"
| "chained table real (m # st) =
     (fst m, \<lparr>st_uid = snd m, st_table = table, st_original = hd (map fst st @ [real])\<rparr>) #
     chained table real st"

lemma fst_chained [simp]: "map fst (chained table real st) = map fst st"
  by (induction st) auto

lemma fst_set_chained [simp]: "fst ` set (chained table real st) = fst ` set st"
  by (metis fst_chained set_map)

lemma length_chained [simp]: "length (chained table real st) = length st"
  by (metis fst_chained length_map)

definition stolen ::
    "64 word \<Rightarrow> 64 word \<Rightarrow> 64 word \<Rightarrow> kernel \<Rightarrow> (64 word \<times> 32 word) list \<Rightarrow> steal_conf" where
  "stolen table nr real k st =
     \<lparr>sf_kernel = k\<lparr>kn_mem := (kn_mem k)(sct_entry table nr \<mapsto> hd (map fst st @ [real]))\<rparr>,
      sf_loaded = chained table real st\<rparr>"

lemma stolen_Nil:
  "kn_mem k (sct_entry table nr) = Some real \<Longrightarrow>
    stolen table nr real k [] = \<lparr>sf_kernel = k, sf_loaded = []\<rparr>"
  by (simp add: stolen_def fun_upd_idem)

lemma set_bit_unset_bit: "bit w n \<Longrightarrow> set_bit n (unset_bit n w) = (w :: 'a::len word)"
  by (rule bit_word_eqI) (auto simp: bit_simps)

lemma kwrite_unprotected:
  "kn_mem k e \<noteq> None \<Longrightarrow> bit (kn_cr0 k) 16 \<Longrightarrow>
    \<exists>k'. kwrite (disable_write_protection k) e v = Some k' \<and>
      enable_write_protection k' = k\<lparr>kn_mem := (kn_mem k)(e \<mapsto> v)\<rparr>"
  by (simp add: kwrite_def disable_write_protection_def enable_write_protection_def Let_def
      set_bit_unset_bit bit_unset_bit_iff)

lemma stolen_insmod:
  assumes "bit (kn_cr0 k) 16" and "table \<noteq> 0" and "a \<notin> fst ` set st"
  shows "steal_exec table nr (stolen table nr real k st) (Insmod a uid) =
    Some (stolen table nr real k ((a, uid) # st))"
proof -
  let ?k = "k\<lparr>kn_mem := (kn_mem k)(sct_entry table nr \<mapsto> hd (map fst st @ [real]))\<rparr>"
  have m: "kn_mem ?k (sct_entry table nr) \<noteq> None" "bit (kn_cr0 ?k) 16" using assms(1) by simp_all
  from kwrite_unprotected[OF m, of a] obtain k' where
    w: "kwrite (disable_write_protection ?k) (sct_entry table nr) a = Some k'"
      "enable_write_protection k' = ?k\<lparr>kn_mem := (kn_mem ?k)(sct_entry table nr \<mapsto> a)\<rparr>" by blast
  have d: "kn_mem (disable_write_protection ?k) = kn_mem ?k"
    by (simp add: disable_write_protection_def Let_def)
  show ?thesis using w d assms(2,3)
    by (simp add: steal_exec_def stolen_def syscall_steal_start_def Let_def)
qed

lemma filter_chained:
  "a \<notin> fst ` set st \<Longrightarrow> filter (\<lambda>m. fst m \<noteq> a) (chained table real st) = chained table real st"
  by (rule filter_True) (metis fst_set_chained image_eqI)

lemma stolen_rmmod:
  assumes "bit (kn_cr0 k) 16" and "table \<noteq> 0" and "a \<notin> fst ` set st"
  shows "steal_exec table nr (stolen table nr real k ((a, uid) # st)) (Rmmod a) =
    Some (stolen table nr real k st)"
proof -
  let ?k = "k\<lparr>kn_mem := (kn_mem k)(sct_entry table nr \<mapsto> a)\<rparr>"
  let ?o = "hd (map fst st @ [real])"
  have m: "kn_mem ?k (sct_entry table nr) \<noteq> None" "bit (kn_cr0 ?k) 16" using assms(1) by simp_all
  from kwrite_unprotected[OF m, of ?o] obtain k' where
    "kwrite (disable_write_protection ?k) (sct_entry table nr) ?o = Some k'"
    "enable_write_protection k' = ?k\<lparr>kn_mem := (kn_mem ?k)(sct_entry table nr \<mapsto> ?o)\<rparr>" by blast
  with assms(2) filter_chained[OF assms(3), of table real] show ?thesis
    by (simp add: steal_exec_def stolen_def syscall_steal_end_def Let_def)
qed

lemma steal_run_nested:
  assumes "bit (kn_cr0 k) 16" and "table \<noteq> 0"
  shows "distinct (map fst st) \<Longrightarrow> nest st acts = Some st' \<Longrightarrow>
    steal_run table nr (stolen table nr real k st) acts = Some (stolen table nr real k st') \<and>
    distinct (map fst st')"
proof (induction st acts rule: nest.induct)
  case (2 st a uid acts)
  then show ?case using stolen_insmod[OF assms, of a st nr real uid] by (auto split: if_splits)
next
  case (4 m st a acts)
  then show ?case using stolen_rmmod[OF assms, of a st nr real "snd m"]
    by (cases m) (auto split: if_splits)
qed auto

text \<open>A call passes through all modules, the newest first, and comes to the kernel's function.\<close>

lemma openat_call_chained:
  assumes name: "spy_loop u filename 0 = Some name"
  shows "distinct (map fst st) \<Longrightarrow> real \<notin> fst ` set st \<Longrightarrow>
    (\<And>m. m \<in> set (chained table real st) \<Longrightarrow> map_of loaded (fst m) = Some (snd m)) \<Longrightarrow>
    length st < fuel \<Longrightarrow>
    openat_call fuel loaded real cur u filename (hd (map fst st @ [real])) =
      Some (map (\<lambda>m. name) (filter (\<lambda>m. snd m = cur) st))"
proof (induction st arbitrary: fuel)
  case Nil
  then show ?case by (cases fuel) auto
next
  case (Cons m st)
  from Cons.prems(4) obtain n where fuel: "fuel = Suc n" "length st < n" by (cases fuel) auto
  have "map_of loaded (fst m) =
    Some \<lparr>st_uid = snd m, st_table = table, st_original = hd (map fst st @ [real])\<rparr>"
    using Cons.prems(3)[of "hd (chained table real (m # st))"] by simp
  moreover have "openat_call n loaded real cur u filename (hd (map fst st @ [real])) =
      Some (map (\<lambda>m. name) (filter (\<lambda>m. snd m = cur) st))"
    using Cons.IH[of n] Cons.prems fuel by simp
  moreover have "fst m \<noteq> real" using Cons.prems(2) by auto
  ultimately show ?case using name by (auto simp: fuel our_sys_openat_def)
qed

lemma openat_syscall_stolen:
  assumes "spy_loop u filename 0 = Some name" and d: "distinct (map fst st)"
    and "real \<notin> fst ` set st"
  shows "openat_syscall table nr real (stolen table nr real k st) cur u filename =
    Some (map (\<lambda>m. name) (filter (\<lambda>m. snd m = cur) st))"
proof -
  have "distinct (map fst (chained table real st))" using d by simp
  then have "map_of (chained table real st) (fst m) = Some (snd m)"
    if "m \<in> set (chained table real st)" for m
    using that by (metis map_of_eq_Some_iff prod.collapse)
  from openat_call_chained[OF assms this, where cur = cur and fuel = "Suc (length st)"]
  show ?thesis by (simp add: openat_syscall_def stolen_def)
qed

text \<open>A file name in memory is reported with its terminator.\<close>

lemma spy_loop_name:
  assumes "\<And>i. i < length name \<Longrightarrow> get_user u (a + (i0 + i)) = name ! i" and "NUL \<notin> set name"
    and "get_user u (a + (i0 + length name)) = NUL"
  shows "spy_loop u a i0 = Some (name @ [NUL])"
  using assms
proof (induction name arbitrary: i0)
  case Nil
  then show ?case by (subst spy_loop.simps) simp
next
  case (Cons c name)
  have "spy_loop u a (Suc i0) = Some (name @ [NUL])"
  proof (rule Cons.IH)
    show "get_user u (a + (Suc i0 + i)) = name ! i" if "i < length name" for i
      using Cons.prems(1)[of "Suc i"] that by simp
    show "NUL \<notin> set name" "get_user u (a + (Suc i0 + length name)) = NUL"
      using Cons.prems(2,3) by simp_all
  qed
  moreover have "get_user u (a + i0) = c" "c \<noteq> NUL" using Cons.prems(1)[of 0] Cons.prems(2) by auto
  ultimately show ?case by (subst spy_loop.simps) simp
qed

section \<open>Properties\<close>

text \<open>A kernel with a read-only table at address 512 and write protection.\<close>

definition small_kernel :: kernel where
  "small_kernel = \<lparr>kn_mem = (\<lambda>a. if a < 4096 then Some 8 else None), kn_ro = (\<lambda>a. 512 \<le> a),
    kn_cr0 = 0x10000\<rparr>"

lemma small_kernel: "bit (kn_cr0 small_kernel) 16"
  "kn_mem small_kernel (sct_entry 512 257) = Some 8"
  by (simp_all add: small_kernel_def sct_entry_def bit_iff_odd_drop_bit)

text \<open>
  C18 (safety): any sequence of loads and unloads of modules that steal the system call, in which
  the newest is unloaded first and none twice at a time, runs without a fault. A call of any user then
  passes through all modules that are loaded and comes to the kernel's function; the name of the
  file is reported once by each that watches the user. When all are unloaded the kernel's memory
  and its write protection are what they were.
\<close>

theorem steal_nested_restores:
  assumes mem: "kn_mem k (sct_entry table nr) = Some real" and wp: "bit (kn_cr0 k) 16"
    and t: "table \<noteq> 0" and nest: "nest [] acts = Some st" and real: "real \<notin> fst ` set st"
    and name: "NUL \<notin> set name" "\<And>i. i < length name \<Longrightarrow> get_user u (filename + i) = name ! i"
      "get_user u (filename + length name) = NUL"
  shows "\<exists>c. steal_run table nr \<lparr>sf_kernel = k, sf_loaded = []\<rparr> acts = Some c \<and>
    map fst (sf_loaded c) = map fst st \<and>
    openat_syscall table nr real c cur u filename =
      Some (map (\<lambda>m. name @ [NUL]) (filter (\<lambda>m. snd m = cur) st)) \<and>
    (st = [] \<longrightarrow> sf_kernel c = k)"
proof -
  have run: "steal_run table nr \<lparr>sf_kernel = k, sf_loaded = []\<rparr> acts = Some (stolen table nr real k st)"
    and d: "distinct (map fst st)"
    using steal_run_nested[OF wp t, of "[]" acts st nr real] nest by (simp_all add: stolen_Nil[OF mem])
  have "spy_loop u filename 0 = Some (name @ [NUL])"
    by (rule spy_loop_name) (use name in simp_all)
  from openat_syscall_stolen[OF this d real]
  have "openat_syscall table nr real (stolen table nr real k st) cur u filename =
    Some (map (\<lambda>m. name @ [NUL]) (filter (\<lambda>m. snd m = cur) st))" .
  moreover have "map fst (sf_loaded (stolen table nr real k st)) = map fst st"
    by (simp add: stolen_def)
  moreover have "st = [] \<longrightarrow> sf_kernel (stolen table nr real k st) = k"
    by (simp add: stolen_Nil[OF mem])
  ultimately show ?thesis using run by blast
qed

theorem steal_nested_restores_witness:
  "\<exists>c. steal_run 512 257 \<lparr>sf_kernel = small_kernel, sf_loaded = []\<rparr>
      [Insmod 16 1000, Insmod 24 0, Rmmod 24, Insmod 32 1000] = Some c \<and>
    openat_syscall 512 257 8 c 1000 (umem_with 3 ''a'') 3 = Some [''a'' @ [NUL], ''a'' @ [NUL]]"
proof -
  let ?acts = "[Insmod 16 1000, Insmod 24 0, Rmmod 24, Insmod 32 1000]"
  let ?st = "[(32, 1000), (16, 1000)] :: (64 word \<times> 32 word) list"
  have n: "nest [] ?acts = Some ?st" "8 \<notin> fst ` set ?st" by simp_all
  have g: "get_user (umem_with 3 ''a'') (3 + 0) = CHR ''a''" "get_user (umem_with 3 ''a'') 4 = NUL"
    by (simp_all add: get_user_def umem_with_def put_user_def)
  have "\<exists>c. steal_run 512 257 \<lparr>sf_kernel = small_kernel, sf_loaded = []\<rparr> ?acts = Some c \<and>
    map fst (sf_loaded c) = map fst ?st \<and>
    openat_syscall 512 257 8 c 1000 (umem_with 3 ''a'') 3 =
      Some (map (\<lambda>m. ''a'' @ [NUL]) (filter (\<lambda>m. snd m = 1000) ?st)) \<and>
    (?st = [] \<longrightarrow> sf_kernel c = small_kernel)"
    by (rule steal_nested_restores[OF small_kernel(2,1) _ n]) (use g in auto)
  then show ?thesis by (elim exE conjE) (intro exI conjI, assumption, simp)
qed

text \<open>
  If two modules are loaded and the older is unloaded first, then after both are
  unloaded the table holds the address of the older module's function, which is gone: the next
  call of anybody jumps there.
\<close>

lemma steal_unnested_dangles:
  assumes mem: "kn_mem k (sct_entry table nr) = Some real" and wp: "bit (kn_cr0 k) 16"
    and t: "table \<noteq> 0" and ab: "a \<noteq> b" "a \<noteq> real"
  shows "\<exists>c. steal_run table nr \<lparr>sf_kernel = k, sf_loaded = []\<rparr>
      [Insmod a uid, Insmod b uid', Rmmod a, Rmmod b] = Some c \<and>
    sf_loaded c = [] \<and> kn_mem (sf_kernel c) (sct_entry table nr) = Some a \<and>
    openat_syscall table nr real c cur u filename = None"
proof -
  let ?e = "sct_entry table nr"
  let ?c2 = "stolen table nr real k [(b, uid'), (a, uid)]"
  let ?k3 = "k\<lparr>kn_mem := (kn_mem k)(?e \<mapsto> real)\<rparr>"
  let ?c3 = "\<lparr>sf_kernel = ?k3, sf_loaded = [(b, \<lparr>st_uid = uid', st_table = table, st_original = a\<rparr>)]\<rparr>"
  let ?k4 = "k\<lparr>kn_mem := (kn_mem k)(?e \<mapsto> a)\<rparr>"
  have c1: "steal_exec table nr \<lparr>sf_kernel = k, sf_loaded = []\<rparr> (Insmod a uid) =
      Some (stolen table nr real k [(a, uid)])"
    using stolen_insmod[OF wp t, of a "[]" nr real uid] by (simp add: stolen_Nil[OF mem])
  have c2: "steal_exec table nr (stolen table nr real k [(a, uid)]) (Insmod b uid') = Some ?c2"
    using stolen_insmod[OF wp t, of b "[(a, uid)]" nr real uid'] ab by simp
  let ?k2 = "sf_kernel ?c2"
  have k2: "kn_mem ?k2 ?e \<noteq> None" "bit (kn_cr0 ?k2) 16" using wp by (simp_all add: stolen_def)
  from kwrite_unprotected[OF this, of real] ab
  have c3: "steal_exec table nr ?c2 (Rmmod a) = Some ?c3"
    using t by (auto simp: steal_exec_def syscall_steal_end_def stolen_def)
  have k3: "kn_mem ?k3 ?e \<noteq> None" "bit (kn_cr0 ?k3) 16" using wp by simp_all
  from kwrite_unprotected[OF this, of a]
  have c4: "steal_exec table nr ?c3 (Rmmod b) = Some \<lparr>sf_kernel = ?k4, sf_loaded = []\<rparr>"
    using t by (auto simp: steal_exec_def syscall_steal_end_def)
  have "openat_syscall table nr real \<lparr>sf_kernel = ?k4, sf_loaded = []\<rparr> cur u filename = None"
    using ab(2) by (simp add: openat_syscall_def)
  with c1 c2 c3 c4 show ?thesis by simp
qed

lemma steal_unnested_dangles_witness:
  "\<exists>c. steal_run 512 257 \<lparr>sf_kernel = small_kernel, sf_loaded = []\<rparr>
      [Insmod 16 1000, Insmod 24 0, Rmmod 16, Rmmod 24] = Some c \<and>
    kn_mem (sf_kernel c) (sct_entry 512 257) = Some 16"
proof -
  have "16 \<noteq> (24 :: 64 word)" "16 \<noteq> (8 :: 64 word)" "512 \<noteq> (0 :: 64 word)" by simp_all
  from steal_unnested_dangles[OF small_kernel(2,1) this(3,1,2)] show ?thesis by blast
qed

text \<open>
  The search of older kernels, from an address that is a multiple of 8, returns
  the first address at which the pointer to \<open>ksys_close\<close> stands in its place, if everything before
  can be read; if it stands nowhere, the search does not end: its \<open>return NULL\<close> is never reached.
\<close>

lemma table_search_never_gives_up:
  assumes a: "aligned page_offset"
  shows "((\<forall>i<n. \<exists>w. mem (sct_entry (page_offset + 8 * of_nat i) nr) = Some w \<and> w \<noteq> f) \<and>
      mem (sct_entry (page_offset + 8 * of_nat n) nr) = Some f \<longrightarrow>
      acquire_sys_call_table (Ksys_Close mem nr f page_offset) =
        Some (Some (page_offset + 8 * of_nat n))) \<and>
    ((\<forall>p. aligned p \<longrightarrow> (\<exists>w. mem (sct_entry p nr) = Some w \<and> w \<noteq> f)) \<longrightarrow>
      acquire_sys_call_table (Ksys_Close mem nr f page_offset) = None)"
proof (intro conjI impI; (elim conjE)?)
  assume "\<forall>i<n. \<exists>w. mem (sct_entry (page_offset + 8 * of_nat i) nr) = Some w \<and> w \<noteq> f"
    and "mem (sct_entry (page_offset + 8 * of_nat n) nr) = Some f"
  then show "acquire_sys_call_table (Ksys_Close mem nr f page_offset) =
      Some (Some (page_offset + 8 * of_nat n))"
    using sct_search_first[OF a, of n mem nr f] by (simp add: acquire_sys_call_table_def)
next
  assume no: "\<forall>p. aligned p \<longrightarrow> (\<exists>w. mem (sct_entry p nr) = Some w \<and> w \<noteq> f)"
  have "sct_search mem nr f page_offset \<noteq> Some r" for r
  proof
    assume r: "sct_search mem nr f page_offset = Some r"
    from sct_search_never_fails[OF r a] no have "r = None" by auto
    with r have "sct_search mem nr f page_offset = Some None" by simp
    from sct_search_reads[OF this a] no show False by fastforce
  qed
  then show "acquire_sys_call_table (Ksys_Close mem nr f page_offset) = None"
    by (simp add: acquire_sys_call_table_def not_Some_eq[symmetric] del: not_Some_eq)
qed

lemma table_search_never_gives_up_witness:
  "acquire_sys_call_table (Ksys_Close (\<lambda>a. Some (if a = 48 then 7 else 0)) 3 7 16) = Some (Some 24) \<and>
    acquire_sys_call_table (Ksys_Close (\<lambda>a. Some 0) 3 7 16) = None"
proof -
  have a: "aligned 16" by (simp add: aligned_def)
  have "\<forall>i<1. \<exists>w. (\<lambda>a. Some (if a = (48 :: 64 word) then 7 else 0 :: 64 word))
      (sct_entry (16 + 8 * of_nat i) 3) = Some w \<and> w \<noteq> 7"
    by (simp add: sct_entry_def)
  with table_search_never_gives_up[OF a, of 1 "\<lambda>a. Some (if a = 48 then 7 else 0)" 3 7]
    table_search_never_gives_up[OF a, of 1 "\<lambda>a. Some 0" 3 7]
  show ?thesis by (simp add: sct_entry_def)
qed

end
