(* ===== verification/Vnetloop.thy ===== *)
theory Vnetloop
  imports Resources
begin

text \<open>
  \<open>vnetloop.c\<close>: a virtual Ethernet device that receives what it sends, with its statistics. The
  second half of the file is about reading the four 64-bit counters on a 32-bit machine
  while a transmission updates them, half by half, on another processor.
\<close>

section \<open>Sending\<close>

record vnetloop_priv =
  tx_packets :: "64 word"
  tx_bytes :: "64 word"
  rx_packets :: "64 word"
  rx_bytes :: "64 word"

definition vnetloop_priv_zero :: vnetloop_priv where
  "vnetloop_priv_zero = \<lparr>tx_packets = 0, tx_bytes = 0, rx_packets = 0, rx_bytes = 0\<rparr>"

text \<open>What happens to socket buffers: one is passed to the receive path, one is freed.\<close>

datatype skb_event = NetifRx nat "char list" | KfreeSkb "char list"

text \<open>
  \<open>vnetloop_xmit\<close> of the frame \<open>skb\<close>. \<open>copied\<close> is whether \<open>skb_copy\<close> got memory;
  \<open>eth_type_trans\<close> gives the protocol and takes the Ethernet header off the frame.
\<close>

definition vnetloop_xmit ::
    "(char list \<Rightarrow> nat \<times> char list) \<Rightarrow> bool \<Rightarrow> char list \<Rightarrow> vnetloop_priv \<Rightarrow>
      int \<times> vnetloop_priv \<times> skb_event list" where
  "vnetloop_xmit eth_type_trans copied skb priv =
     (let len = of_nat (length skb) :: 32 word in
      if copied then
        (let (protocol, rx_skb) = eth_type_trans skb;
             priv = priv\<lparr>tx_packets := tx_packets priv + 1\<rparr>;
             priv = priv\<lparr>tx_bytes := tx_bytes priv + ucast len\<rparr>;
             priv = priv\<lparr>rx_packets := rx_packets priv + 1\<rparr>;
             priv = priv\<lparr>rx_bytes := rx_bytes priv + ucast (of_nat (length rx_skb) :: 32 word)\<rparr>
         in (0, priv, [NetifRx protocol rx_skb, KfreeSkb skb]))
      else
        (let priv = priv\<lparr>tx_packets := tx_packets priv + 1\<rparr>;
             priv = priv\<lparr>tx_bytes := tx_bytes priv + ucast len\<rparr>
         in (0, priv, [KfreeSkb skb])))"

text \<open>The device's queue and carrier, its flags, features and hardware address.\<close>

record net_device =
  nd_carrier :: bool
  nd_queue :: bool
  nd_flags :: "32 word"
  nd_features :: "64 word"
  nd_addr :: "char list"

definition vnetloop_open :: "net_device \<Rightarrow> int \<times> net_device" where
  "vnetloop_open dev =
     (let dev = dev\<lparr>nd_carrier := True\<rparr>; dev = dev\<lparr>nd_queue := True\<rparr> in (0, dev))"

definition vnetloop_stop :: "net_device \<Rightarrow> int \<times> net_device" where
  "vnetloop_stop dev =
     (let dev = dev\<lparr>nd_queue := False\<rparr>; dev = dev\<lparr>nd_carrier := False\<rparr> in (0, dev))"

text \<open>
  The setup gets the bits that the kernel gives the names \<open>IFF_NOARP\<close> and \<open>NETIF_F_HW_CSUM\<close>, and the address that
  \<open>eth_hw_addr_random\<close> draws; the table of operations names the functions of this theory.
\<close>

definition vnetloop_setup :: "32 word \<Rightarrow> 64 word \<Rightarrow> char list \<Rightarrow> net_device \<Rightarrow> net_device" where
  "vnetloop_setup noarp hw_csum addr dev =
     (let dev = dev\<lparr>nd_flags := or (nd_flags dev) noarp\<rparr>;
          dev = dev\<lparr>nd_features := or (nd_features dev) hw_csum\<rparr>
      in dev\<lparr>nd_addr := addr\<rparr>)"

text \<open>The setup adds bits and takes none away; stopping undoes opening, and neither touches them.\<close>

lemma vnetloop_setup_bits:
  "bit (nd_flags (vnetloop_setup noarp hw_csum addr dev)) n \<longleftrightarrow> bit (nd_flags dev) n \<or> bit noarp n"
  "bit (nd_features (vnetloop_setup noarp hw_csum addr dev)) n \<longleftrightarrow>
    bit (nd_features dev) n \<or> bit hw_csum n"
  by (simp_all add: vnetloop_setup_def bit_or_iff)

lemma vnetloop_open_stop:
  assumes "\<not> nd_carrier dev" and "\<not> nd_queue dev"
  shows "vnetloop_stop (snd (vnetloop_open dev)) = (0, dev)"
  using assms by (cases dev) (simp add: vnetloop_open_def vnetloop_stop_def)

record vnetloop_env =
  ret_alloc_etherdev :: bool
  ret_register_netdev :: int

definition vnetloop_init :: "vnetloop_env \<Rightarrow> unit \<Rightarrow> int \<times> unit \<times> event list" where [mod_init]:
  "vnetloop_init e s =
     (if \<not> ret_alloc_etherdev e then (- ENOMEM, s, [])
      else if ret_register_netdev e \<noteq> 0
      then (ret_register_netdev e, s, [Acq Netdev, Rel Netdev])
      else (0, s, [Acq Netdev, Acq NetdevLive]))"

definition vnetloop_exit :: "unit \<Rightarrow> event list" where [mod_init]:
  "vnetloop_exit s = [Rel NetdevLive, Rel Netdev]"

interpretation vnetloop_mod: lkm_module vnetloop_init vnetloop_exit
  by (rule lkm_moduleI) (auto simp: mod_init split: if_splits)

text \<open>
  The statistics after a list of transmissions, each with whether the copy succeeded.
\<close>

fun vnetloop_sent ::
    "(char list \<Rightarrow> nat \<times> char list) \<Rightarrow> (bool \<times> char list) list \<Rightarrow> vnetloop_priv" where
  "vnetloop_sent ett [] = vnetloop_priv_zero"
| "vnetloop_sent ett (f # fs) =
     fst (snd (vnetloop_xmit ett (fst f) (snd f) (vnetloop_sent ett fs)))"

text \<open>
  What \<open>eth_type_trans\<close> is documented to do with a frame: it takes off the header of 14 bytes.
\<close>

locale ethernet =
  fixes eth_type_trans :: "char list \<Rightarrow> nat \<times> char list"
  assumes payload: "14 \<le> length skb \<Longrightarrow> snd (eth_type_trans skb) = drop 14 skb"
begin

lemma xmit_copied:
  assumes "14 \<le> length skb"
  shows "vnetloop_xmit eth_type_trans True skb p =
    (0, \<lparr>tx_packets = tx_packets p + 1, tx_bytes = tx_bytes p + ucast (of_nat (length skb) :: 32 word),
      rx_packets = rx_packets p + 1,
      rx_bytes = rx_bytes p + ucast (of_nat (length (drop 14 skb)) :: 32 word)\<rparr>,
     [NetifRx (fst (eth_type_trans skb)) (drop 14 skb), KfreeSkb skb])"
  using payload[OF assms] by (cases "eth_type_trans skb") (simp add: vnetloop_xmit_def Let_def)

lemma xmit_not_copied:
  "vnetloop_xmit ett False skb p =
    (0, p\<lparr>tx_packets := tx_packets p + 1, tx_bytes := tx_bytes p + ucast (of_nat (length skb) :: 32 word)\<rparr>,
     [KfreeSkb skb])"
  by (simp add: vnetloop_xmit_def Let_def)

lemma sent_counts:
  assumes "\<forall>f \<in> set fs. 14 \<le> length (snd f) \<and> length (snd f) < 2 ^ 32"
  shows "vnetloop_sent eth_type_trans fs =
    \<lparr>tx_packets = of_nat (length fs), tx_bytes = of_nat (\<Sum>f\<leftarrow>fs. length (snd f)),
     rx_packets = of_nat (length (filter fst fs)),
     rx_bytes = of_nat (\<Sum>f\<leftarrow>filter fst fs. length (drop 14 (snd f)))\<rparr>"
  using assms
proof (induction fs)
  case Nil
  then show ?case by (simp add: vnetloop_priv_zero_def)
next
  case (Cons f fs)
  have u: "ucast (of_nat n :: 32 word) = (of_nat n :: 64 word)" if "n < 2 ^ 32" for n
    using that by (simp add: unsigned_of_nat take_bit_nat_eq_self)
  have l: "14 \<le> length (snd f)" "length (snd f) < 2 ^ 32" "length (drop 14 (snd f)) < 2 ^ 32"
    using Cons.prems by auto
  from Cons show ?case
    by (cases "fst f")
      (simp_all add: xmit_copied[OF l(1)] xmit_not_copied u[OF l(2)] u[OF l(3)] add.commute
        del: length_drop)
qed

end

text \<open>A function that keeps the contract: the protocol is in the two bytes before the payload.\<close>

definition eth_header_pull :: "char list \<Rightarrow> nat \<times> char list" where
  "eth_header_pull skb =
     (256 * of_char (skb ! 12) + of_char (skb ! 13), drop 14 skb)"

interpretation eth_header_pull: ethernet eth_header_pull
  by unfold_locales (simp add: eth_header_pull_def)

section \<open>Reading the statistics\<close>

text \<open>
  The four counters as halves of 32 bits, the lower one first, in the order of the struct.
\<close>

definition word_halves :: "64 word \<Rightarrow> 32 word list" where
  "word_halves w = [ucast w, ucast (drop_bit 32 w)]"

definition join_halves :: "32 word \<Rightarrow> 32 word \<Rightarrow> 64 word" where
  "join_halves lo hi = ucast lo OR push_bit 32 (ucast hi)"

definition priv_halves :: "vnetloop_priv \<Rightarrow> 32 word list" where
  "priv_halves p = word_halves (tx_packets p) @ word_halves (tx_bytes p) @
     word_halves (rx_packets p) @ word_halves (rx_bytes p)"

definition halves_priv :: "32 word list \<Rightarrow> vnetloop_priv" where
  "halves_priv hs = \<lparr>tx_packets = join_halves (hs ! 0) (hs ! 1), tx_bytes = join_halves (hs ! 2) (hs ! 3),
     rx_packets = join_halves (hs ! 4) (hs ! 5), rx_bytes = join_halves (hs ! 6) (hs ! 7)\<rparr>"

lemma join_word_halves: "join_halves (word_halves w ! 0) (word_halves w ! 1) = w"
proof (rule bit_word_eqI)
  fix k
  assume "k < LENGTH(64)"
  then have "\<not> k < 32 \<longrightarrow> k - 32 < 32 \<and> k - 32 < 64" "k < 64" by auto
  then show "bit (join_halves (word_halves w ! 0) (word_halves w ! 1)) k = bit w k"
    by (cases "k < 32")
      (simp_all add: join_halves_def word_halves_def bit_or_iff bit_push_bit_iff bit_unsigned_iff
        bit_drop_bit_eq comp_def)
qed

lemma halves_priv_halves: "halves_priv (priv_halves p) = p"
proof -
  have j: "join_halves (ucast w) (ucast (drop_bit 32 w)) = w" for w
    using join_word_halves[of w] by (simp add: word_halves_def)
  show ?thesis by (simp add: halves_priv_def priv_halves_def word_halves_def j)
qed

lemma length_priv_halves [simp]: "length (priv_halves p) = 8"
  by (simp add: priv_halves_def word_halves_def)

text \<open>
  The state that the two processors share, and where each is. \<open>syncp\<close> is a sequence counter: the
  kernel documents that \<open>u64_stats_update_begin\<close> and \<open>_end\<close> add one to it each,
  \<open>u64_stats_fetch_begin\<close> waits until it is even and returns it, and \<open>u64_stats_fetch_retry\<close> tells
  whether it is not what it was then. The transmissions are under the lock of the queue, so
  one runs at a time; \<open>vn_todo\<close> are the halves that it still has to store. The reader is in its
  loop with what \<open>fetch_begin\<close> returned and the halves that it has read.

  Two fields are not in the program: the transmissions so far, the newest first, and the number of times
  that the sequence counter was moved, which the reader keeps from its \<open>fetch_begin\<close>, too.
\<close>

datatype stats_reader = FetchBegin | Reading "32 word" nat "32 word list" | Fetched vnetloop_priv

record vnet =
  vn_priv :: "32 word list"
  vn_syncp :: "32 word"
  vn_todo :: "(nat \<times> 32 word) list option"
  vn_reader :: stats_reader
  vn_sent :: "(bool \<times> char list) list"
  vn_moves :: nat

definition vnet_zero :: vnet where
  "vnet_zero = \<lparr>vn_priv = priv_halves vnetloop_priv_zero, vn_syncp = 0, vn_todo = None,
     vn_reader = FetchBegin, vn_sent = [], vn_moves = 0\<rparr>"

text \<open>
  The stores of a transmission between \<open>update_begin\<close> and \<open>update_end\<close>: all counters, or the
  first two when there is no copy.
\<close>

definition xmit_stores ::
    "(char list \<Rightarrow> nat \<times> char list) \<Rightarrow> bool \<Rightarrow> char list \<Rightarrow> vnetloop_priv \<Rightarrow> (nat \<times> 32 word) list" where
  "xmit_stores ett copied skb p =
     (let hs = priv_halves (fst (snd (vnetloop_xmit ett copied skb p)))
      in zip [0..<(if copied then 8 else 4)] hs)"

datatype vnet_action =
    XmitBegin bool "char list"  \<comment> \<open>up to \<open>u64_stats_update_begin\<close>\<close>
  | XmitStore                   \<comment> \<open>one half of a counter\<close>
  | XmitEnd                     \<comment> \<open>\<open>u64_stats_update_end\<close>\<close>
  | StatsBegin                  \<comment> \<open>\<open>u64_stats_fetch_begin\<close>, one look at the counter\<close>
  | StatsRead                   \<comment> \<open>one half of a counter\<close>
  | StatsRetry                  \<comment> \<open>\<open>u64_stats_fetch_retry\<close>\<close>

definition vnet_step ::
    "(char list \<Rightarrow> nat \<times> char list) \<Rightarrow> vnet \<Rightarrow> vnet_action \<Rightarrow> vnet option" where
  "vnet_step ett c act =
     (case act of
        XmitBegin copied skb \<Rightarrow>
          if vn_todo c = None
          then Some (c\<lparr>vn_todo := Some (xmit_stores ett copied skb (halves_priv (vn_priv c))),
                  vn_syncp := vn_syncp c + 1, vn_moves := vn_moves c + 1,
                  vn_sent := (copied, skb) # vn_sent c\<rparr>)
          else None
      | XmitStore \<Rightarrow>
          (case vn_todo c of
             Some ((i, w) # rest) \<Rightarrow>
               Some (c\<lparr>vn_priv := (vn_priv c)[i := w], vn_todo := Some rest\<rparr>)
           | _ \<Rightarrow> None)
      | XmitEnd \<Rightarrow>
          (case vn_todo c of
             Some [] \<Rightarrow> Some (c\<lparr>vn_todo := None, vn_syncp := vn_syncp c + 1, vn_moves := vn_moves c + 1\<rparr>)
           | _ \<Rightarrow> None)
      | StatsBegin \<Rightarrow>
          (case vn_reader c of
             FetchBegin \<Rightarrow>
               Some (if even (unat (vn_syncp c))
                     then c\<lparr>vn_reader := Reading (vn_syncp c) (vn_moves c) []\<rparr> else c)
           | _ \<Rightarrow> None)
      | StatsRead \<Rightarrow>
          (case vn_reader c of
             Reading start m hs \<Rightarrow>
               if length hs < 8
               then Some (c\<lparr>vn_reader := Reading start m (hs @ [vn_priv c ! length hs])\<rparr>) else None
           | _ \<Rightarrow> None)
      | StatsRetry \<Rightarrow>
          (case vn_reader c of
             Reading start m hs \<Rightarrow>
               if length hs = 8
               then Some (c\<lparr>vn_reader :=
                      (if vn_syncp c \<noteq> start then FetchBegin else Fetched (halves_priv hs))\<rparr>)
               else None
           | _ \<Rightarrow> None))"

text \<open>A call of \<open>vnetloop_get_stats64\<close> by another reader starts the loop anew; the old one is done.\<close>

inductive vnet_reach :: "(char list \<Rightarrow> nat \<times> char list) \<Rightarrow> vnet \<Rightarrow> bool" for ett where
  start: "vnet_reach ett vnet_zero"
| step: "vnet_reach ett c \<Longrightarrow> vnet_step ett c act = Some c' \<Longrightarrow> vnet_reach ett c'"
| again: "vnet_reach ett c \<Longrightarrow> vn_reader c = Fetched p \<Longrightarrow> vnet_reach ett (c\<lparr>vn_reader := FetchBegin\<rparr>)"

section \<open>Invariant\<close>

fun apply_stores :: "32 word list \<Rightarrow> (nat \<times> 32 word) list \<Rightarrow> 32 word list" where
  "apply_stores hs [] = hs"
| "apply_stores hs ((i, w) # rest) = apply_stores (hs[i := w]) rest"

lemma length_apply_stores [simp]: "length (apply_stores hs ws) = length hs"
  by (induction hs ws rule: apply_stores.induct) auto

lemma apply_xmit_stores:
  "apply_stores (priv_halves p) (xmit_stores ett copied skb p) =
    priv_halves (fst (snd (vnetloop_xmit ett copied skb p)))"
  by (cases copied)
    (simp_all add: xmit_stores_def priv_halves_def word_halves_def upt_rec vnetloop_xmit_def Let_def
      split: prod.split)

lemma even_unat_of_nat: "even (unat (of_nat n :: 32 word)) \<longleftrightarrow> even n"
proof -
  have "unat (of_nat n :: 32 word) = n mod 2 ^ 32" by (simp add: unat_of_nat)
  then show ?thesis by (simp add: dvd_mod_iff)
qed

text \<open>
  While no transmission is in its update, the counters are those of all frames sent, and
  the sequence counter is even; in an update, they will be after the stores to come. As long as
  the sequence counter was not moved since \<open>fetch_begin\<close>, what the reader has is what is stored.
\<close>

definition vnet_inv :: "(char list \<Rightarrow> nat \<times> char list) \<Rightarrow> vnet \<Rightarrow> bool" where
  "vnet_inv ett c \<longleftrightarrow>
     length (vn_priv c) = 8 \<and> vn_syncp c = of_nat (vn_moves c) \<and>
     (case vn_todo c of
        None \<Rightarrow> even (vn_moves c) \<and> vn_priv c = priv_halves (vnetloop_sent ett (vn_sent c))
      | Some ws \<Rightarrow> odd (vn_moves c) \<and>
          apply_stores (vn_priv c) ws = priv_halves (vnetloop_sent ett (vn_sent c))) \<and>
     (case vn_reader c of
        Reading start m hs \<Rightarrow> start = of_nat m \<and> even m \<and> m \<le> vn_moves c \<and> length hs \<le> 8 \<and>
          (m = vn_moves c \<longrightarrow> hs = take (length hs) (vn_priv c))
      | _ \<Rightarrow> True)"

lemma vnet_zero_inv: "vnet_inv ett vnet_zero"
  by (simp add: vnet_inv_def vnet_zero_def)

lemma vnet_step_inv:
  assumes inv: "vnet_inv ett c" and s: "vnet_step ett c act = Some c'"
  shows "vnet_inv ett c'"
proof (cases act)
  case (XmitBegin copied skb)
  let ?p = "vnetloop_sent ett (vn_sent c)"
  from s XmitBegin have n: "vn_todo c = None" and
    c': "c' = c\<lparr>vn_todo := Some (xmit_stores ett copied skb (halves_priv (vn_priv c))),
      vn_syncp := vn_syncp c + 1, vn_moves := vn_moves c + 1, vn_sent := (copied, skb) # vn_sent c\<rparr>"
    by (auto simp: vnet_step_def split: if_splits)
  from inv n have p: "vn_priv c = priv_halves ?p" by (simp add: vnet_inv_def)
  have "apply_stores (vn_priv c) (xmit_stores ett copied skb (halves_priv (vn_priv c))) =
      priv_halves (vnetloop_sent ett ((copied, skb) # vn_sent c))"
    by (simp add: p halves_priv_halves apply_xmit_stores)
  with inv n c' show ?thesis by (auto simp: vnet_inv_def split: stats_reader.splits)
next
  case XmitStore
  with s obtain i w rest where t: "vn_todo c = Some ((i, w) # rest)"
    and c': "c' = c\<lparr>vn_priv := (vn_priv c)[i := w], vn_todo := Some rest\<rparr>"
    by (auto simp: vnet_step_def split: option.splits list.splits)
  with inv show ?thesis by (auto simp: vnet_inv_def split: stats_reader.splits)
next
  case XmitEnd
  with s have "vn_todo c = Some []"
    and "c' = c\<lparr>vn_todo := None, vn_syncp := vn_syncp c + 1, vn_moves := vn_moves c + 1\<rparr>"
    by (auto simp: vnet_step_def split: option.splits list.splits)
  with inv show ?thesis by (auto simp: vnet_inv_def split: stats_reader.splits)
next
  case StatsBegin
  with s inv show ?thesis
    by (auto simp: vnet_step_def vnet_inv_def even_unat_of_nat cong: option.case_cong
        split: stats_reader.splits if_splits)
next
  case StatsRead
  with s obtain start m hs where r: "vn_reader c = Reading start m hs" "length hs < 8"
    and c': "c' = c\<lparr>vn_reader := Reading start m (hs @ [vn_priv c ! length hs])\<rparr>"
    by (auto simp: vnet_step_def split: stats_reader.splits if_splits)
  with inv show ?thesis
    by (auto simp: vnet_inv_def take_Suc_conv_app_nth cong: option.case_cong)
next
  case StatsRetry
  with s inv show ?thesis
    by (auto simp: vnet_step_def vnet_inv_def cong: option.case_cong
        split: stats_reader.splits if_splits)
qed

lemma vnet_reach_inv: "vnet_reach ett c \<Longrightarrow> vnet_inv ett c"
proof (induction rule: vnet_reach.induct)
  case start
  then show ?case by (rule vnet_zero_inv)
next
  case (step c act c')
  then show ?case by (blast intro: vnet_step_inv)
next
  case (again c p)
  then show ?case by (simp add: vnet_inv_def cong: option.case_cong)
qed

fun vnet_run ::
    "(char list \<Rightarrow> nat \<times> char list) \<Rightarrow> vnet \<Rightarrow> vnet_action list \<Rightarrow> vnet option" where
  "vnet_run ett c [] = Some c"
| "vnet_run ett c (act # acts) =
     (case vnet_step ett c act of None \<Rightarrow> None | Some c' \<Rightarrow> vnet_run ett c' acts)"

lemma vnet_run_reach: "vnet_reach ett c \<Longrightarrow> vnet_run ett c acts = Some c' \<Longrightarrow> vnet_reach ett c'"
  by (induction acts arbitrary: c) (auto split: option.splits intro: vnet_reach.step)

section \<open>Properties\<close>

text \<open>
  After any list of transmissions of frames with an Ethernet header the counters
  are the number and the lengths of all frames, and the number and the lengths of the payloads of
  those that could be copied and were received; each is exact up to the wrap-around at 64 bits.
\<close>

lemma vnetloop_counts:
  assumes ett: "ethernet ett" and "\<forall>f \<in> set fs. 14 \<le> length (snd f) \<and> length (snd f) < 2 ^ 32"
  shows "vnetloop_sent ett fs =
    \<lparr>tx_packets = of_nat (length fs), tx_bytes = of_nat (\<Sum>f\<leftarrow>fs. length (snd f)),
     rx_packets = of_nat (length (filter fst fs)),
     rx_bytes = of_nat (\<Sum>f\<leftarrow>filter fst fs. length (drop 14 (snd f)))\<rparr>"
  using ethernet.sent_counts[OF assms] .

lemma vnetloop_counts_witness:
  "vnetloop_sent eth_header_pull [(True, replicate 20 NUL), (False, replicate 16 NUL)] =
    \<lparr>tx_packets = 2, tx_bytes = 36, rx_packets = 1, rx_bytes = 6\<rparr>"
  using vnetloop_counts[OF eth_header_pull.ethernet_axioms,
      of "[(True, replicate 20 NUL), (False, replicate 16 NUL)]"] by simp

text \<open>
  C10 (refinement): on a 32-bit machine, where the counters are loaded and stored in halves while
  another processor transmits, \<open>vnetloop_get_stats64\<close> gives the four counters as they are between
  two transmissions: when it ends, exactly those of the frames sent so far. The sequence counter
  of 32 bits is enough for this as long as it is not moved 2 ^ 32 times during one read.
\<close>

theorem vnetloop_stats_consistent:
  assumes r: "vnet_reach ett c" and pre: "vn_reader c = Reading start m hs"
    and s: "vnet_step ett c StatsRetry = Some c'" and ok: "vn_reader c' = Fetched p"
    and few: "vn_moves c - m < 2 ^ 32"
  shows "p = vnetloop_sent ett (vn_sent c') \<and> vn_todo c' = None"
proof -
  note inv = vnet_reach_inv[OF r]
  from s pre ok have l: "length hs = 8" and e: "vn_syncp c = start" and p: "p = halves_priv hs"
    and c': "c' = c\<lparr>vn_reader := Fetched p\<rparr>"
    by (auto simp: vnet_step_def split: if_splits)
  from inv pre e have "(of_nat (vn_moves c) :: 32 word) = of_nat m" and m: "even m" "m \<le> vn_moves c"
    by (auto simp: vnet_inv_def)
  then have "(of_nat (vn_moves c - m) :: 32 word) = 0" by (simp add: of_nat_diff)
  moreover have "unat (of_nat (vn_moves c - m) :: 32 word) = vn_moves c - m"
    using few by (simp add: unat_of_nat)
  ultimately have em: "m = vn_moves c" using m by simp
  with inv pre l have hs: "hs = vn_priv c" by (auto simp: vnet_inv_def)
  from inv em m have n: "vn_todo c = None" by (auto simp: vnet_inv_def split: option.splits)
  with inv have "vn_priv c = priv_halves (vnetloop_sent ett (vn_sent c))" by (simp add: vnet_inv_def)
  with n show ?thesis by (simp add: p hs c' halves_priv_halves)
qed

text \<open>A run with one transmission of 16 bytes without a copy, and a reader at the end of its loop.\<close>

definition one_frame :: "char list" where
  "one_frame = ''ddddddssssssppxy''"

definition one_read :: "vnet_action list" where
  "one_read = [XmitBegin False one_frame, XmitStore, XmitStore, XmitStore, XmitStore, XmitEnd,
     StatsBegin, StatsRead, StatsRead, StatsRead, StatsRead, StatsRead, StatsRead, StatsRead, StatsRead]"

definition one_read_end :: vnet where
  "one_read_end = \<lparr>vn_priv = [1, 0, 16, 0, 0, 0, 0, 0], vn_syncp = 2, vn_todo = None,
     vn_reader = Reading 2 2 [1, 0, 16, 0, 0, 0, 0, 0], vn_sent = [(False, one_frame)], vn_moves = 2\<rparr>"

lemma one_frame_stores:
  "xmit_stores eth_header_pull False one_frame (halves_priv (priv_halves vnetloop_priv_zero)) =
    [(0, 1), (1, 0), (2, 16), (3, 0)]"
  unfolding halves_priv_halves
  by (simp add: xmit_stores_def vnetloop_xmit_def Let_def priv_halves_def word_halves_def
      vnetloop_priv_zero_def one_frame_def upt_rec)

lemma one_read_run: "vnet_run eth_header_pull vnet_zero one_read = Some one_read_end"
proof -
  have z: "priv_halves vnetloop_priv_zero = [0, 0, 0, 0, 0, 0, 0, 0]"
    by (simp add: priv_halves_def word_halves_def vnetloop_priv_zero_def)
  have "vnet_step eth_header_pull vnet_zero (XmitBegin False one_frame) =
      Some (vnet_zero\<lparr>vn_todo := Some [(0, 1), (1, 0), (2, 16), (3, 0)], vn_syncp := 1, vn_moves := 1,
        vn_sent := [(False, one_frame)]\<rparr>)"
    by (simp add: vnet_step_def vnet_zero_def one_frame_stores)
  then show ?thesis
    by (simp add: one_read_def one_read_end_def vnet_zero_def z vnet_step_def)
qed

theorem vnetloop_stats_consistent_witness:
  "\<exists>c'. vnet_step eth_header_pull one_read_end StatsRetry = Some c' \<and>
    vn_reader c' = Fetched (vnetloop_sent eth_header_pull [(False, one_frame)])"
proof -
  let ?hs = "[1, 0, 16, 0, 0, 0, 0, 0] :: 32 word list"
  let ?c = "one_read_end\<lparr>vn_reader := Fetched (halves_priv ?hs)\<rparr>"
  have r: "vnet_reach eth_header_pull one_read_end"
    by (rule vnet_run_reach[OF vnet_reach.start one_read_run])
  have pre: "vn_reader one_read_end = Reading 2 2 ?hs" by (simp add: one_read_end_def)
  have s: "vnet_step eth_header_pull one_read_end StatsRetry = Some ?c"
    by (simp add: vnet_step_def one_read_end_def)
  have "halves_priv ?hs = vnetloop_sent eth_header_pull (vn_sent ?c) \<and> vn_todo ?c = None"
    by (rule vnetloop_stats_consistent[OF r pre s]) (simp_all add: one_read_end_def)
  with s show ?thesis by (simp add: one_read_end_def)
qed

end
