(* ===== verification/Completions.thy ===== *)
theory Completions
  imports Resources
begin

text \<open>
  \<open>completions.c\<close>: two kernel threads and the module's load and unload functions, ordered by
  two completions. The file holds the threads as steps that the scheduler may run in any order.
\<close>

section \<open>Completions\<close>

text \<open>
  A completion is its counter \<open>done\<close>, as the kernel documents it: \<open>complete_all\<close> sets it to the
  highest value, which stays; a waiter goes on when it is not 0, and takes one off otherwise.
\<close>

type_synonym completion = "32 word"

definition init_completion :: completion where
  "init_completion = 0"

definition complete_all :: "completion \<Rightarrow> completion" where
  "complete_all x = - 1"

definition complete :: "completion \<Rightarrow> completion" where
  "complete x = (if x \<noteq> - 1 then x + 1 else x)"

text \<open>\<open>None\<close>: the thread sleeps on.\<close>

definition wait_for_completion :: "completion \<Rightarrow> completion option" where
  "wait_for_completion x = (if x = 0 then None else Some (if x \<noteq> - 1 then x - 1 else x))"

section \<open>The threads\<close>

text \<open>The messages.\<close>

definition msg_init :: "char list" where
  "msg_init = ''completions example''"

definition msg_crank :: "char list" where
  "msg_crank = ''Turn the crank''"

definition msg_flywheel :: "char list" where
  "msg_flywheel = ''Flywheel spins up''"

definition msg_exit :: "char list" where
  "msg_exit = ''completions exit''"

text \<open>
  Where a thread is: not there, created but not woken, before each of its statements, and gone.
  In \<open>CompleteExit\<close> it has the call of \<open>kthread_complete_and_exit\<close> still before it, which is
  code of the module and is given the completion, a variable of the module. In \<open>Crashed\<close> it has gone on
  in a module that was unloaded.
\<close>

datatype thread_pc =
  NoThread | Created | WaitCrank | Message | CompleteAll | CompleteExit | Exited | Crashed

text \<open>The order in which a thread comes to these places.\<close>

primrec thread_rank :: "thread_pc \<Rightarrow> nat" where
  "thread_rank NoThread = 0"
| "thread_rank Created = 1"
| "thread_rank WaitCrank = 2"
| "thread_rank Message = 3"
| "thread_rank CompleteAll = 4"
| "thread_rank CompleteExit = 5"
| "thread_rank Exited = 6"
| "thread_rank Crashed = 7"

lemma thread_rank_eq: "thread_rank p = thread_rank q \<longleftrightarrow> p = q"
  by (cases p; cases q) simp_all

instantiation thread_pc :: linorder
begin

definition less_eq_thread_pc :: "thread_pc \<Rightarrow> thread_pc \<Rightarrow> bool" where
  [simp]: "p \<le> q \<longleftrightarrow> thread_rank p \<le> thread_rank q"

definition less_thread_pc :: "thread_pc \<Rightarrow> thread_pc \<Rightarrow> bool" where
  [simp]: "p < q \<longleftrightarrow> thread_rank p < thread_rank q"

instance
  by standard (auto simp: thread_rank_eq)

end

text \<open>The load function, the loaded module, the unload function, and the module's memory freed.\<close>

datatype module_pc =
    CreateCrank | CreateFlywheel | StopCrank | WakeFlywheel | WakeCrank | Failed
  | Loaded | ExitWaitCrank | ExitWaitFlywheel | ExitMessage | Unloaded

record machine =
  mc_crank_comp :: completion
  mc_flywheel_comp :: completion
  mc_crank :: thread_pc
  mc_flywheel :: thread_pc
  mc_module :: module_pc
  mc_log :: "char list list"

definition machine_zero :: machine where
  "machine_zero = \<lparr>mc_crank_comp = init_completion, mc_flywheel_comp = init_completion,
     mc_crank = NoThread, mc_flywheel = NoThread, mc_module = CreateCrank,
     mc_log = [msg_init]\<rparr>"

text \<open>Whether a thread has statements of the module before it, whose code is gone after the unload.\<close>

definition in_freed_code :: "machine \<Rightarrow> thread_pc \<Rightarrow> bool" where
  "in_freed_code c p \<longleftrightarrow> mc_module c = Unloaded \<and> WaitCrank \<le> p \<and> p \<le> CompleteExit"

text \<open>\<open>machine_crank_thread\<close>, one statement. \<open>None\<close>: it cannot run.\<close>

definition crank_step :: "machine \<Rightarrow> machine option" where
  "crank_step c =
     (if in_freed_code c (mc_crank c) then Some (c\<lparr>mc_crank := Crashed\<rparr>)
      else case mc_crank c of
        Message \<Rightarrow>
          Some (c\<lparr>mc_crank := CompleteAll, mc_log := mc_log c @ [msg_crank]\<rparr>)
      | CompleteAll \<Rightarrow>
          Some (c\<lparr>mc_crank := CompleteExit, mc_crank_comp := complete_all (mc_crank_comp c)\<rparr>)
      | CompleteExit \<Rightarrow>
          Some (c\<lparr>mc_crank := Exited, mc_crank_comp := complete (mc_crank_comp c)\<rparr>)
      | _ \<Rightarrow> None)"

text \<open>\<open>machine_flywheel_spinup_thread\<close>.\<close>

definition flywheel_step :: "machine \<Rightarrow> machine option" where
  "flywheel_step c =
     (if in_freed_code c (mc_flywheel c) then Some (c\<lparr>mc_flywheel := Crashed\<rparr>)
      else case mc_flywheel c of
        WaitCrank \<Rightarrow>
          do { x \<leftarrow> wait_for_completion (mc_crank_comp c);
               Some (c\<lparr>mc_flywheel := Message, mc_crank_comp := x\<rparr>) }
      | Message \<Rightarrow>
          Some (c\<lparr>mc_flywheel := CompleteAll, mc_log := mc_log c @ [msg_flywheel]\<rparr>)
      | CompleteAll \<Rightarrow>
          Some (c\<lparr>mc_flywheel := CompleteExit,
                  mc_flywheel_comp := complete_all (mc_flywheel_comp c)\<rparr>)
      | CompleteExit \<Rightarrow>
          Some (c\<lparr>mc_flywheel := Exited, mc_flywheel_comp := complete (mc_flywheel_comp c)\<rparr>)
      | _ \<Rightarrow> None)"

text \<open>
  \<open>completions_init\<close> and \<open>completions_exit\<close>; \<open>ok\<close> is whether \<open>kthread_create\<close> gives a thread.
  \<open>kthread_stop\<close> of a thread that was never woken ends it without its function. After the load
  function comes the unload function when the administrator calls it.
\<close>

definition module_step :: "bool \<Rightarrow> machine \<Rightarrow> machine option" where
  "module_step ok c =
     (case mc_module c of
        CreateCrank \<Rightarrow>
          Some (if ok then c\<lparr>mc_crank := Created, mc_module := CreateFlywheel\<rparr>
                else c\<lparr>mc_module := Failed\<rparr>)
      | CreateFlywheel \<Rightarrow>
          Some (if ok then c\<lparr>mc_flywheel := Created, mc_module := WakeFlywheel\<rparr>
                else c\<lparr>mc_module := StopCrank\<rparr>)
      | StopCrank \<Rightarrow> Some (c\<lparr>mc_crank := NoThread, mc_module := Failed\<rparr>)
      | WakeFlywheel \<Rightarrow> Some (c\<lparr>mc_flywheel := WaitCrank, mc_module := WakeCrank\<rparr>)
      | WakeCrank \<Rightarrow> Some (c\<lparr>mc_crank := Message, mc_module := Loaded\<rparr>)
      | Loaded \<Rightarrow> Some (c\<lparr>mc_module := ExitWaitCrank\<rparr>)
      | ExitWaitCrank \<Rightarrow>
          do { x \<leftarrow> wait_for_completion (mc_crank_comp c);
               Some (c\<lparr>mc_module := ExitWaitFlywheel, mc_crank_comp := x\<rparr>) }
      | ExitWaitFlywheel \<Rightarrow>
          do { x \<leftarrow> wait_for_completion (mc_flywheel_comp c);
               Some (c\<lparr>mc_module := ExitMessage, mc_flywheel_comp := x\<rparr>) }
      | ExitMessage \<Rightarrow>
          Some (c\<lparr>mc_module := Unloaded, mc_log := mc_log c @ [msg_exit]\<rparr>)
      | _ \<Rightarrow> None)"

inductive machine_step :: "machine \<Rightarrow> machine \<Rightarrow> bool" where
  crank: "crank_step c = Some c' \<Longrightarrow> machine_step c c'"
| flywheel: "flywheel_step c = Some c' \<Longrightarrow> machine_step c c'"
| module: "module_step ok c = Some c' \<Longrightarrow> machine_step c c'"

inductive_simps machine_step_iff: "machine_step c c'"

inductive machine_reach :: "machine \<Rightarrow> bool" where
  start: "machine_reach machine_zero"
| step: "machine_reach c \<Longrightarrow> machine_step c c' \<Longrightarrow> machine_reach c'"

section \<open>The order of events\<close>

text \<open>What the messages and counters are in each combination of places.\<close>

definition crank_done :: "machine \<Rightarrow> bool" where
  "crank_done c \<longleftrightarrow> CompleteExit \<le> mc_crank c"

definition flywheel_done :: "machine \<Rightarrow> bool" where
  "flywheel_done c \<longleftrightarrow> CompleteExit \<le> mc_flywheel c"

definition machine_inv :: "machine \<Rightarrow> bool" where
  "machine_inv c \<longleftrightarrow>
     mc_crank_comp c = (if crank_done c then - 1 else 0) \<and>
     mc_flywheel_comp c = (if flywheel_done c then - 1 else 0) \<and>
     mc_log c = [msg_init] @
       (if CompleteAll \<le> mc_crank c then [msg_crank] else []) @
       (if CompleteAll \<le> mc_flywheel c then [msg_flywheel] else []) @
       (if mc_module c = Unloaded then [msg_exit] else []) \<and>
     (Message \<le> mc_flywheel c \<longrightarrow> crank_done c) \<and>
     (case mc_module c of
        CreateCrank \<Rightarrow> mc_crank c = NoThread \<and> mc_flywheel c = NoThread
      | CreateFlywheel \<Rightarrow> mc_crank c = Created \<and> mc_flywheel c = NoThread
      | StopCrank \<Rightarrow> mc_crank c = Created \<and> mc_flywheel c = NoThread
      | Failed \<Rightarrow> mc_crank c = NoThread \<and> mc_flywheel c = NoThread
      | WakeFlywheel \<Rightarrow> mc_crank c = Created \<and> mc_flywheel c = Created
      | WakeCrank \<Rightarrow> mc_crank c = Created \<and> mc_flywheel c = WaitCrank
      | ExitWaitFlywheel \<Rightarrow> crank_done c \<and>
          WaitCrank \<le> mc_flywheel c
      | ExitMessage \<Rightarrow> flywheel_done c
      | Unloaded \<Rightarrow> flywheel_done c
      | _ \<Rightarrow> Message \<le> mc_crank c \<and>
          WaitCrank \<le> mc_flywheel c)"

lemmas machine_inv_defs = machine_inv_def crank_done_def flywheel_done_def

lemma crank_step_inv: "crank_step c = Some c' \<Longrightarrow> machine_inv c \<Longrightarrow> machine_inv c'"
proof (cases c)
  case (fields cc fc p q m l)
  assume "crank_step c = Some c'" "machine_inv c"
  then show ?thesis unfolding fields
    by (cases p; simp add: crank_step_def in_freed_code_def split: if_splits; hypsubst?; cases m;
        auto simp: machine_inv_defs complete_all_def complete_def)
qed

lemma flywheel_step_inv: "flywheel_step c = Some c' \<Longrightarrow> machine_inv c \<Longrightarrow> machine_inv c'"
proof (cases c)
  case (fields cc fc p q m l)
  assume "flywheel_step c = Some c'" "machine_inv c"
  then show ?thesis unfolding fields
    by (cases q; simp add: flywheel_step_def in_freed_code_def wait_for_completion_def split: if_splits;
        hypsubst?; cases m; simp add: machine_inv_defs complete_all_def complete_def split: if_splits)
qed

lemma module_step_inv: "module_step ok c = Some c' \<Longrightarrow> machine_inv c \<Longrightarrow> machine_inv c'"
proof (cases c)
  case (fields cc fc p q m l)
  assume "module_step ok c = Some c'" "machine_inv c"
  then show ?thesis unfolding fields
    by (cases m; simp add: module_step_def wait_for_completion_def split: if_splits;
        hypsubst?; simp add: machine_inv_defs init_completion_def split: if_splits)
qed

lemma machine_inv_step: "machine_step c c' \<Longrightarrow> machine_inv c \<Longrightarrow> machine_inv c'"
  using crank_step_inv flywheel_step_inv module_step_inv by (auto simp only: machine_step_iff)

lemma machine_reach_inv: "machine_reach c \<Longrightarrow> machine_inv c"
proof (induction rule: machine_reach.induct)
  case start
  then show ?case by (simp add: machine_inv_def machine_zero_def init_completion_def
        crank_done_def flywheel_done_def)
next
  case (step c c')
  then show ?case by (blast intro: machine_inv_step)
qed

section \<open>Every run ends\<close>

fun crank_work :: "thread_pc \<Rightarrow> nat" where
  "crank_work CompleteAll = 2"
| "crank_work CompleteExit = 1"
| "crank_work Exited = 0"
| "crank_work Crashed = 0"
| "crank_work _ = 3"

fun flywheel_work :: "thread_pc \<Rightarrow> nat" where
  "flywheel_work Message = 3"
| "flywheel_work CompleteAll = 2"
| "flywheel_work CompleteExit = 1"
| "flywheel_work Exited = 0"
| "flywheel_work Crashed = 0"
| "flywheel_work _ = 4"

fun module_work :: "module_pc \<Rightarrow> nat" where
  "module_work CreateCrank = 8"
| "module_work CreateFlywheel = 7"
| "module_work WakeFlywheel = 6"
| "module_work WakeCrank = 5"
| "module_work Loaded = 4"
| "module_work ExitWaitCrank = 3"
| "module_work ExitWaitFlywheel = 2"
| "module_work ExitMessage = 1"
| "module_work StopCrank = 1"
| "module_work _ = 0"

text \<open>The steps that are left, at most.\<close>

definition machine_work :: "machine \<Rightarrow> nat" where
  "machine_work c =
     crank_work (mc_crank c) + flywheel_work (mc_flywheel c) + module_work (mc_module c)"

lemma crank_step_work: "crank_step c = Some c' \<Longrightarrow> machine_work c' < machine_work c"
  by (cases "mc_crank c") (auto simp: crank_step_def in_freed_code_def machine_work_def split: if_splits)

lemma flywheel_step_work: "flywheel_step c = Some c' \<Longrightarrow> machine_work c' < machine_work c"
  by (cases "mc_flywheel c")
    (auto simp: flywheel_step_def in_freed_code_def machine_work_def wait_for_completion_def split: if_splits)

lemma module_step_work:
  "module_step ok c = Some c' \<Longrightarrow> machine_inv c \<Longrightarrow> machine_work c' < machine_work c"
proof (cases c)
  case (fields cc fc p q m l)
  assume "module_step ok c = Some c'" "machine_inv c"
  then show ?thesis unfolding fields
    by (cases m; simp add: module_step_def wait_for_completion_def split: if_splits;
        hypsubst?; simp add: machine_inv_defs machine_work_def split: if_splits)
qed

lemma machine_step_work: "machine_step c c' \<Longrightarrow> machine_inv c \<Longrightarrow> machine_work c' < machine_work c"
  using crank_step_work flywheel_step_work module_step_work by (auto simp only: machine_step_iff)

text \<open>Where nothing can run any more.\<close>

definition thread_over :: "thread_pc \<Rightarrow> bool" where
  "thread_over p \<longleftrightarrow> p = Exited \<or> p = Crashed"

lemma machine_stuck:
  assumes inv: "machine_inv c" and stuck: "\<And>c'. \<not> machine_step c c'"
  shows "mc_module c = Failed \<and> mc_crank c = NoThread \<and> mc_flywheel c = NoThread \<or>
    mc_module c = Unloaded \<and> thread_over (mc_crank c) \<and> thread_over (mc_flywheel c)"
proof -
  have "crank_step c = None \<and> flywheel_step c = None \<and> module_step True c = None"
    using stuck[unfolded machine_step_iff] by (metis not_Some_eq)
  then show ?thesis using inv
  proof (cases c)
    case (fields cc fc p q m l)
    assume "crank_step c = None \<and> flywheel_step c = None \<and> module_step True c = None" "machine_inv c"
    then show ?thesis unfolding fields
      by (cases m; simp add: module_step_def wait_for_completion_def split: if_splits;
          cases p; simp add: crank_step_def in_freed_code_def thread_over_def machine_inv_defs split: if_splits;
          cases q;
          simp add: flywheel_step_def in_freed_code_def thread_over_def wait_for_completion_def split: if_splits)
  qed
qed

text \<open>A run given by who runs next: 0 for the crank, 1 for the flywheel, 2 for the module.\<close>

fun machine_run :: "machine \<Rightarrow> nat list \<Rightarrow> machine option" where
  "machine_run c [] = Some c"
| "machine_run c (i # is) =
     (case (if i = 0 then crank_step c else if i = 1 then flywheel_step c else module_step True c) of
        None \<Rightarrow> None | Some c' \<Rightarrow> machine_run c' is)"

lemma machine_run_reach: "machine_reach c \<Longrightarrow> machine_run c is = Some c' \<Longrightarrow> machine_reach c'"
proof (induction "is" arbitrary: c)
  case Nil
  then show ?case by simp
next
  case (Cons i "is")
  then show ?case
    by (auto split: option.splits if_splits intro: machine_reach.step machine_step.intros)
qed

section \<open>Properties\<close>

text \<open>
  C30 (safety): however the scheduler runs the threads and the module, the messages come in their
  order: the flywheel spins up after the crank was turned, and the module's last message comes
  when both are done.
\<close>

theorem completions_in_order:
  assumes "machine_reach c"
  shows "\<exists>n. mc_log c = take n [msg_init, msg_crank, msg_flywheel, msg_exit] \<and>
    (mc_module c = Unloaded \<longrightarrow> n = 4)"
proof -
  let ?a = "CompleteAll \<le> mc_crank c"
  let ?b = "CompleteAll \<le> mc_flywheel c"
  let ?d = "mc_module c = Unloaded"
  from machine_reach_inv[OF assms]
  have "mc_log c = [msg_init] @ (if ?a then [msg_crank] else []) @ (if ?b then [msg_flywheel] else []) @
      (if ?d then [msg_exit] else [])" by (simp only: machine_inv_def)
  moreover from machine_reach_inv[OF assms] have "?b \<longrightarrow> ?a" "?d \<longrightarrow> ?b"
    by (auto simp: machine_inv_defs)
  ultimately have "mc_log c = take (if ?d then 4 else if ?b then 3 else if ?a then 2 else 1)
      [msg_init, msg_crank, msg_flywheel, msg_exit]" by auto
  then show ?thesis by (intro exI[of _ "if ?d then 4 else if ?b then 3 else if ?a then 2 else 1"]) simp
qed

theorem completions_in_order_witness:
  "\<exists>n. mc_log machine_zero = take n [msg_init, msg_crank, msg_flywheel, msg_exit]"
  using completions_in_order[OF machine_reach.start] by blast

text \<open>
  C24 (termination): every run has at most 15 steps, and nobody waits for ever: when nothing can run any more, the
  load failed and no thread is left, or the module is unloaded and neither thread has a step before it: each
  has exited, or it came to its last statement only after the unload and ran into freed code
  (\<open>completions_unload_race\<close>).
\<close>

theorem completions_end:
  assumes "(machine_step ^^ n) machine_zero c"
  shows "n \<le> 15 \<and> ((\<forall>c'. \<not> machine_step c c') \<longrightarrow>
    mc_module c = Failed \<and> mc_crank c = NoThread \<and> mc_flywheel c = NoThread \<or>
    mc_module c = Unloaded \<and> thread_over (mc_crank c) \<and> thread_over (mc_flywheel c))"
proof -
  have "machine_inv c \<and> n + machine_work c \<le> 15" using assms
  proof (induction n arbitrary: c)
    case 0
    then have c: "c = machine_zero" by simp
    show ?case using machine_reach_inv[OF machine_reach.start] unfolding c
      by (simp add: machine_work_def machine_zero_def)
  next
    case (Suc n)
    then obtain b where b: "(machine_step ^^ n) machine_zero b" "machine_step b c" by auto
    with Suc.IH[OF b(1)] machine_inv_step[OF b(2)] machine_step_work[OF b(2)] show ?case by auto
  qed
  with machine_stuck[of c] show ?thesis by auto
qed

theorem completions_end_witness:
  "\<exists>c. (machine_step ^^ 1) machine_zero c \<and> (1 :: nat) \<le> 15"
proof -
  have "machine_step machine_zero (machine_zero\<lparr>mc_module := Failed\<rparr>)"
    by (rule machine_step.module[of False]) (simp add: module_step_def machine_zero_def)
  then have "(machine_step ^^ 1) machine_zero (machine_zero\<lparr>mc_module := Failed\<rparr>)"
    by (simp add: relcompp_apply)
  with completions_end[OF this] show ?thesis by blast
qed

text \<open>
  The unload function can end, and the module's memory be freed, while both
  threads still have to run code of the module: the threads have called \<open>complete_all\<close>, for which
  the unload function waits, but not \<open>kthread_complete_and_exit\<close>.
\<close>

lemma completions_unload_race:
  "\<exists>c c'. machine_reach c \<and> mc_module c = Unloaded \<and> mc_crank c = CompleteExit \<and>
    mc_flywheel c = CompleteExit \<and> crank_step c = Some c' \<and> mc_crank c' = Crashed"
proof -
  have "\<exists>c c'. machine_run machine_zero [2, 2, 2, 2, 0, 0, 1, 1, 1, 2, 2, 2, 2] = Some c \<and>
    mc_module c = Unloaded \<and> mc_crank c = CompleteExit \<and> mc_flywheel c = CompleteExit \<and>
    crank_step c = Some c' \<and> mc_crank c' = Crashed"
    by (simp add: machine_zero_def module_step_def crank_step_def flywheel_step_def in_freed_code_def
        wait_for_completion_def complete_all_def)
  then show ?thesis using machine_run_reach[OF machine_reach.start] by blast
qed

end
