(* ===== verification/Debugfs_File.thy ===== *)
theory Debugfs_File
  imports Vfs Resources
begin

text \<open>
  \<open>hello-debugfs-file.c\<close> and \<open>hello-debugfs.c\<close>: files of debugfs. The first keeps a message that is
  read and written through two functions of the kernel, whose documented behaviour is the
  contract \<open>simple_buffer\<close>.
\<close>

section \<open>Functions of the kernel\<close>

text \<open>
  \<open>simple_read_from_buffer\<close> gets the user memory, the address and length of the buffer there, the
  file offset, and the bytes that are available; it returns the number of bytes read, the new
  offset and the user memory. \<open>simple_write_to_buffer\<close> gets the array, how much of it may be
  written, the file offset, and the source; it returns the number of bytes written, the new
  offset and the array.
\<close>

type_synonym simple_read = "umem \<Rightarrow> nat \<Rightarrow> nat \<Rightarrow> int \<Rightarrow> char list \<Rightarrow> int \<times> int \<times> umem"
type_synonym simple_write =
  "char list \<Rightarrow> nat \<Rightarrow> int \<Rightarrow> umem \<Rightarrow> nat \<Rightarrow> nat \<Rightarrow> int \<times> int \<times> char list"

locale simple_buffer =
  fixes srb :: simple_read and swb :: simple_write
  assumes srb_ok:
      "off \<le> length from \<Longrightarrow> mapped u a (min n (length from - off)) \<Longrightarrow>
        srb u a n (int off) from =
          (int (min n (length from - off)), int (off + min n (length from - off)),
           put_bytes u a (take n (drop off from)))"
    and swb_ok:
      "off + k \<le> length to \<Longrightarrow> k = min n (av - off) \<Longrightarrow> off \<le> av \<Longrightarrow> mapped u a k \<Longrightarrow>
        swb to av (int off) u a n =
          (int k, int (off + k), take off to @ get_bytes u a k @ drop (off + k) to)"
    and swb_bounds:
      "swb to av 0 u a n = (r, pos, to') \<Longrightarrow> av \<le> length to \<Longrightarrow>
        length to' = length to \<and> (0 < r \<longrightarrow> pos = r \<and> r \<le> int av)"

section \<open>The message\<close>

record debugfs_file =
  df_message :: "char list"
  df_message_len :: nat

definition MESSAGE_MAX_LEN :: nat where
  "MESSAGE_MAX_LEN = 128"

definition debugfs_hello :: "char list" where
  "debugfs_hello = ''debugfs says hello'' @ [NL]"

definition debugfs_file_zero :: debugfs_file where
  "debugfs_file_zero =
     \<lparr>df_message = put_front debugfs_hello (replicate MESSAGE_MAX_LEN NUL),
      df_message_len = length debugfs_hello\<rparr>"

definition message_read ::
    "simple_read \<Rightarrow> debugfs_file \<Rightarrow> umem \<Rightarrow> nat \<Rightarrow> nat \<Rightarrow> int \<Rightarrow> read_result option" where
  "message_read srb s u buffer len ppos =
     (if df_message_len s \<le> length (df_message s)
      then Some (srb u buffer len ppos (take (df_message_len s) (df_message s))) else None)"

text \<open>The result: the return value, the offset, the state.\<close>

definition message_write ::
    "simple_write \<Rightarrow> debugfs_file \<Rightarrow> umem \<Rightarrow> nat \<Rightarrow> nat \<Rightarrow> int \<Rightarrow>
      (int \<times> int \<times> debugfs_file) option" where
  "message_write swb s u buffer len ppos =
     (if ppos \<noteq> 0 then Some (- EINVAL, ppos, s)
      else let (copied, ppos, message) =
             swb (df_message s) (length (df_message s) - 1) ppos u buffer len;
             s = s\<lparr>df_message := message\<rparr>
      in if copied > 0 then
           (let s = s\<lparr>df_message_len := nat ppos\<rparr> in
            if df_message_len s < length (df_message s)
            then Some (copied, ppos, s\<lparr>df_message := (df_message s)[df_message_len s := NUL]\<rparr>)
            else None)
         else Some (copied, ppos, s))"

section \<open>Load and unload\<close>

text \<open>
  The return values of the functions of debugfs are ignored; \<open>ok\<close> is whether there is a
  directory afterwards, which \<open>debugfs_remove_recursive\<close> removes with all that is in it.
\<close>

definition hello_debugfs_file_init ::
    "bool \<Rightarrow> debugfs_file \<Rightarrow> int \<times> debugfs_file \<times> event list" where [mod_init]:
  "hello_debugfs_file_init ok s =
     (0, s, if ok then [Acq (DebugDir ''lkmpg_debugfs_file'')] else [])"

definition hello_debugfs_file_exit :: "debugfs_file \<Rightarrow> event list" where [mod_init]:
  "hello_debugfs_file_exit s = [Drop (DebugDir ''lkmpg_debugfs_file'')]"

interpretation debugfs_file_mod: lkm_module hello_debugfs_file_init hello_debugfs_file_exit
  by (rule lkm_moduleI) (auto simp: mod_init split: if_splits)

text \<open>The module \<open>hello-debugfs.c\<close>, whose variables are read and written by debugfs itself.\<close>

record debugfs_values =
  dv_debug_value :: "32 word"
  dv_debug_enabled :: bool

definition debugfs_values_zero :: debugfs_values where
  "debugfs_values_zero = \<lparr>dv_debug_value = 42, dv_debug_enabled = True\<rparr>"

definition hello_debugfs_init :: "bool \<Rightarrow> debugfs_values \<Rightarrow> int \<times> debugfs_values \<times> event list" where [mod_init]:
  "hello_debugfs_init ok s = (0, s, if ok then [Acq (DebugDir ''lkmpg_debugfs'')] else [])"

definition hello_debugfs_exit :: "debugfs_values \<Rightarrow> event list" where [mod_init]:
  "hello_debugfs_exit s = [Drop (DebugDir ''lkmpg_debugfs'')]"

interpretation debugfs_mod: lkm_module hello_debugfs_init hello_debugfs_exit
  by (rule lkm_moduleI) (auto simp: mod_init split: if_splits)

section \<open>Reads and writes\<close>

definition debugfs_good :: "debugfs_file \<Rightarrow> bool" where
  "debugfs_good s \<longleftrightarrow>
     length (df_message s) = MESSAGE_MAX_LEN \<and> df_message_len s < MESSAGE_MAX_LEN"

definition debugfs_content :: "debugfs_file \<Rightarrow> char list" where
  "debugfs_content s = take (df_message_len s) (df_message s)"

lemma debugfs_file_zero_good: "debugfs_good debugfs_file_zero"
  by (simp add: debugfs_good_def debugfs_file_zero_def MESSAGE_MAX_LEN_def debugfs_hello_def)

context simple_buffer begin

lemma message_write_ok:
  assumes g: "debugfs_good s" and m: "mapped u a (min len 127)" and l: "0 < len"
  shows "\<exists>s'. message_write swb s u a len 0 = Some (int (min len 127), int (min len 127), s') \<and>
    debugfs_good s' \<and> debugfs_content s' = get_bytes u a (min len 127)"
proof -
  define k where "k = min len 127"
  have k: "k \<le> 127" "0 < k" using l by (auto simp: k_def)
  let ?m = "get_bytes u a k @ drop k (df_message s)"
  have lm: "length (df_message s) = 128" using g by (simp add: debugfs_good_def MESSAGE_MAX_LEN_def)
  have km: "k = min len (127 - 0)" "mapped u a k" using m by (simp_all add: k_def)
  have "swb (df_message s) 127 (int 0) u a len =
      (int k, int (0 + k), take 0 (df_message s) @ get_bytes u a k @ drop (0 + k) (df_message s))"
  proof (rule swb_ok)
    show "0 + k \<le> length (df_message s)" using k lm by simp
  qed (use km in simp_all)
  then have w: "swb (df_message s) 127 0 u a len = (int k, int k, ?m)" by simp
  have "take k (?m[k := NUL]) = get_bytes u a k" by simp
  moreover have "length (?m[k := NUL]) = 128" "length ?m = 128" "k < 128" using lm k by simp_all
  ultimately have "message_write swb s u a len 0 = Some (int k, int k,
      s\<lparr>df_message := ?m[k := NUL], df_message_len := k\<rparr>)"
    using w k lm by (simp add: message_write_def del: length_append)
  with \<open>take k _ = _\<close> \<open>length (?m[k := NUL]) = 128\<close> \<open>k < 128\<close> show ?thesis
    unfolding k_def[symmetric]
    by (simp add: debugfs_good_def debugfs_content_def MESSAGE_MAX_LEN_def del: length_append)
qed

lemma message_write_good:
  assumes g: "debugfs_good s"
  shows "\<exists>r off s'. message_write swb s u a len ppos = Some (r, off, s') \<and> debugfs_good s' \<and>
    (r \<le> 0 \<longrightarrow> df_message_len s' = df_message_len s)"
proof (cases "ppos = 0")
  case False
  with g show ?thesis by (simp add: message_write_def)
next
  case True
  obtain r off m where w: "swb (df_message s) (length (df_message s) - 1) 0 u a len = (r, off, m)"
    by (cases "swb (df_message s) (length (df_message s) - 1) 0 u a len") auto
  have lm: "length (df_message s) = 128" using g by (simp add: debugfs_good_def MESSAGE_MAX_LEN_def)
  from swb_bounds[OF w] lm have "length m = 128" "0 < r \<longrightarrow> off = r \<and> r \<le> 127" by simp_all
  with True w g show ?thesis
    by (auto simp: message_write_def debugfs_good_def MESSAGE_MAX_LEN_def Let_def)
qed

end

sublocale simple_buffer \<subseteq> debugfs_stream: stream_device "message_read srb" debugfs_content debugfs_good
proof
  fix s u a n off
  assume g: "debugfs_good s" and m: "mapped u a n" and off: "off < length (debugfs_content s)"
  have "mapped u a (min n (length (debugfs_content s) - off))" by (rule mapped_mono[OF m]) simp
  from srb_ok[OF _ this] off g
  show "message_read srb s u a n (int off) =
      Some (int (min n (length (debugfs_content s) - off)),
        int (off + min n (length (debugfs_content s) - off)),
        put_bytes u a (take n (drop off (debugfs_content s))))"
    by (simp add: message_read_def debugfs_content_def debugfs_good_def)
next
  fix s u a n
  assume g: "debugfs_good s" and m: "mapped u a n"
  from srb_ok[of "length (debugfs_content s)" "debugfs_content s" u a n] g
  show "\<exists>off'. message_read srb s u a n (int (length (debugfs_content s))) = Some (0, off', u)"
    by (simp add: message_read_def debugfs_content_def debugfs_good_def)
qed

context simple_buffer begin

lemma debugfs_is_stream: "stream_device (message_read srb) debugfs_content debugfs_good"
  by (rule debugfs_stream.stream_device_axioms)

end

section \<open>An implementation of the contract\<close>

text \<open>The two functions over the copies of blocks.\<close>

definition libfs_read :: "not_copied \<Rightarrow> simple_read" where
  "libfs_read nc u a n pos from =
     (if pos < 0 then (- EINVAL, pos, u)
      else if int (length from) \<le> pos \<or> n = 0 then (0, pos, u)
      else let bs = take n (drop (nat pos) from); (k, u) = copy_to_user nc u a bs in
           if k = length bs then (- EFAULT, pos, u)
           else (int (length bs - k), pos + int (length bs - k), u))"

definition libfs_write :: "not_copied \<Rightarrow> simple_write" where
  "libfs_write nc to av pos u a n =
     (if pos < 0 then (- EINVAL, pos, to)
      else if int av \<le> pos \<or> n = 0 then (0, pos, to)
      else let m = min n (av - nat pos) in
           case copy_from_user nc u a m (drop (nat pos) to) of
             None \<Rightarrow> (- EFAULT, pos, to)
           | Some (k, bs) \<Rightarrow>
               (if k = m then - EFAULT else int (m - k), if k = m then pos else pos + int (m - k),
                take (nat pos) to @ bs))"

lemma libfs_simple_buffer:
  assumes nc: "user_access nc"
  shows "simple_buffer (libfs_read nc) (libfs_write nc)"
proof
  fix off n a u and "from" :: "char list"
  assume off: "off \<le> length from" and m: "mapped u a (min n (length from - off))"
  let ?bs = "take n (drop off from)"
  have l: "length ?bs = min n (length from - off)" by (simp add: min.commute)
  then have "mapped u a (length ?bs)" using m by simp
  note c = user_access.copy_to_user_ok[OF nc this]
  have min: "0 < min n (length from - off)" if "off < length from" "0 < n" using that by simp
  show "libfs_read nc u a n (int off) from =
    (int (min n (length from - off)), int (off + min n (length from - off)), put_bytes u a ?bs)"
  proof (cases "off < length from \<and> 0 < n")
    case True
    then have "?bs \<noteq> []" "length ?bs \<noteq> 0" by auto
    with True c l show ?thesis by (simp add: libfs_read_def Let_def)
  next
    case False
    with off show ?thesis by (auto simp: libfs_read_def)
  qed
next
  fix off k n av a u and to :: "char list"
  assume to: "off + k \<le> length to" and k: "k = min n (av - off)" and av: "off \<le> av"
    and m: "mapped u a k"
  show "libfs_write nc to av (int off) u a n =
    (int k, int (off + k), take off to @ get_bytes u a k @ drop (off + k) to)"
  proof (cases "k = 0")
    case True
    with k av show ?thesis by (auto simp: libfs_write_def)
  next
    case False
    have "k \<le> length (drop off to)" using to by simp
    note c = user_access.copy_from_user_ok[OF nc m this]
    have "off < av" "0 < n" using False k by auto
    with c False show ?thesis
      by (simp add: libfs_write_def Let_def put_front_def add.commute flip: k)
  qed
next
  fix n av a u r pos and to to' :: "char list"
  assume w: "libfs_write nc to av 0 u a n = (r, pos, to')" and av: "av \<le> length to"
  define m where "m = min n av"
  have m: "m \<le> av" by (simp add: m_def)
  show "length to' = length to \<and> (0 < r \<longrightarrow> pos = r \<and> r \<le> int av)"
  proof (cases "av = 0 \<or> n = 0")
    case True
    with w show ?thesis by (auto simp: libfs_write_def)
  next
    case False
    from m av have "m \<le> length to" by simp
    then obtain k bs where c: "copy_from_user nc u a m to = Some (k, bs)"
      by (simp add: copy_from_user_def)
    with length_copy_from_user[OF _ nc] have l: "length bs = length to" by blast
    have "libfs_write nc to av 0 u a n =
        (if k = m then - EFAULT else int (m - k), if k = m then 0 else int (m - k), bs)"
      using False c by (simp add: libfs_write_def Let_def flip: m_def)
    with w l m show ?thesis by (cases "k = m") auto
  qed
qed

interpretation libfs: simple_buffer "libfs_read bytewise" "libfs_write bytewise"
  by (rule libfs_simple_buffer[OF bytewise.user_access_axioms])

text \<open>
  A write whose source faults at once returns \<open>-EFAULT\<close>, but has filled the front of the message
  with zeros: \<open>copy_from_user\<close> does that to what it could not copy. The length stays.
\<close>

lemma message_write_fault:
  assumes nc: "user_access nc" and g: "debugfs_good s" and a: "u a = None" and n: "0 < n"
  shows "\<exists>s'. message_write (libfs_write nc) s u a n 0 = Some (- EFAULT, 0, s') \<and>
    df_message_len s' = df_message_len s \<and>
    df_message s' = put_front (replicate (min n 127) NUL) (df_message s)"
proof -
  define m where "m = min n 127"
  have m: "0 < m" "m \<le> 128" using n by (auto simp: m_def)
  have l: "length (df_message s) = 128" using g by (simp add: debugfs_good_def MESSAGE_MAX_LEN_def)
  have "mapped u a (m - nc u a m)" by (rule user_access.nc_copied[OF nc])
  with a have "m - nc u a m = 0" by (cases "m - nc u a m") (auto simp: mapped_iff)
  with user_access.nc_le[OF nc, of u a m] have k: "nc u a m = m" by simp
  have "copy_from_user nc u a m (df_message s) = Some (m, put_front (replicate m NUL) (df_message s))"
    using m l by (simp add: copy_from_user_def k)
  with m n l show ?thesis
    by (simp add: message_write_def libfs_write_def Let_def flip: m_def)
qed

section \<open>Properties\<close>

text \<open>
  A write to the message file keeps the first 127 bytes, and whoever reads the
  file after it from the beginning to the end, with a buffer of any length, gets exactly those.
\<close>

lemma debugfs_write_then_read:
  assumes sb: "simple_buffer srb swb" and g: "debugfs_good s" and m: "mapped u a (min len 127)"
    and len: "0 < len" and v: "mapped v b n" "0 < n"
  shows "\<exists>s'. message_write swb s u a len 0 = Some (int (min len 127), int (min len 127), s') \<and>
    debugfs_good s' \<and>
    read_all 128 (message_read srb s') v b n 0 [] = Some (0, get_bytes u a (min len 127))"
proof -
  from simple_buffer.message_write_ok[OF sb g m len] obtain s' where
    w: "message_write swb s u a len 0 = Some (int (min len 127), int (min len 127), s')"
    and g': "debugfs_good s'" and c: "debugfs_content s' = get_bytes u a (min len 127)" by blast
  have st: "stream_device (message_read srb) debugfs_content debugfs_good"
    by (rule simple_buffer.debugfs_is_stream[OF sb])
  have "length (debugfs_content s') < 128" unfolding c by simp
  with stream_device.read_all_from[OF st g' v, of 0 128 "[]"]
  have "read_all 128 (message_read srb s') v b n 0 [] = Some (0, debugfs_content s')" by simp
  with w g' c show ?thesis by auto
qed

lemma debugfs_write_then_read_witness:
  "\<exists>s'. message_write (libfs_write bytewise) debugfs_file_zero (umem_with 8 ''hello'') 8 5 0 =
      Some (5, 5, s') \<and>
    read_all 128 (message_read (libfs_read bytewise) s') (umem_with 0 []) 50 2 0 [] = Some (0, ''hello'')"
proof -
  have g: "get_bytes (umem_with 8 ''hello'') 8 (min 5 127) = ''hello''"
    using get_bytes_umem_with[of 5 "''hello''" 8] by simp
  have "mapped (umem_with 8 ''hello'') 8 (min 5 127)" "mapped (umem_with 0 []) 50 2" by simp_all
  from debugfs_write_then_read[OF libfs.simple_buffer_axioms debugfs_file_zero_good this(1) _ this(2)] g
  show ?thesis by auto
qed

end
