(* ===== verification/Cat_Nonblock.thy ===== *)
theory Cat_Nonblock
  imports Sleep Chardev
begin

text \<open>
  \<open>other/cat_nonblock.c\<close>: a process that prints a file but does not wait for it. It is meant as the
  client of \<open>/proc/sleep\<close>, and reads every device that keeps the contract \<open>stream_device\<close>.
\<close>

section \<open>The process\<close>

definition MAX_BYTES :: nat where
  "MAX_BYTES = 1024 * 4"

definition puts :: "char list \<Rightarrow> char list" where
  "puts s = s @ [NL]"

text \<open>
  The system calls are arguments, on a state of the rest of the machine. \<open>rd\<close> is \<open>read\<close> into
  \<open>buffer\<close>: the bytes read or a negated error number (for which the C library returns -1 and sets
  \<open>errno\<close>), and the content of \<open>buffer\<close>; \<open>None\<close> when the file's module leaves an array. The
  loop gives the exit code, the output, and the state, and is \<open>None\<close> if it does not end.
\<close>

partial_function (option) cat_loop ::
    "('s \<Rightarrow> (int \<times> char list \<times> 's) option) \<Rightarrow> 's \<Rightarrow> char list \<Rightarrow> (int \<times> char list \<times> 's) option" where
  [code]: "cat_loop rd s out =
     (case rd s of
        None \<Rightarrow> None
      | Some (bytes, buffer, s) \<Rightarrow>
          if bytes < 0 then
            Some (1, out @ puts (if bytes = - EAGAIN
                                 then ''Normally I'd block, but you told me not to''
                                 else ''Another read error''), s)
          else let out = (if bytes > 0 then out @ take (nat bytes) buffer else out) in
          if bytes > 0 then cat_loop rd s out else Some (0, out, s))"

definition cat_main ::
    "(char list \<Rightarrow> 's \<Rightarrow> (int \<times> 's) option) \<Rightarrow> ('s \<Rightarrow> (int \<times> char list \<times> 's) option) \<Rightarrow>
      ('s \<Rightarrow> 's option) \<Rightarrow> char list list \<Rightarrow> 's \<Rightarrow> (int \<times> char list \<times> 's) option" where
  "cat_main opn rd cls argv s =
     (if length argv \<noteq> 2 then
        Some (1, ''Usage: '' @ hd argv @ '' <filename>'' @ [NL] @
                 puts ''Reads the content of a file, but doesn't wait for input'', s)
      else do { (fd, s) \<leftarrow> opn (argv ! 1) s;
                if fd < 0 then
                  Some (1, puts (if fd = - EAGAIN then ''Open would block'' else ''Open failed''), s)
                else do { (r, out, s) \<leftarrow> cat_loop rd s [];
                          if r \<noteq> 0 then Some (r, out, s)
                          else do { s \<leftarrow> cls s; Some (0, out, s) } } })"

section \<open>Files that are read in pieces\<close>

text \<open>\<open>read\<close> of a device: its state, the file offset and the memory of the process, \<open>buffer\<close> at \<open>a\<close>.\<close>

definition dev_read ::
    "('s \<Rightarrow> umem \<Rightarrow> nat \<Rightarrow> nat \<Rightarrow> int \<Rightarrow> read_result option) \<Rightarrow> nat \<Rightarrow> 's \<times> int \<times> umem \<Rightarrow>
      (int \<times> char list \<times> ('s \<times> int \<times> umem)) option" where
  "dev_read read_op a c =
     (case c of (s, off, u) \<Rightarrow>
        do { (r, off, u) \<leftarrow> read_op s u a MAX_BYTES off;
             Some (r, get_bytes u a MAX_BYTES, (s, off, u)) })"

context stream_device begin

lemma cat_loop_stream:
  assumes g: "good s"
  shows "mapped u a MAX_BYTES \<Longrightarrow> off \<le> length (content s) \<Longrightarrow>
    \<exists>off' u'. cat_loop (dev_read read_op a) (s, int off, u) out =
      Some (0, out @ drop off (content s), (s, off', u'))"
proof (induction "length (content s) - off" arbitrary: off u out rule: less_induct)
  case less
  show ?case
  proof (cases "off = length (content s)")
    case True
    from read_end[OF g less.prems(1)] obtain off' where
      "read_op s u a MAX_BYTES (int (length (content s))) = Some (0, off', u)" by blast
    with True show ?thesis by (subst cat_loop.simps) (simp add: dev_read_def)
  next
    case False
    with less.prems(2) have off: "off < length (content s)" by simp
    define k where "k = min MAX_BYTES (length (content s) - off)"
    have k: "0 < k" "k \<le> MAX_BYTES" "off + k \<le> length (content s)"
      using off by (auto simp: k_def MAX_BYTES_def)
    let ?p = "take MAX_BYTES (drop off (content s))"
    have l: "length ?p = k" by (simp add: k_def min.commute)
    have p: "?p = take k (drop off (content s))" by (simp add: k_def min_def)
    have rd: "read_op s u a MAX_BYTES (int off) = Some (int k, int (off + k), put_bytes u a ?p)"
      using read_piece[OF g less.prems(1) off] by (simp only: k_def)
    have m: "mapped u a (length ?p)" using mapped_mono[OF less.prems(1) k(2)] l by simp
    have "get_bytes (put_bytes u a ?p) a k = ?p" using get_bytes_put_bytes[OF m] l by simp
    then have t: "take k (get_bytes (put_bytes u a ?p) a MAX_BYTES) = take k (drop off (content s))"
      using get_bytes_take[OF k(2)] p by simp
    have e: "take k (drop off (content s)) @ drop (off + k) (content s) = drop off (content s)"
      by (metis add.commute append_take_drop_id drop_drop)
    have "length (content s) - (off + k) < length (content s) - off" using k off by simp
    from less.hyps[OF this _ k(3), of "put_bytes u a ?p" "out @ take k (drop off (content s))"]
      less.prems(1)
    obtain off' u' where
      "cat_loop (dev_read read_op a) (s, int (off + k), put_bytes u a ?p)
        (out @ take k (drop off (content s))) =
        Some (0, (out @ take k (drop off (content s))) @ drop (off + k) (content s), (s, off', u'))"
      by auto
    then show ?thesis using rd k(1) t e
      by (subst cat_loop.simps) (simp add: dev_read_def)
  qed
qed

end

section \<open>The file that blocks\<close>

text \<open>
  The process is number \<open>i\<close> of those that use \<open>/proc/sleep\<close>. While no other process runs, its
  open takes steps until it is back in user mode.
\<close>

type_synonym sleep_fs = "sleep_conf \<times> sleep_state \<times> umem"

fun sleep_open_steps :: "nat \<Rightarrow> nat \<Rightarrow> sleep_conf \<Rightarrow> sleep_conf option" where
  "sleep_open_steps 0 i c = None"
| "sleep_open_steps (Suc fuel) i c =
     (if in_user_mode (pr_pc (sc_procs c i)) then Some c
      else do { c \<leftarrow> sleep_exec c (Run i); sleep_open_steps fuel i c })"

definition sleep_fs_open :: "nat \<Rightarrow> char list \<Rightarrow> sleep_fs \<Rightarrow> (int \<times> sleep_fs) option" where
  "sleep_fs_open i name fs =
     (case fs of (c, s, u) \<Rightarrow>
        do { c \<leftarrow> sleep_exec c (CallOpen i True);
             c \<leftarrow> sleep_open_steps 3 i c;
             Some (case pr_pc (sc_procs c i) of Returned e \<Rightarrow> e | _ \<Rightarrow> 3, (c, s, u)) })"

definition sleep_fs_read ::
    "char list \<Rightarrow> nat \<Rightarrow> sleep_fs \<Rightarrow> (int \<times> char list \<times> sleep_fs) option" where
  "sleep_fs_read stack a fs =
     (case fs of (c, s, u) \<Rightarrow>
        do { (r, s, u) \<leftarrow> module_output stack s u a MAX_BYTES;
             Some (r, get_bytes u a MAX_BYTES, (c, s, u)) })"

definition sleep_fs_close :: "nat \<Rightarrow> sleep_fs \<Rightarrow> sleep_fs option" where
  "sleep_fs_close i fs =
     (case fs of (c, s, u) \<Rightarrow>
        do { c \<leftarrow> sleep_exec c (CallClose i); c \<leftarrow> sleep_exec c (Run i); Some (c, s, u) })"

abbreviation cat_sleep ::
    "nat \<Rightarrow> char list \<Rightarrow> nat \<Rightarrow> sleep_fs \<Rightarrow> (int \<times> char list \<times> sleep_fs) option" where
  "cat_sleep i stack a \<equiv> cat_main (sleep_fs_open i) (sleep_fs_read stack a) (sleep_fs_close i)
     [''cat_nonblock'', ''/proc/sleep'']"

lemma sleep_open_held:
  assumes "sc_already_open c \<noteq> 0" and "pr_pc (sc_procs c i) = Outside"
  shows "\<exists>c'. sleep_fs_open i name (c, s, u) = Some (- EAGAIN, (c', s, u)) \<and>
    sc_already_open c' = sc_already_open c"
  using assms
  by (simp add: sleep_fs_open_def put_proc_def module_open_step.simps atomic_cmpxchg_def
      in_user_mode_def numeral_eq_Suc)

lemma sleep_open_free:
  assumes "sc_already_open c = 0" and "pr_pc (sc_procs c i) = Outside"
  shows "\<exists>c'. sleep_fs_open i name (c, s, u) = Some (3, (c', s, u)) \<and> holding c' i"
  using assms
  by (simp add: sleep_fs_open_def put_proc_def module_open_step.simps atomic_cmpxchg_def
      in_user_mode_def numeral_eq_Suc holding_def)

lemma sleep_close_held:
  assumes "holding c i"
  shows "\<exists>c'. sleep_fs_close i (c, s, u) = Some (c', s, u) \<and> sc_already_open c' = 0"
  using assms by (simp add: sleep_fs_close_def put_proc_def holding_def)

lemma cat_loop_sleep:
  assumes g: "sleep_good s" and f: "sl_finished s = 0" and st: "length stack = MESSAGE_LENGTH + 30"
    and m: "mapped u a MAX_BYTES"
  shows "\<exists>u'. cat_loop (sleep_fs_read stack a) (c, s, u) out =
    Some (0, out @ ''Last input:'' @ cstr (sl_message s) @ [NL], (c, s, u'))"
proof -
  define t where "t = ''Last input:'' @ cstr (sl_message s) @ [NL]"
  have "length (cstr (sl_message s)) < MESSAGE_LENGTH"
    using length_cstr_less[OF sleep_good_terminated[OF g]] g by (simp add: sleep_good_def)
  then have l: "length t \<le> MAX_BYTES" by (simp add: t_def MESSAGE_LENGTH_def MAX_BYTES_def)
  have ne: "t \<noteq> []" by (simp add: t_def)
  from l have tk: "take MAX_BYTES t = t" by (rule take_all)
  have "min MAX_BYTES (length (cstr (sl_message s)) + 12) = length t"
    using l by (simp add: t_def)
  with module_output_eq[OF g st f, of u a MAX_BYTES] tk have
    o1: "module_output stack s u a MAX_BYTES =
      Some (int (length t), s\<lparr>sl_finished := 1\<rparr>, put_bytes u a t)"
    by (simp only: flip: t_def)
  have "get_bytes (put_bytes u a t) a (length t) = t"
    by (rule get_bytes_put_bytes[OF mapped_mono[OF m l]])
  then have "take (length t) (get_bytes (put_bytes u a t) a MAX_BYTES) = t"
    using get_bytes_take[OF l] by simp
  then have "cat_loop (sleep_fs_read stack a) (c, s, u) out =
      cat_loop (sleep_fs_read stack a) (c, s\<lparr>sl_finished := 1\<rparr>, put_bytes u a t) (out @ t)"
    using o1 ne by (subst cat_loop.simps) (simp add: sleep_fs_read_def)
  also have "\<dots> = Some (0, out @ t, (c, s\<lparr>sl_finished := 0\<rparr>, put_bytes u a t))"
    by (subst cat_loop.simps) (simp add: sleep_fs_read_def module_output_def)
  also have "s\<lparr>sl_finished := 0\<rparr> = s" using f by simp
  finally show ?thesis unfolding t_def by blast
qed

text \<open>
  \<open>finished\<close> belongs to the module and not to an open file: when a reader before closed the file
  without reading up to the end, the next one finds it set, and the first read is the end.
\<close>

definition sleep_text :: "sleep_state \<Rightarrow> char list" where
  "sleep_text s = (if sl_finished s = 0 then ''Last input:'' @ cstr (sl_message s) @ [NL] else [])"

lemma cat_loop_sleep_text:
  assumes "sleep_good s" and "length stack = MESSAGE_LENGTH + 30" and "mapped u a MAX_BYTES"
  shows "\<exists>u'. cat_loop (sleep_fs_read stack a) (c, s, u) [] =
    Some (0, sleep_text s, (c, s\<lparr>sl_finished := 0\<rparr>, u'))"
proof (cases "sl_finished s = 0")
  case True
  then have e: "s\<lparr>sl_finished := 0\<rparr> = s" by simp
  from cat_loop_sleep[OF assms(1) True assms(2,3), of c "[]"] True show ?thesis
    by (simp only: sleep_text_def if_True e append_Nil simp_thms)
next
  case False
  then show ?thesis
    by (subst cat_loop.simps) (simp add: sleep_fs_read_def module_output_def sleep_text_def)
qed

section \<open>Properties\<close>

text \<open>
  The process prints every device that is read in pieces, from any state that is
  good, exactly as it is, and exits with 0.
\<close>

lemma cat_nonblock_prints_content:
  assumes dev: "stream_device read_op content good" and g: "good s" and m: "mapped u a MAX_BYTES"
    and fd: "0 \<le> fd"
  shows "\<exists>c. cat_main (\<lambda>name c. Some (fd, c)) (dev_read read_op a) Some [prog, name] (s, 0, u) =
    Some (0, content s, c)"
proof -
  from stream_device.cat_loop_stream[OF dev g m, of 0 "[]"] obtain off' u' where
    "cat_loop (dev_read read_op a) (s, 0, u) [] = Some (0, content s, (s, off', u'))" by auto
  with fd show ?thesis by (simp add: cat_main_def)
qed

lemma cat_nonblock_prints_content_witness:
  "\<exists>c. cat_main (\<lambda>name c. Some (3, c)) (dev_read chardev_read 50) Some [''cat'', ''chardev'']
    (chardev_zero\<lparr>cd_msg := ''Hello'' @ replicate 76 NUL\<rparr>, 0, umem_with 0 []) = Some (0, ''Hello'', c)"
proof -
  let ?s = "chardev_zero\<lparr>cd_msg := ''Hello'' @ replicate 76 NUL\<rparr>"
  have "chardev_good ?s" by (simp add: chardev_good_def chardev_zero_def chardev_BUF_LEN_def)
  from cat_nonblock_prints_content[where read_op = chardev_read and content = "\<lambda>s. cstr (cd_msg s)"
      and good = chardev_good and fd = 3, OF chardev_dev.stream_device_axioms this, of "umem_with 0 []" 50]
  have "\<exists>c. cat_main (\<lambda>name c. Some (3, c)) (dev_read chardev_read 50) Some [''cat'', ''chardev'']
    (?s, 0, umem_with 0 []) = Some (0, cstr (cd_msg ?s), c)" by simp
  moreover have "cstr (cd_msg ?s) = ''Hello''" by (simp add: cstr_def)
  ultimately show ?thesis by simp
qed

text \<open>
  C32 (functional): on \<open>/proc/sleep\<close> the process, when no other runs in between and its buffer is
  accessible, never waits: while some process holds the file, it prints that the open would block and exits
  with 1, and the file stays held; while none does, it leaves the file free, \<open>finished\<close> 0, and exits
  with 0. Then it has printed the last input, or nothing when an earlier reader that did not read up to
  the end had left \<open>finished\<close> set.
\<close>

theorem cat_nonblock_never_waits:
  assumes r: "sleep_reach c" and i: "pr_pc (sc_procs c i) = Outside"
    and g: "sleep_good s" and st: "length stack = MESSAGE_LENGTH + 30"
    and m: "mapped u a MAX_BYTES"
  shows "\<exists>c' u'. if \<exists>j. holding c j
    then cat_sleep i stack a (c, s, u) = Some (1, ''Open would block'' @ [NL], (c', s, u')) \<and>
      sc_already_open c' = 1
    else cat_sleep i stack a (c, s, u) =
        Some (0, if sl_finished s = 0 then ''Last input:'' @ cstr (sl_message s) @ [NL] else [],
          (c', s\<lparr>sl_finished := 0\<rparr>, u')) \<and>
      sc_already_open c' = 0"
proof (cases "\<exists>j. holding c j")
  case True
  with sleep_reach_inv[OF r] have o1: "sc_already_open c = 1"
    by (auto simp: sleep_inv_def split: if_splits)
  then have "sc_already_open c \<noteq> 0" by simp
  from sleep_open_held[OF this i, of "''/proc/sleep''" s u] True o1 show ?thesis
    by (auto simp: cat_main_def puts_def)
next
  case False
  with sleep_reach_inv[OF r] have "sc_already_open c = 0"
    by (auto simp: sleep_inv_def split: if_splits)
  from sleep_open_free[OF this i, of "''/proc/sleep''" s u] obtain c1 where
    c1: "sleep_fs_open i ''/proc/sleep'' (c, s, u) = Some (3, (c1, s, u))" "holding c1 i" by blast
  let ?s = "s\<lparr>sl_finished := 0\<rparr>"
  from cat_loop_sleep_text[OF g st m, of c1] obtain u' where
    l: "cat_loop (sleep_fs_read stack a) (c1, s, u) [] = Some (0, sleep_text s, (c1, ?s, u'))" by blast
  from sleep_close_held[OF c1(2), of ?s u'] obtain c2 where
    "sleep_fs_close i (c1, ?s, u') = Some (c2, ?s, u')" "sc_already_open c2 = 0" by blast
  with c1(1) l False show ?thesis by (auto simp: cat_main_def simp flip: sleep_text_def)
qed

theorem cat_nonblock_never_waits_witness:
  "(\<exists>fs. cat_sleep 3 (replicate 110 NUL) 50 (sleep_busy, sleep_zero, umem_with 0 []) =
      Some (1, ''Open would block'' @ [NL], fs)) \<and>
    (\<exists>fs. cat_sleep 3 (replicate 110 NUL) 50 (sleep_boot, sleep_zero, umem_with 0 []) =
      Some (0, ''Last input:'' @ [NL], fs))"
proof -
  have b: "sleep_reach sleep_boot" by (rule sleep_reach.start) (simp_all add: sleep_boot_def)
  have pc: "pr_pc (sc_procs sleep_busy 3) = Outside" "pr_pc (sc_procs sleep_boot 3) = Outside"
    by (simp_all add: sleep_busy_def sleep_boot_def sleep_eval)
  have h: "\<exists>j. holding sleep_busy j" "\<not> (\<exists>j. holding sleep_boot j)"
    using sleep_busy_pcs(1) by (auto simp: sleep_boot_def holding_def)
  have z: "sl_finished sleep_zero = 0" "cstr (sl_message sleep_zero) = []"
    "length (replicate 110 NUL) = MESSAGE_LENGTH + 30"
    by (simp_all add: sleep_zero_def cstr_def MESSAGE_LENGTH_def)
  have m: "mapped (umem_with 0 []) 50 MAX_BYTES" by simp
  from cat_nonblock_never_waits[OF sleep_busy_reach pc(1) sleep_zero_good z(3) m]
    cat_nonblock_never_waits[OF b pc(2) sleep_zero_good z(3) m]
  show ?thesis by (simp only: h if_True if_False z append_Nil simp_thms) blast
qed

end
