(* ===== verification/Module_Params.thy ===== *)
theory Module_Params
  imports Kstrtol Resources
begin

text \<open>
  \<open>hello-5.c\<close>, \<open>hello-6.c\<close> and \<open>hello-sysfs.c\<close>: variables of a module that the administrator sets, as
  parameters at load time, through a callback, and through a file of sysfs.
\<close>

section \<open>A file of sysfs\<close>

text \<open>
  \<open>sscanf\<close> with the format \<open>%d\<close>: white space, a sign, digits; \<open>None\<close> if there is no number, and
  then nothing is stored. The number is cut to the width of an \<open>int\<close>.
\<close>

definition is_space :: "char \<Rightarrow> bool" where
  "is_space c \<longleftrightarrow> (let n = of_char c :: nat in n = 32 \<or> 9 \<le> n \<and> n \<le> 13)"

definition sscanf_d :: "char list \<Rightarrow> 32 word option" where
  "sscanf_d s =
     (let (neg, cs) = split_sign (dropWhile is_space (cstr s)); ds = takeWhile is_digit cs in
      if ds = [] then None
      else Some (word_of_int (if neg then - int (undigits ds) else int (undigits ds))))"

text \<open>The variable \<open>myvariable\<close>; \<open>buf\<close> is the page that sysfs gives to \<open>myvariable_show\<close>.\<close>

definition myvariable_zero :: "32 word" where
  "myvariable_zero = 0"

definition myvariable_show :: "32 word \<Rightarrow> char list \<Rightarrow> (int \<times> char list) option" where
  "myvariable_show myvariable buf =
     (let s = dec (sint myvariable) @ [NL] in
      do { buf \<leftarrow> store_str buf s; Some (int (length s), buf) })"

definition myvariable_store :: "32 word \<Rightarrow> char list \<Rightarrow> nat \<Rightarrow> int \<times> 32 word" where
  "myvariable_store myvariable buf count =
     (case sscanf_d buf of None \<Rightarrow> (int count, myvariable) | Some v \<Rightarrow> (int count, v))"

record mymodule_env =
  ret_kobject_create :: bool
  ret_sysfs_create_file :: int

text \<open>The file goes with its kobject.\<close>

definition mymodule_init :: "mymodule_env \<Rightarrow> 32 word \<Rightarrow> int \<times> 32 word \<times> event list" where [mod_init]:
  "mymodule_init e s =
     (if \<not> ret_kobject_create e then (- ENOMEM, s, [])
      else let error = ret_sysfs_create_file e in
        if error \<noteq> 0 then (error, s, [Acq Kobject, Rel Kobject])
        else (error, s, [Acq Kobject]))"

definition mymodule_exit :: "32 word \<Rightarrow> event list" where [mod_init]:
  "mymodule_exit s = [Rel Kobject]"

interpretation mymodule_mod: lkm_module mymodule_init mymodule_exit
  by (rule lkm_moduleI) (auto simp: mod_init split: if_splits)

section \<open>A parameter with a callback\<close>

text \<open>
  \<open>param_set_int\<close> gets a text and returns an error number or 0 and the number to store;
  \<open>param_get_int\<close> prints a number. What the kernel documents of them is the contract.
\<close>

locale param_int =
  fixes param_set_int :: "char list \<Rightarrow> int \<times> 32 word"
    and param_get_int :: "32 word \<Rightarrow> char list"
  assumes set_dec: "t \<in> {[], [NL]} \<Longrightarrow> param_set_int (dec (sint w) @ t) = (0, w)"
    and set_ret: "fst (param_set_int s) \<le> 0"
    and get_dec: "param_get_int w = dec (sint w) @ [NL]"

text \<open>The results are the return value, the variable \<open>watched\<close>, and the messages in the log.\<close>

definition watched_init :: "32 word" where
  "watched_init = 42"

definition watched_set ::
    "(char list \<Rightarrow> int \<times> 32 word) \<Rightarrow> 32 word \<Rightarrow> char list \<Rightarrow> int \<times> 32 word \<times> char list list" where
  "watched_set param_set_int watched val =
     (let (ret, v) = param_set_int val in
      if ret \<noteq> 0 then (ret, watched, [])
      else (0, v, [''watched updated to '' @ dec (sint v)]))"

definition watched_get ::
    "(32 word \<Rightarrow> char list) \<Rightarrow> 32 word \<Rightarrow> int \<times> char list \<times> char list list" where
  "watched_get param_get_int watched =
     (let buffer = param_get_int watched; ret = int (length buffer) in
      (ret, buffer, if 0 \<le> ret then [''watched was read''] else []))"

definition hello_6_init :: "32 word \<Rightarrow> int \<times> char list list" where
  "hello_6_init watched = (0, [''Hello, world 6'', ''watched starts at '' @ dec (sint watched)])"

definition hello_6_exit :: "char list list" where
  "hello_6_exit = [''Goodbye, world 6'']"

text \<open>A pair of functions that keeps the contract.\<close>

definition param_set_ref :: "char list \<Rightarrow> int \<times> 32 word" where
  "param_set_ref s =
     (let (ret, i) = kstrtol_ref s in
      if ret \<noteq> 0 then (ret, 0)
      else if - (2 ^ 31) \<le> i \<and> i < 2 ^ 31 then (0, word_of_int i) else (- 34, 0))"

definition param_get_ref :: "32 word \<Rightarrow> char list" where
  "param_get_ref w = dec (sint w) @ [NL]"

lemma sint_int32: "- (2 ^ 31) \<le> sint (w :: 32 word) \<and> sint w < 2 ^ 31"
  using sint_range_size[of w] by (simp add: word_size)

interpretation param_ref: param_int param_set_ref param_get_ref
proof
  fix t :: "char list" and w :: "32 word"
  assume t: "t \<in> {[], [NL]}"
  have "in_long (sint w)" using sint_int32[of w] by (simp add: in_long_def)
  then have "kstrtol_ref (dec (sint w) @ t) = (0, sint w)"
    using kstrtol_ref.kstrtol_number[OF _ _ t] by blast
  then show "param_set_ref (dec (sint w) @ t) = (0, w)"
    using sint_int32[of w] by (simp add: param_set_ref_def)
next
  fix s
  show "fst (param_set_ref s) \<le> 0"
    using kstrtol_ref.kstrtol_ret[of s] by (auto simp: param_set_ref_def Let_def split: prod.split)
next
  fix w
  show "param_get_ref w = dec (sint w) @ [NL]" by (simp add: param_get_ref_def)
qed

section \<open>Parameters at load time\<close>

text \<open>The variables that the kernel has set before \<open>hello_5_init\<close>, which prints them.\<close>

record hello_5 =
  h5_myshort :: "16 word"
  h5_myint :: "32 word"
  h5_mylong :: "64 word"
  h5_mystring :: "char list"
  h5_myintarray :: "32 word list"
  h5_arr_argc :: "32 word"

definition hello_5_zero :: hello_5 where
  "hello_5_zero = \<lparr>h5_myshort = 1, h5_myint = 420, h5_mylong = 9999, h5_mystring = ''blah'',
     h5_myintarray = [420, 420], h5_arr_argc = 0\<rparr>"

fun hello_5_array :: "32 word list \<Rightarrow> nat \<Rightarrow> char list list" where
  "hello_5_array [] i = []"
| "hello_5_array (w # ws) i =
     (''myintarray['' @ dec (int i) @ ''] = '' @ dec (sint w)) # hello_5_array ws (Suc i)"

definition hello_5_init :: "hello_5 \<Rightarrow> int \<times> char list list" where
  "hello_5_init s =
     (0, [''Hello, world 5'' @ [NL] @ ''============='',
          ''myshort is a short integer: '' @ dec (sint (h5_myshort s)),
          ''myint is an integer: '' @ dec (sint (h5_myint s)),
          ''mylong is a long integer: '' @ dec (sint (h5_mylong s)),
          ''mystring is a string: '' @ h5_mystring s] @
         hello_5_array (h5_myintarray s) 0 @
         [''got '' @ dec (sint (h5_arr_argc s)) @ '' arguments for myintarray.''])"

definition hello_5_exit :: "char list list" where
  "hello_5_exit = [''Goodbye, world 5'']"

section \<open>What is stored is shown\<close>

lemma dropWhile_is_space_dec: "dropWhile is_space (dec i @ r) = dec i @ r"
proof -
  have "\<not> is_space (hd (dec i))"
  proof (cases "i < 0")
    case True
    then show ?thesis by (simp add: dec_def is_space_def)
  next
    case False
    have "is_digit (hd (digits (nat i)))"
      using list_all_digits[of "nat i"] hd_in_set[OF digits_nonempty[of "nat i"]]
      by (auto simp: list_all_iff)
    with False show ?thesis by (auto simp: dec_def is_digit_def is_space_def Let_def)
  qed
  then show ?thesis by (cases "dec i") auto
qed

lemma takeWhile_digits:
  "r = [] \<or> \<not> is_digit (hd r) \<Longrightarrow> takeWhile is_digit (digits n @ r) = digits n"
  using list_all_digits[of n]
  by (cases r) (auto simp: list_all_iff takeWhile_append2)

lemma split_sign_dec: "split_sign (dec i @ r) = (i < 0, digits (nat \<bar>i\<bar>) @ r)"
proof (cases "i < 0")
  case True
  then show ?thesis by (simp add: dec_def split_sign_def)
next
  case False
  obtain c cs where d: "digits (nat i) = c # cs" using digits_nonempty by (cases "digits (nat i)") auto
  with list_all_digits[of "nat i"] have "is_digit c" by simp
  with False d show ?thesis by (auto simp: dec_def split_sign_def)
qed

text \<open>The number at the start of a text is read back, whatever follows that is no digit.\<close>

lemma sscanf_d_dec:
  assumes r: "r = [] \<or> \<not> is_digit (hd r)" and n: "NUL \<notin> set r"
  shows "sscanf_d (dec (sint w) @ r) = Some w"
proof -
  let ?i = "sint w"
  have c: "cstr (dec ?i @ r) = dec ?i @ r" using n by (intro cstr_no_NUL) simp
  define ds where "ds = digits (nat \<bar>?i\<bar>)"
  have t: "takeWhile is_digit (ds @ r) = ds" unfolding ds_def by (rule takeWhile_digits[OF r])
  have sp: "split_sign (dec ?i @ r) = (?i < 0, ds @ r)" unfolding ds_def by (rule split_sign_dec)
  have ne: "ds \<noteq> []" by (simp add: ds_def)
  have "sscanf_d (dec ?i @ r) =
      Some (word_of_int (if ?i < 0 then - int (undigits ds) else int (undigits ds)))"
    by (simp add: sscanf_d_def Let_def c dropWhile_is_space_dec sp t ne)
  also have "(if ?i < 0 then - int (undigits ds) else int (undigits ds)) = ?i"
    by (simp add: ds_def undigits_digits)
  finally show ?thesis by simp
qed

lemma sysfs_store_then_show:
  assumes r: "r = [] \<or> \<not> is_digit (hd r)" and n: "NUL \<notin> set r" and buf: "length buf = 4096"
  shows "\<exists>buf'. myvariable_store old (dec (sint w) @ r) count = (int count, w) \<and>
    myvariable_show w buf = Some (int (length (dec (sint w)) + 1), buf') \<and>
    cstr buf' = dec (sint w) @ [NL]"
proof -
  let ?t = "dec (sint w) @ [NL]"
  have "length ?t < length buf" using length_dec_int32[of w] buf by simp
  from store_str_Some[OF this] have "myvariable_show w buf =
      Some (int (length ?t), put_front (?t @ [NUL]) buf)" by (simp add: myvariable_show_def)
  moreover have "cstr (put_front (?t @ [NUL]) buf) = ?t" by (rule cstr_put_front_NUL) simp
  ultimately show ?thesis using sscanf_d_dec[OF r n]
    by (simp add: myvariable_store_def del: append_assoc)
qed

text \<open>A text that does not start with a number changes nothing, and is accepted.\<close>

lemma sysfs_store_text:
  "buf = [] \<or> \<not> is_space (hd buf) \<and> \<not> number_char (hd buf) \<Longrightarrow>
    myvariable_store old buf count = (int count, old)"
  by (cases buf)
    (auto simp: myvariable_store_def sscanf_d_def cstr_def split_sign_def number_char_def
      is_space_def is_digit_def Let_def)

context param_int begin

lemma watched_set_then_get:
  assumes "t \<in> {[], [NL]}"
  shows "watched_set param_set_int old (dec (sint w) @ t) =
      (0, w, [''watched updated to '' @ dec (sint w)]) \<and>
    fst (snd (watched_get param_get_int w)) = dec (sint w) @ [NL]"
  by (simp add: watched_set_def set_dec[OF assms] watched_get_def get_dec)

lemma watched_set_error:
  "fst (watched_set param_set_int old s) < 0 \<Longrightarrow>
    snd (watched_set param_set_int old s) = (old, [])"
  by (auto simp: watched_set_def Let_def split: prod.splits if_splits)

end

end
