(* ===== verification/Platform.thy ===== *)
theory Platform
  imports Resources
begin

text \<open>
  \<open>dma.c\<close>, \<open>devicetree.c\<close>, \<open>devicemodel.c\<close> and \<open>kmem_cache.c\<close>: drivers of platform devices, and objects
  of a slab cache. What they allocate for a device with the \<open>devm_\<close> functions the driver core
  releases when the probe fails or the device is removed.
\<close>

section \<open>DMA: the probe function\<close>

record dma_demo_dev =
  dm_coherent_len :: "32 word"
  dm_streaming_buf :: "char list"
  dm_streaming_len :: "32 word"

text \<open>What the calls of \<open>dma_demo_probe\<close> return: an error number, and four times success.\<close>

record dma_probe_env =
  ret_dma_set_mask :: int
  ret_kzalloc_demo :: bool
  ret_alloc_coherent :: bool
  ret_kzalloc_streaming :: bool
  ret_dma_map :: bool

text \<open>
  The return value, the driver data of the device, and the events. \<open>dev_err_probe\<close> returns the
  error that it is given.
\<close>

definition dma_demo_probe ::
    "dma_probe_env \<Rightarrow> 32 word \<Rightarrow> 32 word \<Rightarrow> int \<times> dma_demo_dev option \<times> event list" where
  "dma_demo_probe e coherent_size streaming_size =
     (if ret_dma_set_mask e \<noteq> 0 then (ret_dma_set_mask e, None, [])
      else if \<not> ret_kzalloc_demo e then (- ENOMEM, None, [])
      else let demo = \<lparr>dm_coherent_len = coherent_size, dm_streaming_buf = [],
                       dm_streaming_len = streaming_size\<rparr>;
               t = [Acq (Devm ''demo'')] in
        if \<not> ret_alloc_coherent e then (- ENOMEM, None, t)
        else let t = t @ [Acq (Devm ''coherent_buf'')] in
          if \<not> ret_kzalloc_streaming e then (- ENOMEM, None, t)
          else let t = t @ [Acq (Devm ''streaming_buf'')];
                   demo = demo\<lparr>dm_streaming_buf :=
                     replicate (unat (dm_streaming_len demo)) (char_of (0x5a :: nat))\<rparr> in
            if \<not> ret_dma_map e then (- EIO, None, t)
            else (0, Some demo, t @ [Acq DmaMapping, Rel DmaMapping]))"

section \<open>DMA: load and unload\<close>

text \<open>
  The state of the device between load and unload: whether the driver is bound to it. The last
  component of the environment is for the probe, which the driver core calls when the driver
  is registered; a probe that fails does not make the registration fail.
\<close>

record dma_env =
  ret_device_alloc :: bool
  ret_device_add :: int
  ret_driver_register :: int
  ret_probe :: dma_probe_env

type_synonym dma_state = "dma_demo_dev option"

text \<open>Releasing all memory of the device, in the order opposite to that of the allocations.\<close>

definition devres_release_all :: "event list" where
  "devres_release_all = [Drop (Devm ''streaming_buf''), Drop (Devm ''coherent_buf''), Drop (Devm ''demo'')]"

definition dma_demo_init ::
    "32 word \<Rightarrow> 32 word \<Rightarrow> dma_env \<Rightarrow> dma_state \<Rightarrow> int \<times> dma_state \<times> event list" where
  "dma_demo_init coherent_size streaming_size e s =
     (if \<not> ret_device_alloc e then (- ENOMEM, s, [])
      else if ret_device_add e \<noteq> 0 then (ret_device_add e, s, [Acq PlatDev, Rel PlatDev])
      else if ret_driver_register e \<noteq> 0
      then (ret_driver_register e, s, [Acq PlatDev, Acq PlatDevLive, Rel PlatDevLive, Rel PlatDev])
      else let (r, demo, t) = dma_demo_probe (ret_probe e) coherent_size streaming_size in
        (0, demo, [Acq PlatDev, Acq PlatDevLive, Acq PlatDrv] @ t @
                  (if r \<noteq> 0 then devres_release_all else [])))"

text \<open>
  Unregistering the driver removes the device, which calls \<open>dma_demo_remove\<close> and then releases its memory.
  The function prints, and keeps nothing; before 5.18 it returns 0, and nothing after.
\<close>

definition dma_demo_remove :: "dma_demo_dev \<Rightarrow> int \<times> event list" where
  "dma_demo_remove demo = (0, [])"

definition dma_demo_exit :: "dma_state \<Rightarrow> event list" where
  "dma_demo_exit s =
     (case s of None \<Rightarrow> [] | Some demo \<Rightarrow> snd (dma_demo_remove demo) @ devres_release_all) @
     [Rel PlatDrv, Rel PlatDevLive, Rel PlatDev]"

lemma dma_probe_released:
  assumes "dma_demo_probe e c n = (r, demo, t)"
  shows "(r = 0 \<longleftrightarrow> demo \<noteq> None) \<and>
    (\<exists>h'. replay h t = Some (h' @ h) \<and>
      h' \<in> {[], [Devm ''demo''], [Devm ''coherent_buf'', Devm ''demo''],
             [Devm ''streaming_buf'', Devm ''coherent_buf'', Devm ''demo'']})"
  using assms by (auto simp: dma_demo_probe_def Let_def split: if_splits)

lemma devres_release_all_replay:
  assumes "h' \<in> {[], [Devm ''demo''], [Devm ''coherent_buf'', Devm ''demo''],
             [Devm ''streaming_buf'', Devm ''coherent_buf'', Devm ''demo'']}"
  shows "replay (h' @ [PlatDrv, PlatDevLive, PlatDev]) devres_release_all =
    Some [PlatDrv, PlatDevLive, PlatDev]"
  using assms by (auto simp: devres_release_all_def)

interpretation dma_mod: lkm_module "dma_demo_init c n" dma_demo_exit for c n
proof (rule lkm_moduleI)
  fix e s r s' t
  let ?h = "[PlatDrv, PlatDevLive, PlatDev]"
  assume l: "dma_demo_init c n e s = (r, s', t)"
  show "if r = 0 then (case replay [] t of None \<Rightarrow> None | Some h \<Rightarrow> replay h (dma_demo_exit s')) = Some []
     else replay [] t = Some []"
  proof (cases "ret_device_alloc e \<and> ret_device_add e = 0 \<and> ret_driver_register e = 0")
    case False
    with l show ?thesis by (auto simp: dma_demo_init_def Let_def split: if_splits)
  next
    case True
    obtain pr demo pt where p: "dma_demo_probe (ret_probe e) c n = (pr, demo, pt)"
      by (cases "dma_demo_probe (ret_probe e) c n") auto
    from dma_probe_released[OF p, of ?h] obtain h' where
      ok: "pr = 0 \<longleftrightarrow> demo \<noteq> None" and h: "replay ?h pt = Some (h' @ ?h)"
      and rel: "replay (h' @ ?h) devres_release_all = Some ?h"
      using devres_release_all_replay by metis
    from True l p have r: "r = 0" "s' = demo"
      and t: "t = [Acq PlatDev, Acq PlatDevLive, Acq PlatDrv] @ pt @ (if pr \<noteq> 0 then devres_release_all else [])"
      by (auto simp: dma_demo_init_def)
    have "replay [] t = Some (if pr \<noteq> 0 then ?h else h' @ ?h)"
      using h rel by (simp add: t replay_append)
    moreover have "replay ?h [Rel PlatDrv, Rel PlatDevLive, Rel PlatDev] = Some []" by simp
    ultimately show ?thesis using r ok rel
      by (auto simp: dma_demo_exit_def dma_demo_remove_def replay_append split: option.split)
  qed
next
  fix e s r s' t s''
  assume "dma_demo_init c n e s = (r, s', t)"
  then show "list_all spares_irqs (t @ dma_demo_exit s'')"
    by (auto simp: dma_demo_init_def dma_demo_probe_def dma_demo_exit_def dma_demo_remove_def
      devres_release_all_def Let_def split: if_splits option.splits)
qed

section \<open>Device tree\<close>

text \<open>
  A node of the device tree as the functions \<open>of_property_read_string\<close> and \<open>of_property_read_u32\<close>
  see it, which return 0 or an error number, and \<open>of_property_read_bool\<close>.
\<close>

record device_node =
  np_string :: "char list \<Rightarrow> int \<times> char list"
  np_u32 :: "char list \<Rightarrow> int \<times> 32 word"
  np_bool :: "char list \<Rightarrow> bool"

record dt_device_data =
  dt_label :: "char list"
  dt_reg_value :: "32 word"
  dt_custom_value :: "32 word"
  dt_has_clock :: bool

text \<open>The return value and the driver data; \<open>ok\<close> is the success of \<open>devm_kzalloc\<close>.\<close>

definition dt_probe :: "bool \<Rightarrow> device_node \<Rightarrow> int \<times> dt_device_data option" where
  "dt_probe ok np =
     (if \<not> ok then (- ENOMEM, None)
      else let data = \<lparr>dt_label = [], dt_reg_value = 0, dt_custom_value = 0, dt_has_clock = False\<rparr>;
               (ret, string_prop) = np_string np ''label'';
               data = data\<lparr>dt_label := if ret = 0 then string_prop else ''unnamed''\<rparr>;
               (ret, value) = np_u32 np ''reg'';
               data = (if ret = 0 then data\<lparr>dt_reg_value := value\<rparr> else data);
               (ret, value) = np_u32 np ''lkmpg,custom-value'';
               data = data\<lparr>dt_custom_value := if ret = 0 then value else 42\<rparr>;
               data = data\<lparr>dt_has_clock := np_bool np ''lkmpg,has-clock''\<rparr>
      in (0, Some data))"

text \<open>\<open>dt_remove\<close> prints the label of the driver data, which is there after a probe that succeeded.\<close>

definition dt_remove :: "dt_device_data option \<Rightarrow> char list option" where
  "dt_remove drvdata =
     (case drvdata of None \<Rightarrow> None
      | Some data \<Rightarrow> Some (''lkmpg_devicetree: Removing device '' @ dt_label data))"

definition dt_match_table :: "char list list" where
  "dt_match_table = [''lkmpg,example-device'', ''lkmpg,another-device'']"

definition dt_init :: "int \<Rightarrow> unit \<Rightarrow> int \<times> unit \<times> event list" where [mod_init]:
  "dt_init ret s = (if ret \<noteq> 0 then (ret, s, []) else (0, s, [Acq PlatDrv]))"

definition dt_exit :: "unit \<Rightarrow> event list" where [mod_init]:
  "dt_exit s = [Rel PlatDrv]"

interpretation dt_mod: lkm_module dt_init dt_exit
  by (rule lkm_moduleI) (auto simp: mod_init split: if_splits)

section \<open>Device model\<close>

text \<open>
  \<open>devicemodel_probe\<close> follows the pointer \<open>platform_data\<close> of the device without a test: \<open>None\<close> when
  the device has none. Its results are the return value and the second message.
\<close>

record devicemodel_data =
  pd_greeting :: "char list"
  pd_number :: "32 word"

definition devicemodel_probe :: "devicemodel_data option \<Rightarrow> (int \<times> char list) option" where
  "devicemodel_probe platform_data =
     (case platform_data of None \<Rightarrow> None
      | Some pd \<Rightarrow>
          Some (0, ''devicemodel greeting: '' @ pd_greeting pd @ ''; '' @ dec (sint (pd_number pd))))"

text \<open>
  The other callbacks, with their return value and message. From Linux 6.11 on
  \<open>devicemodel_remove\<close> returns nothing.
\<close>

definition devicemodel_remove :: "int \<times> char list" where
  "devicemodel_remove = (0, ''devicemodel example removed'')"

definition devicemodel_suspend :: "int \<times> char list" where
  "devicemodel_suspend = (0, ''devicemodel example suspend'')"

definition devicemodel_resume :: "int \<times> char list" where
  "devicemodel_resume = (0, ''devicemodel example resume'')"

text \<open>The callbacks of power management that the driver sets.\<close>

datatype pm_callback = PmSuspend | PmResume | PmPoweroff | PmFreeze | PmThaw | PmRestore

fun devicemodel_pm_ops :: "pm_callback \<Rightarrow> int \<times> char list" where
  "devicemodel_pm_ops PmSuspend = devicemodel_suspend"
| "devicemodel_pm_ops PmResume = devicemodel_resume"
| "devicemodel_pm_ops PmPoweroff = devicemodel_suspend"
| "devicemodel_pm_ops PmFreeze = devicemodel_suspend"
| "devicemodel_pm_ops PmThaw = devicemodel_resume"
| "devicemodel_pm_ops PmRestore = devicemodel_resume"

text \<open>
  The callback that the kernel calls after each that stops the device: the device that was
  stopped is always started again, and no callback refuses.
\<close>

fun pm_counterpart :: "pm_callback \<Rightarrow> pm_callback option" where
  "pm_counterpart PmSuspend = Some PmResume"
| "pm_counterpart PmFreeze = Some PmThaw"
| "pm_counterpart PmPoweroff = Some PmRestore"
| "pm_counterpart _ = None"

lemma devicemodel_pm_paired:
  "fst (devicemodel_pm_ops cb) = 0 \<and>
    (devicemodel_pm_ops cb = devicemodel_suspend \<longleftrightarrow> pm_counterpart cb \<noteq> None) \<and>
    (\<forall>cb'. pm_counterpart cb = Some cb' \<longrightarrow> devicemodel_pm_ops cb' = devicemodel_resume)"
  by (cases cb) (auto simp: devicemodel_suspend_def devicemodel_resume_def)

definition devicemodel_init :: "int \<Rightarrow> unit \<Rightarrow> int \<times> unit \<times> event list" where [mod_init]:
  "devicemodel_init ret s = (if ret \<noteq> 0 then (ret, s, []) else (0, s, [Acq PlatDrv]))"

definition devicemodel_exit :: "unit \<Rightarrow> event list" where [mod_init]:
  "devicemodel_exit s = [Rel PlatDrv]"

interpretation devicemodel_mod: lkm_module devicemodel_init devicemodel_exit
  by (rule lkm_moduleI) (auto simp: mod_init split: if_splits)

section \<open>A slab cache\<close>

text \<open>
  The pointer \<open>my_cachep\<close>, as whether it is not \<open>NULL\<close>, and \<open>obj1\<close> and \<open>obj2\<close>, each as the \<open>id\<close> of its
  object, if there is one; an object that is just allocated has any \<open>id\<close>.
\<close>

record kmem_state =
  km_cachep :: bool
  km_obj1 :: "32 word option"
  km_obj2 :: "32 word option"

record kmem_env =
  ret_cache_create :: bool
  ret_cache_alloc1 :: "32 word option"
  ret_cache_alloc2 :: "32 word option"

definition acq_if :: "bool \<Rightarrow> kres \<Rightarrow> event list" where [mod_init]:
  "acq_if b r = (if b then [Acq r] else [])"

definition rel_if :: "bool \<Rightarrow> kres \<Rightarrow> event list" where [mod_init]:
  "rel_if b r = (if b then [Rel r] else [])"

definition kmem_cache_example_init ::
    "kmem_env \<Rightarrow> kmem_state \<Rightarrow> int \<times> kmem_state \<times> event list" where [mod_init]:
  "kmem_cache_example_init e s =
     (let s = s\<lparr>km_cachep := ret_cache_create e\<rparr> in
      if \<not> km_cachep s then (- ENOMEM, s, [])
      else let s = s\<lparr>km_obj1 := ret_cache_alloc1 e\<rparr>; s = s\<lparr>km_obj2 := ret_cache_alloc2 e\<rparr>;
               t = [Acq KmemCache] @ acq_if (km_obj1 s \<noteq> None) (Mem ''obj1'') @
                 acq_if (km_obj2 s \<noteq> None) (Mem ''obj2'') in
        if km_obj1 s = None \<or> km_obj2 s = None
        then (- ENOMEM, s, t @ rel_if (km_obj1 s \<noteq> None) (Mem ''obj1'') @
               rel_if (km_obj2 s \<noteq> None) (Mem ''obj2'') @ [Rel KmemCache])
        else let s = s\<lparr>km_obj1 := Some 1\<rparr>; s = s\<lparr>km_obj2 := Some 2\<rparr> in (0, s, t))"

definition kmem_cache_example_exit :: "kmem_state \<Rightarrow> event list" where [mod_init]:
  "kmem_cache_example_exit s =
     rel_if (km_obj1 s \<noteq> None) (Mem ''obj1'') @ rel_if (km_obj2 s \<noteq> None) (Mem ''obj2'') @
     rel_if (km_cachep s) KmemCache"

interpretation kmem_mod: lkm_module kmem_cache_example_init kmem_cache_example_exit
  by (rule lkm_moduleI) (auto simp: mod_init split: if_splits)

section \<open>What the probes leave\<close>

text \<open>
  A streaming buffer of a successful DMA probe holds the pattern in all its bytes, and the
  mapping of it is gone.
\<close>

lemma dma_probe_pattern:
  assumes "dma_demo_probe e c n = (0, Some demo, t)"
  shows "dm_streaming_buf demo = replicate (unat n) CHR ''Z'' \<and>
    replay [] t = Some [Devm ''streaming_buf'', Devm ''coherent_buf'', Devm ''demo'']"
proof -
  have "char_of (0x5a :: nat) = CHR ''Z''" by (simp add: char_of_def bit_0)
  with assms show ?thesis by (auto simp: dma_demo_probe_def Let_def split: if_splits)
qed

lemma dt_probe_data:
  "dt_probe True np = (0, Some
     \<lparr>dt_label = if fst (np_string np ''label'') = 0 then snd (np_string np ''label'') else ''unnamed'',
      dt_reg_value = if fst (np_u32 np ''reg'') = 0 then snd (np_u32 np ''reg'') else 0,
      dt_custom_value =
        if fst (np_u32 np ''lkmpg,custom-value'') = 0 then snd (np_u32 np ''lkmpg,custom-value'') else 42,
      dt_has_clock = np_bool np ''lkmpg,has-clock''\<rparr>)"
  by (auto simp: dt_probe_def Let_def split: prod.split)

text \<open>A device that was probed can be removed.\<close>

lemma dt_remove_after_probe: "dt_probe ok np = (0, drvdata) \<Longrightarrow> dt_remove drvdata \<noteq> None"
  by (auto simp: dt_probe_def dt_remove_def Let_def split: prod.splits if_splits)

end
