(* ===== verification/Deferred_Work.thy ===== *)
theory Deferred_Work
  imports Resources
begin

text \<open>
  \<open>kbleds.c\<close>, \<open>sched.c\<close> and \<open>example_tasklet.c\<close>: functions of a module that run later, by a timer, on
  a work queue and as a tasklet, and how they end when the module is unloaded.
\<close>

section \<open>Work that runs once\<close>

text \<open>
  The contract of work that is queued at load: it runs at most once for each time it is queued, at
  any time after it, and unloading runs what is still queued.
\<close>

locale work_once =
  fixes queue_it run_it finish_it :: "'s \<Rightarrow> 's"
    and pending :: "'s \<Rightarrow> bool"
    and log :: "'s \<Rightarrow> 'l"
    and handler :: "'l \<Rightarrow> 'l"
  assumes queued: "\<not> pending s \<Longrightarrow> pending (queue_it s) \<and> log (queue_it s) = log s"
    and run_pending: "pending s \<Longrightarrow> \<not> pending (run_it s) \<and> log (run_it s) = handler (log s)"
    and run_idle: "\<not> pending s \<Longrightarrow> run_it s = s"
    and finished: "pending (finish_it s) = pending (run_it s) \<and> log (finish_it s) = log (run_it s)"
begin

lemma runs_at_most_once:
  "\<not> pending s \<Longrightarrow> (run_it ^^ n) s = s"
  by (induction n) (simp_all add: run_idle)

text \<open>However often the kernel looks for work in between, after the end it ran exactly once.\<close>

lemma runs_exactly_once:
  assumes "\<not> pending s"
  shows "\<not> pending (finish_it ((run_it ^^ n) (queue_it s))) \<and>
    log (finish_it ((run_it ^^ n) (queue_it s))) = handler (log s)"
proof (cases n)
  case 0
  with queued[OF assms] run_pending[of "queue_it s"] finished[of "queue_it s"] show ?thesis by simp
next
  case (Suc m)
  let ?r = "run_it (queue_it s)"
  from queued[OF assms] run_pending[of "queue_it s"]
  have r: "\<not> pending ?r" "log ?r = handler (log s)" by simp_all
  have "(run_it ^^ n) (queue_it s) = (run_it ^^ m) ?r" unfolding Suc by (simp add: funpow_swap1)
  also have "\<dots> = ?r" by (rule runs_at_most_once[OF r(1)])
  finally show ?thesis using r finished[of ?r] run_idle[OF r(1)] by simp
qed

end

section \<open>A work queue\<close>

record work_state =
  wk_queued :: bool
  wk_log :: "char list list"

definition work_handler :: "char list list \<Rightarrow> char list list" where
  "work_handler log = log @ [''work handler function.'']"

text \<open>A worker thread of the queue takes the work off before it calls the handler.\<close>

definition sched_worker :: "work_state \<Rightarrow> work_state" where
  "sched_worker s =
     (if wk_queued s then s\<lparr>wk_queued := False, wk_log := work_handler (wk_log s)\<rparr> else s)"

definition sched_queue :: "work_state \<Rightarrow> work_state" where
  "sched_queue s = s\<lparr>wk_queued := True\<rparr>"

definition sched_init :: "bool \<Rightarrow> work_state \<Rightarrow> int \<times> work_state \<times> event list" where [mod_init]:
  "sched_init ok s =
     (if \<not> ok then (- ENOMEM, s, []) else (0, sched_queue s, [Acq Workqueue]))"

text \<open>\<open>flush_workqueue\<close> waits until all work that is queued has run; then the queue is destroyed.\<close>

definition sched_flush :: "work_state \<Rightarrow> work_state" where
  "sched_flush s = (if wk_queued s then sched_worker s else s)"

definition sched_exit :: "work_state \<Rightarrow> event list" where [mod_init]:
  "sched_exit s = [Rel Workqueue]"

interpretation sched_mod: lkm_module sched_init sched_exit
  by (rule lkm_moduleI) (auto simp: mod_init split: if_splits)

interpretation sched_work: work_once sched_queue sched_worker sched_flush wk_queued
    wk_log work_handler
  by unfold_locales (auto simp: sched_queue_def sched_worker_def sched_flush_def)

section \<open>A tasklet\<close>

definition tasklet_fn :: "char list list \<Rightarrow> char list list" where
  "tasklet_fn log = log @ [''Example tasklet starts'', ''Example tasklet ends'']"

definition softirq_tasklet :: "work_state \<Rightarrow> work_state" where
  "softirq_tasklet s =
     (if wk_queued s then s\<lparr>wk_queued := False, wk_log := tasklet_fn (wk_log s)\<rparr> else s)"

text \<open>
  \<open>example_tasklet_init\<close> schedules the tasklet between two of its messages, which are left out of
  the log; \<open>tasklet_kill\<close> waits for a tasklet that is scheduled.
\<close>

definition example_tasklet_init :: "work_state \<Rightarrow> work_state" where
  "example_tasklet_init s = s\<lparr>wk_queued := True\<rparr>"

definition example_tasklet_exit :: "work_state \<Rightarrow> work_state" where
  "example_tasklet_exit s = (if wk_queued s then softirq_tasklet s else s)"

interpretation tasklet_work: work_once example_tasklet_init softirq_tasklet example_tasklet_exit
    wk_queued wk_log tasklet_fn
  by unfold_locales
    (auto simp: example_tasklet_init_def softirq_tasklet_def example_tasklet_exit_def)

section \<open>A timer\<close>

text \<open>
  \<open>kl_expires\<close> is when the timer expires if it is pending; \<open>kl_ioctls\<close> are the arguments of the ioctl
  \<open>KDSETLED\<close> that the keyboard driver got.
\<close>

record kbleds =
  kl_status :: "64 word"
  kl_expires :: "64 word option"
  kl_ioctls :: "64 word list"

definition kbleds_zero :: kbleds where
  "kbleds_zero = \<lparr>kl_status = 0, kl_expires = None, kl_ioctls = []\<rparr>"

definition ALL_LEDS_ON :: "64 word" where
  "ALL_LEDS_ON = 0x07"

definition RESTORE_LEDS :: "64 word" where
  "RESTORE_LEDS = 0xFF"

text \<open>\<open>BLINK_DELAY\<close> is \<open>HZ / 5\<close>; \<open>jiffies\<close> is the time in ticks.\<close>

definition blink_expires :: "64 word \<Rightarrow> 64 word \<Rightarrow> 64 word" where
  "blink_expires hz jiffies = jiffies + hz div 5"

definition my_timer_func :: "64 word \<Rightarrow> 64 word \<Rightarrow> kbleds \<Rightarrow> kbleds" where
  "my_timer_func hz jiffies s =
     (let s = s\<lparr>kl_status := if kl_status s = ALL_LEDS_ON then RESTORE_LEDS else ALL_LEDS_ON\<rparr>;
          s = s\<lparr>kl_ioctls := kl_ioctls s @ [kl_status s]\<rparr>
      in s\<lparr>kl_expires := Some (blink_expires hz jiffies)\<rparr>)"

text \<open>
  The loop over the consoles only prints. The driver of the console in the foreground is found
  through the pointer to its tty: \<open>None\<close> when there is no tty.
\<close>

definition kbleds_init :: "64 word \<Rightarrow> 64 word \<Rightarrow> bool \<Rightarrow> kbleds \<Rightarrow> (int \<times> kbleds) option" where
  "kbleds_init hz jiffies tty s =
     (if \<not> tty then None else Some (0, s\<lparr>kl_expires := Some (blink_expires hz jiffies)\<rparr>))"

definition kbleds_cleanup :: "kbleds \<Rightarrow> kbleds" where
  "kbleds_cleanup s =
     (let s = s\<lparr>kl_expires := None\<rparr> in s\<lparr>kl_ioctls := kl_ioctls s @ [RESTORE_LEDS]\<rparr>)"

text \<open>
  The kernel calls the function of a timer that is pending, at a time when it has expired, and
  the timer is then not pending any more. \<open>ts\<close> are the times of the calls.
\<close>

definition timer_interrupt :: "64 word \<Rightarrow> 64 word \<Rightarrow> kbleds \<Rightarrow> kbleds" where
  "timer_interrupt hz jiffies s =
     (if kl_expires s = None then s else my_timer_func hz jiffies (s\<lparr>kl_expires := None\<rparr>))"

fun timer_run :: "64 word \<Rightarrow> 64 word list \<Rightarrow> kbleds \<Rightarrow> kbleds" where
  "timer_run hz [] s = s"
| "timer_run hz (t # ts) s = timer_run hz ts (timer_interrupt hz t s)"

definition leds :: "nat \<Rightarrow> 64 word" where
  "leds i = (if even i then ALL_LEDS_ON else RESTORE_LEDS)"

lemma timer_interrupt_leds:
  assumes "kl_expires s \<noteq> None" and "kl_status s = ALL_LEDS_ON \<longleftrightarrow> odd k"
  shows "kl_ioctls (timer_interrupt hz t s) = kl_ioctls s @ [leds k] \<and>
    (kl_status (timer_interrupt hz t s) = ALL_LEDS_ON \<longleftrightarrow> odd (Suc k)) \<and>
    kl_expires (timer_interrupt hz t s) = Some (blink_expires hz t)"
  using assms
  by (auto simp: timer_interrupt_def my_timer_func_def Let_def leds_def ALL_LEDS_ON_def RESTORE_LEDS_def)

lemma timer_run_leds:
  "kl_expires s \<noteq> None \<Longrightarrow> (kl_status s = ALL_LEDS_ON \<longleftrightarrow> odd k) \<Longrightarrow>
    kl_ioctls (timer_run hz ts s) = kl_ioctls s @ map leds [k..<k + length ts] \<and>
    kl_expires (timer_run hz ts s) \<noteq> None"
proof (induction ts arbitrary: s k)
  case Nil
  then show ?case by simp
next
  case (Cons t ts)
  let ?s = "timer_interrupt hz t s"
  from timer_interrupt_leds[OF Cons.prems, of hz t]
  have i: "kl_ioctls ?s = kl_ioctls s @ [leds k]" "kl_expires ?s \<noteq> None"
    "kl_status ?s = ALL_LEDS_ON \<longleftrightarrow> odd (Suc k)" by simp_all
  have "[k..<k + length (t # ts)] = k # [Suc k..<Suc k + length ts]" by (simp add: upt_rec)
  with Cons.IH[OF i(2,3)] i(1) show ?case by simp
qed

section \<open>Properties\<close>

text \<open>
  From load to unload the keyboard's LEDs are switched on and given back in turns,
  once for every call of the timer's function, starting with on; unloading always gives them
  back in the end, and leaves no timer pending.
\<close>

lemma kbleds_blink:
  shows "\<exists>s. kbleds_init hz j True kbleds_zero = Some (0, s) \<and>
    kl_ioctls (kbleds_cleanup (timer_run hz ts s)) = map leds [0..<length ts] @ [RESTORE_LEDS] \<and>
    kl_expires (kbleds_cleanup (timer_run hz ts s)) = None"
proof -
  let ?s = "kbleds_zero\<lparr>kl_expires := Some (blink_expires hz j)\<rparr>"
  have "kl_expires ?s \<noteq> None" "kl_status ?s = ALL_LEDS_ON \<longleftrightarrow> odd (0 :: nat)" "kl_ioctls ?s = []"
    by (simp_all add: kbleds_zero_def ALL_LEDS_ON_def)
  with timer_run_leds[of ?s 0 hz ts] show ?thesis
    by (simp add: kbleds_init_def kbleds_cleanup_def)
qed

text \<open>
  The work of \<open>sched.c\<close> and the tasklet of \<open>example_tasklet.c\<close> have run exactly once
  when the module is unloaded, whether or not the kernel came to them before, and nothing is
  left queued.
\<close>

lemma deferred_work_runs_once:
  assumes "\<not> wk_queued s"
  shows "\<not> wk_queued (sched_flush ((sched_worker ^^ n) (sched_queue s))) \<and>
    wk_log (sched_flush ((sched_worker ^^ n) (sched_queue s))) = wk_log s @ [''work handler function.''] \<and>
    \<not> wk_queued (example_tasklet_exit ((softirq_tasklet ^^ n) (example_tasklet_init s))) \<and>
    wk_log (example_tasklet_exit ((softirq_tasklet ^^ n) (example_tasklet_init s))) =
      wk_log s @ [''Example tasklet starts'', ''Example tasklet ends'']"
  using sched_work.runs_exactly_once[OF assms, of n] tasklet_work.runs_exactly_once[OF assms, of n]
  by (simp only: work_handler_def tasklet_fn_def) simp

lemma deferred_work_runs_once_witness:
  "wk_log (sched_flush ((sched_worker ^^ 3) (sched_queue \<lparr>wk_queued = False, wk_log = []\<rparr>))) =
    [''work handler function.'']"
proof -
  have "\<not> wk_queued \<lparr>wk_queued = False, wk_log = []\<rparr>" by simp
  from deferred_work_runs_once[OF this, of 3] show ?thesis by (simp only: append_Nil work_state.simps)
qed

end
