(* ===== verification/Locks.thy ===== *)
theory Locks
  imports LKM_Prelude
begin

text \<open>
  \<open>example_mutex.c\<close>, \<open>example_spinlock.c\<close>, \<open>example_rwlock.c\<close>, \<open>example_atomic.c\<close> and
  \<open>print_string.c\<close>: modules whose load function shows the use of one primitive of the kernel. The
  model of each is its log and its effect on the lock, the interrupts, or the tty.
\<close>

section \<open>Locks\<close>

text \<open>
  One processor: whether its interrupts are on, which spin locks are held, and the readers and
  writer of read-write locks. A lock that cannot be had makes the processor spin for ever: \<open>None\<close>,
  as is the release of a lock that is not held.
\<close>

record cpu =
  cp_irqs :: bool
  cp_spin :: "char list \<Rightarrow> bool"
  cp_readers :: "char list \<Rightarrow> nat"
  cp_writer :: "char list \<Rightarrow> bool"

text \<open>The \<open>irqsave\<close> variants return the flags before them; the \<open>irqrestore\<close> variants put them back.\<close>

definition spin_lock_irqsave :: "char list \<Rightarrow> cpu \<Rightarrow> (bool \<times> cpu) option" where
  "spin_lock_irqsave l c =
     (if cp_spin c l then None
      else Some (cp_irqs c, c\<lparr>cp_irqs := False, cp_spin := (cp_spin c)(l := True)\<rparr>))"

definition spin_unlock_irqrestore :: "char list \<Rightarrow> bool \<Rightarrow> cpu \<Rightarrow> cpu option" where
  "spin_unlock_irqrestore l flags c =
     (if \<not> cp_spin c l then None
      else Some (c\<lparr>cp_irqs := flags, cp_spin := (cp_spin c)(l := False)\<rparr>))"

definition spin_lock_init :: "char list \<Rightarrow> cpu \<Rightarrow> cpu" where
  "spin_lock_init l c = c\<lparr>cp_spin := (cp_spin c)(l := False)\<rparr>"

definition read_lock_irqsave :: "char list \<Rightarrow> cpu \<Rightarrow> (bool \<times> cpu) option" where
  "read_lock_irqsave l c =
     (if cp_writer c l then None
      else Some (cp_irqs c,
             c\<lparr>cp_irqs := False, cp_readers := (cp_readers c)(l := Suc (cp_readers c l))\<rparr>))"

definition read_unlock_irqrestore :: "char list \<Rightarrow> bool \<Rightarrow> cpu \<Rightarrow> cpu option" where
  "read_unlock_irqrestore l flags c =
     (if cp_readers c l = 0 then None
      else Some (c\<lparr>cp_irqs := flags, cp_readers := (cp_readers c)(l := cp_readers c l - 1)\<rparr>))"

definition write_lock_irqsave :: "char list \<Rightarrow> cpu \<Rightarrow> (bool \<times> cpu) option" where
  "write_lock_irqsave l c =
     (if cp_writer c l \<or> cp_readers c l \<noteq> 0 then None
      else Some (cp_irqs c, c\<lparr>cp_irqs := False, cp_writer := (cp_writer c)(l := True)\<rparr>))"

definition write_unlock_irqrestore :: "char list \<Rightarrow> bool \<Rightarrow> cpu \<Rightarrow> cpu option" where
  "write_unlock_irqrestore l flags c =
     (if \<not> cp_writer c l then None
      else Some (c\<lparr>cp_irqs := flags, cp_writer := (cp_writer c)(l := False)\<rparr>))"

text \<open>The functions return their messages, and for each whether interrupts were on.\<close>

type_synonym lock_log = "(char list \<times> bool) list"

definition example_spinlock_static :: "cpu \<Rightarrow> (lock_log \<times> cpu) option" where
  "example_spinlock_static c =
     do { (flags, c) \<leftarrow> spin_lock_irqsave ''sl_static'' c;
          let log = [(''Locked static spinlock'', cp_irqs c)];
          c \<leftarrow> spin_unlock_irqrestore ''sl_static'' flags c;
          Some (log @ [(''Unlocked static spinlock'', cp_irqs c)], c) }"

definition example_spinlock_dynamic :: "cpu \<Rightarrow> (lock_log \<times> cpu) option" where
  "example_spinlock_dynamic c =
     do { let c = spin_lock_init ''sl_dynamic'' c;
          (flags, c) \<leftarrow> spin_lock_irqsave ''sl_dynamic'' c;
          let log = [(''Locked dynamic spinlock'', cp_irqs c)];
          c \<leftarrow> spin_unlock_irqrestore ''sl_dynamic'' flags c;
          Some (log @ [(''Unlocked dynamic spinlock'', cp_irqs c)], c) }"

definition example_spinlock_init :: "cpu \<Rightarrow> (int \<times> lock_log \<times> cpu) option" where
  "example_spinlock_init c =
     do { (l1, d) \<leftarrow> example_spinlock_static c;
          (l2, d) \<leftarrow> example_spinlock_dynamic d;
          Some (0, [(''example spinlock started'', cp_irqs c)] @ l1 @ l2, d) }"

definition example_spinlock_exit :: "cpu \<Rightarrow> lock_log \<times> cpu" where
  "example_spinlock_exit c = ([(''example spinlock exit'', cp_irqs c)], c)"

definition example_read_lock :: "cpu \<Rightarrow> (lock_log \<times> cpu) option" where
  "example_read_lock c =
     do { (flags, c) \<leftarrow> read_lock_irqsave ''myrwlock'' c;
          let log = [(''Read Locked'', cp_irqs c)];
          c \<leftarrow> read_unlock_irqrestore ''myrwlock'' flags c;
          Some (log @ [(''Read Unlocked'', cp_irqs c)], c) }"

definition example_write_lock :: "cpu \<Rightarrow> (lock_log \<times> cpu) option" where
  "example_write_lock c =
     do { (flags, c) \<leftarrow> write_lock_irqsave ''myrwlock'' c;
          let log = [(''Write Locked'', cp_irqs c)];
          c \<leftarrow> write_unlock_irqrestore ''myrwlock'' flags c;
          Some (log @ [(''Write Unlocked'', cp_irqs c)], c) }"

definition example_rwlock_init :: "cpu \<Rightarrow> (int \<times> lock_log \<times> cpu) option" where
  "example_rwlock_init c =
     do { (l1, d) \<leftarrow> example_read_lock c;
          (l2, d) \<leftarrow> example_write_lock d;
          Some (0, [(''example_rwlock started'', cp_irqs c)] @ l1 @ l2, d) }"

definition example_rwlock_exit :: "cpu \<Rightarrow> lock_log \<times> cpu" where
  "example_rwlock_exit c = ([(''example_rwlock exit'', cp_irqs c)], c)"

text \<open>The mutex is whether it is locked. \<open>None\<close> is the unlock of a mutex that is not locked.\<close>

definition mutex_trylock :: "bool \<Rightarrow> int \<times> bool" where
  "mutex_trylock locked = (if locked then (0, locked) else (1, True))"

definition mutex_unlock :: "bool \<Rightarrow> bool option" where
  "mutex_unlock locked = (if locked then Some False else None)"

definition example_mutex_init :: "bool \<Rightarrow> (int \<times> char list list \<times> bool) option" where
  "example_mutex_init mymutex =
     (let log = [''example_mutex init'']; (ret, mymutex) = mutex_trylock mymutex in
      if ret \<noteq> 0 then
        (let log = log @ [''mutex is locked''];
             log = (if \<not> mymutex then log @ [''The mutex failed to lock!''] else log)
         in do { mymutex \<leftarrow> mutex_unlock mymutex; Some (0, log @ [''mutex is unlocked''], mymutex) })
      else Some (0, log @ [''Failed to lock''], mymutex))"

definition example_mutex_exit :: "bool \<Rightarrow> char list list \<times> bool" where
  "example_mutex_exit mymutex = ([''example_mutex exit''], mymutex)"

section \<open>Atomic operations\<close>

definition byte_to_binary :: "64 word \<Rightarrow> char list" where
  "byte_to_binary w =
     [if w AND 0x80 \<noteq> 0 then CHR ''1'' else CHR ''0'', if w AND 0x40 \<noteq> 0 then CHR ''1'' else CHR ''0'',
      if w AND 0x20 \<noteq> 0 then CHR ''1'' else CHR ''0'', if w AND 0x10 \<noteq> 0 then CHR ''1'' else CHR ''0'',
      if w AND 0x08 \<noteq> 0 then CHR ''1'' else CHR ''0'', if w AND 0x04 \<noteq> 0 then CHR ''1'' else CHR ''0'',
      if w AND 0x02 \<noteq> 0 then CHR ''1'' else CHR ''0'', if w AND 0x01 \<noteq> 0 then CHR ''1'' else CHR ''0'']"

definition atomic_add_subtract :: "char list" where
  "atomic_add_subtract =
     (let chris = 50 :: 32 word;
          debbie = 45 :: 32 word;
          debbie = debbie - 1;
          debbie = debbie + 7;
          debbie = debbie + 1
      in ''chris: '' @ dec (sint chris) @ '', debbie: '' @ dec (sint debbie))"

text \<open>\<open>test_and_set_bit\<close> returns the old bit.\<close>

definition test_and_set_bit :: "nat \<Rightarrow> 64 word \<Rightarrow> bool \<times> 64 word" where
  "test_and_set_bit n w = (bit w n, set_bit n w)"

definition atomic_bitwise :: "char list list" where
  "atomic_bitwise =
     (let word = 0;
          l0 = ''Bits 0: '' @ byte_to_binary word;
          word = set_bit 3 word;
          word = set_bit 5 word;
          l1 = ''Bits 1: '' @ byte_to_binary word;
          word = unset_bit 5 word;
          l2 = ''Bits 2: '' @ byte_to_binary word;
          word = flip_bit 3 word;
          l3 = ''Bits 3: '' @ byte_to_binary word;
          (old, word) = test_and_set_bit 3 word;
          lw = (if old then [''wrong''] else []);
          l4 = ''Bits 4: '' @ byte_to_binary word;
          word = 255;
          l5 = ''Bits 5: '' @ byte_to_binary word
      in [l0, l1, l2, l3] @ lw @ [l4, l5])"

definition example_atomic_init :: "int \<times> char list list" where
  "example_atomic_init =
     (0, [''example_atomic started'', atomic_add_subtract] @ atomic_bitwise)"

definition example_atomic_exit :: "char list list" where
  "example_atomic_exit = [''example_atomic exit'']"

section \<open>The tty of the current process\<close>

text \<open>The strings that the tty's driver is given, or none if the process has no tty.\<close>

definition print_string :: "bool \<Rightarrow> char list \<Rightarrow> char list list" where
  "print_string tty str = (if tty then [str, [CHR 0x0D, NL]] else [])"

definition print_string_init :: "bool \<Rightarrow> int \<times> char list list" where
  "print_string_init tty = (0, print_string tty ''The module has been inserted.  Hello world!'')"

definition print_string_exit :: "bool \<Rightarrow> char list list" where
  "print_string_exit tty = print_string tty ''The module has been removed.  Farewell world!''"

section \<open>What they do\<close>

text \<open>
  The loads of the two modules with spin locks and read-write locks leave locks and interrupts as
  they were, also when interrupts were off, and print inside the locks with interrupts off.
\<close>

lemma example_spinlock_restores:
  assumes "\<not> cp_spin c ''sl_static''" and "\<not> cp_spin c ''sl_dynamic''"
  shows "example_spinlock_init c = Some (0,
    [(''example spinlock started'', cp_irqs c), (''Locked static spinlock'', False),
     (''Unlocked static spinlock'', cp_irqs c), (''Locked dynamic spinlock'', False),
     (''Unlocked dynamic spinlock'', cp_irqs c)], c)"
  using assms
  by (simp add: example_spinlock_init_def example_spinlock_static_def example_spinlock_dynamic_def
      spin_lock_irqsave_def spin_unlock_irqrestore_def spin_lock_init_def fun_upd_idem)

lemma example_rwlock_restores:
  assumes "\<not> cp_writer c ''myrwlock''" and "cp_readers c ''myrwlock'' = 0"
  shows "example_rwlock_init c = Some (0,
    [(''example_rwlock started'', cp_irqs c), (''Read Locked'', False), (''Read Unlocked'', cp_irqs c),
     (''Write Locked'', False), (''Write Unlocked'', cp_irqs c)], c)"
  using assms
  by (simp add: example_rwlock_init_def example_read_lock_def example_write_lock_def
      read_lock_irqsave_def read_unlock_irqrestore_def write_lock_irqsave_def
      write_unlock_irqrestore_def fun_upd_idem)

lemma example_mutex_keeps:
  "\<exists>log. example_mutex_init mymutex = Some (0, log, mymutex) \<and>
    (''The mutex failed to lock!'' \<notin> set log)"
  by (cases mymutex) (simp_all add: example_mutex_init_def mutex_trylock_def mutex_unlock_def)

text \<open>The eight characters are the bits of the low byte, the highest first.\<close>

lemma and_power_bit: "(w :: 64 word) AND 2 ^ n \<noteq> 0 \<longleftrightarrow> bit w n"
  by (metis and_exp_eq_0_iff_not_bit)

lemma byte_to_binary_bits:
  "byte_to_binary w = map (\<lambda>i. if bit w i then CHR ''1'' else CHR ''0'') [7, 6, 5, 4, 3, 2, 1, 0]"
  using and_power_bit[of w 7] and_power_bit[of w 6] and_power_bit[of w 5] and_power_bit[of w 4]
    and_power_bit[of w 3] and_power_bit[of w 2] and_power_bit[of w 1] and_power_bit[of w 0]
  by (simp add: byte_to_binary_def)

lemma example_atomic_log:
  "example_atomic_init = (0, [''example_atomic started'', ''chris: 50, debbie: 52'',
    ''Bits 0: 00000000'', ''Bits 1: 00101000'', ''Bits 2: 00001000'', ''Bits 3: 00000000'',
    ''Bits 4: 00001000'', ''Bits 5: 11111111''])"
proof -
  have "digits 50 = ''50''" "digits 52 = ''52''"
    by (simp_all add: digits.simps digit_values)
  then have "atomic_add_subtract = ''chris: 50, debbie: 52''"
    by (simp add: atomic_add_subtract_def dec_def)
  moreover have "atomic_bitwise = [''Bits 0: 00000000'', ''Bits 1: 00101000'', ''Bits 2: 00001000'',
      ''Bits 3: 00000000'', ''Bits 4: 00001000'', ''Bits 5: 11111111'']"
    by (simp add: atomic_bitwise_def byte_to_binary_def test_and_set_bit_def set_bit_eq_or
        unset_bit_eq_and_not flip_bit_eq_xor push_bit_of_1)
  ultimately show ?thesis by (simp add: example_atomic_init_def)
qed

end
