(* ===== verification/Interleaving.thy ===== *)
theory Interleaving
  imports LKM_Prelude
begin

text \<open>
  Threads that run the functions of a module at the same time: a state that they share, a
  local state of each, and steps of one thread at a time, in any order. The module gives the steps; the
  locales of this theory hold what follows from facts about a single step: an invariant that no
  thread breaks for another, a flag that one thread at a time has, a bound on the steps of a call, and
  calls that take effect as if each were one step.
\<close>

section \<open>Runs\<close>

record ('g, 'l) threads =
  th_shared :: 'g
  th_local :: "nat \<Rightarrow> 'l"

text \<open>A step of a kind, on the shared state and the thread's own: \<open>None\<close> when it is not possible.\<close>

type_synonym ('a, 'g, 'l) thread_step = "'a \<Rightarrow> 'g \<Rightarrow> 'l \<Rightarrow> ('g \<times> 'l) option"

definition threads_exec ::
    "('a, 'g, 'l) thread_step \<Rightarrow> ('g, 'l) threads \<Rightarrow> nat \<times> 'a \<Rightarrow> ('g, 'l) threads option" where
  "threads_exec step c act =
     (case step (snd act) (th_shared c) (th_local c (fst act)) of
        None \<Rightarrow> None
      | Some (g, l) \<Rightarrow> Some \<lparr>th_shared = g, th_local = (th_local c)(fst act := l)\<rparr>)"

fun threads_run ::
    "('a, 'g, 'l) thread_step \<Rightarrow> ('g, 'l) threads \<Rightarrow> (nat \<times> 'a) list \<Rightarrow> ('g, 'l) threads option" where
  "threads_run step c [] = Some c"
| "threads_run step c (act # acts) =
     (case threads_exec step c act of None \<Rightarrow> None | Some c' \<Rightarrow> threads_run step c' acts)"

lemma threads_exec_Some:
  "threads_exec step c (i, a) = Some c' \<longleftrightarrow>
    (\<exists>g l. step a (th_shared c) (th_local c i) = Some (g, l) \<and>
      c' = \<lparr>th_shared = g, th_local = (th_local c)(i := l)\<rparr>)"
  by (auto simp: threads_exec_def split: option.splits)

lemma threads_run_append:
  "threads_run step c (as @ bs) =
    (case threads_run step c as of None \<Rightarrow> None | Some c' \<Rightarrow> threads_run step c' bs)"
  by (induction as arbitrary: c) (auto split: option.split)

text \<open>What holds at the start and after every step that is allowed holds after every run.\<close>

lemma threads_run_induct:
  assumes run: "threads_run step c acts = Some c'" and ok: "list_all (\<lambda>act. ok (snd act)) acts"
    and start: "P c"
    and pres: "\<And>c i a g l. P c \<Longrightarrow> ok a \<Longrightarrow> step a (th_shared c) (th_local c i) = Some (g, l) \<Longrightarrow>
      P \<lparr>th_shared = g, th_local = (th_local c)(i := l)\<rparr>"
  shows "P c'"
  using run ok start
proof (induction acts arbitrary: c)
  case Nil
  then show ?case by simp
next
  case (Cons act acts)
  obtain i a where act: "act = (i, a)" by (cases act)
  from Cons.prems(1) obtain d where d: "threads_exec step c act = Some d"
    "threads_run step d acts = Some c'" by (auto split: option.splits)
  with Cons.prems pres[of c a i] Cons.IH[OF d(2)] show ?case
    by (auto simp: act threads_exec_Some)
qed

section \<open>Freedom from interference\<close>

text \<open>
  \<open>own\<close> is what a thread relies on, of the shared state and its own; \<open>compat\<close> relates the local
  states of any two threads. The steps that are considered are those of the kinds \<open>ok\<close>.
\<close>

locale interference_free =
  fixes step :: "('a, 'g, 'l) thread_step" and ok :: "'a \<Rightarrow> bool"
    and own :: "'g \<Rightarrow> 'l \<Rightarrow> bool" and compat :: "'l \<Rightarrow> 'l \<Rightarrow> bool"
  assumes own_step: "step a g l = Some (g', l') \<Longrightarrow> ok a \<Longrightarrow> own g l \<Longrightarrow> own g' l'"
    and other_step:
      "step a g l = Some (g', l') \<Longrightarrow> ok a \<Longrightarrow> own g l \<Longrightarrow> own g m \<Longrightarrow> compat l m \<Longrightarrow>
        own g' m \<and> compat l' m"
    and compat_sym: "compat l m \<Longrightarrow> compat m l"
begin

definition all_own :: "('g, 'l) threads \<Rightarrow> bool" where
  "all_own c \<longleftrightarrow> (\<forall>i. own (th_shared c) (th_local c i)) \<and>
     (\<forall>i j. i \<noteq> j \<longrightarrow> compat (th_local c i) (th_local c j))"

lemma all_own_step:
  assumes c: "all_own c" and ok: "ok a" and s: "step a (th_shared c) (th_local c i) = Some (g, l)"
  shows "all_own \<lparr>th_shared = g, th_local = (th_local c)(i := l)\<rparr>"
proof -
  from c have o: "own (th_shared c) (th_local c j)" for j by (simp add: all_own_def)
  from c have m: "compat (th_local c i) (th_local c j)" if "j \<noteq> i" for j
    using that by (simp add: all_own_def)
  have "own g l" by (rule own_step[OF s ok o])
  moreover have "own g (th_local c j) \<and> compat l (th_local c j) \<and> compat (th_local c j) l" if "j \<noteq> i" for j
    using other_step[OF s ok o o m[OF that]] compat_sym by blast
  ultimately show ?thesis using c by (auto simp: all_own_def)
qed

lemma run_all_own:
  assumes "threads_run step c acts = Some c'" and "list_all (\<lambda>act. ok (snd act)) acts"
    and "all_own c"
  shows "all_own c'"
  using assms by (rule threads_run_induct) (rule all_own_step)

end

section \<open>A flag\<close>

text \<open>
  A flag that a thread finds down and raises when it goes in, and that it takes down when it comes
  out: it is up while a thread is inside, and there is never more than one.
\<close>

locale flag_lock =
  fixes step :: "('a, 'g, 'l) thread_step" and flag :: "'g \<Rightarrow> bool" and inside :: "'l \<Rightarrow> bool"
  assumes goes_in: "step a g l = Some (g', l') \<Longrightarrow> \<not> inside l \<Longrightarrow> inside l' \<Longrightarrow> \<not> flag g \<and> flag g'"
    and comes_out: "step a g l = Some (g', l') \<Longrightarrow> inside l \<Longrightarrow> \<not> inside l' \<Longrightarrow> \<not> flag g'"
    and stays: "step a g l = Some (g', l') \<Longrightarrow> inside l = inside l' \<Longrightarrow> flag g' = flag g"
begin

definition one_inside :: "('g, 'l) threads \<Rightarrow> bool" where
  "one_inside c \<longleftrightarrow>
     (if flag (th_shared c) then \<exists>!i. inside (th_local c i) else \<forall>i. \<not> inside (th_local c i))"

lemma one_inside_step:
  assumes c: "one_inside c" and s: "step a (th_shared c) (th_local c i) = Some (g, l)"
  shows "one_inside \<lparr>th_shared = g, th_local = (th_local c)(i := l)\<rparr>"
proof (cases "inside (th_local c i) = inside l")
  case True
  then have "inside (((th_local c)(i := l)) j) = inside (th_local c j)" for j by simp
  with c stays[OF s True] show ?thesis by (simp add: one_inside_def)
next
  case False
  show ?thesis
  proof (cases "inside l")
    case True
    with False goes_in[OF s] c show ?thesis by (auto simp: one_inside_def)
  next
    case out: False
    with False have i: "inside (th_local c i)" by simp
    with c have "inside (th_local c j) \<Longrightarrow> j = i" for j
      by (auto simp: one_inside_def split: if_splits)
    with comes_out[OF s i out] out show ?thesis by (auto simp: one_inside_def)
  qed
qed

lemma run_one_inside:
  assumes "threads_run step c acts = Some c'" and "one_inside c"
  shows "one_inside c'"
  using threads_run_induct[where P = one_inside and ok = "\<lambda>_. True", OF assms(1) _ assms(2)]
  by (simp add: list_all_def one_inside_step)

end

section \<open>Bounded calls\<close>

text \<open>
  Steps of the kinds \<open>runs\<close> each take a thread closer to the end of its call, whatever the others do.
\<close>

locale wait_free = interference_free step ok own compat
  for step :: "('a, 'g, 'l) thread_step" and ok :: "'a \<Rightarrow> bool"
    and own :: "'g \<Rightarrow> 'l \<Rightarrow> bool" and compat :: "'l \<Rightarrow> 'l \<Rightarrow> bool" +
  fixes runs :: "'a \<Rightarrow> bool" and work :: "'l \<Rightarrow> nat"
  assumes closer: "step a g l = Some (g', l') \<Longrightarrow> runs a \<Longrightarrow> own g l \<Longrightarrow> work l' < work l"
begin

lemma steps_bounded:
  assumes "threads_run step c acts = Some c'" and "list_all (\<lambda>act. ok (snd act)) acts"
    and "all_own c" and "list_all (\<lambda>act. fst act = i \<longrightarrow> runs (snd act)) acts"
  shows "length (filter (\<lambda>act. fst act = i) acts) + work (th_local c' i) \<le> work (th_local c i)"
  using assms
proof (induction acts arbitrary: c)
  case Nil
  then show ?case by simp
next
  case (Cons act acts)
  obtain j a where act: "act = (j, a)" by (cases act)
  from Cons.prems(1) obtain d where d: "threads_exec step c act = Some d"
    "threads_run step d acts = Some c'" by (auto split: option.splits)
  from d(1) obtain g l where s: "step a (th_shared c) (th_local c j) = Some (g, l)"
    and d': "d = \<lparr>th_shared = g, th_local = (th_local c)(j := l)\<rparr>"
    by (auto simp: act threads_exec_Some)
  have "ok a" using Cons.prems(2) by (simp add: act)
  from all_own_step[OF Cons.prems(3) this s] have "all_own d" by (simp add: d')
  with Cons.IH[OF d(2)] Cons.prems(2,4)
  have IH: "length (filter (\<lambda>act. fst act = i) acts) + work (th_local c' i) \<le> work (th_local d i)"
    by simp
  show ?case
  proof (cases "j = i")
    case True
    have "work l < work (th_local c j)"
      by (rule closer[OF s]) (use Cons.prems(3,4) True in \<open>simp_all add: act all_own_def\<close>)
    with IH True show ?thesis by (simp add: act d')
  next
    case False
    with IH show ?thesis by (simp add: act d')
  qed
qed

end

text \<open>
  The same for threads that rely on nothing but their own steps: those of another kind that the others take
  break neither what a thread relies on nor its bound.
\<close>

locale self_reliant =
  fixes step :: "('a, 'g, 'l) thread_step" and ok :: "'a \<Rightarrow> bool" and own :: "'g \<Rightarrow> 'l \<Rightarrow> bool"
    and runs :: "'a \<Rightarrow> bool" and work :: "'l \<Rightarrow> nat"
  assumes self_step: "step a g l = Some (g', l') \<Longrightarrow> ok a \<Longrightarrow> own g l \<Longrightarrow> own g' l'"
    and any_step: "step a g l = Some (g', l') \<Longrightarrow> own g m \<Longrightarrow> own g' m"
    and self_closer: "step a g l = Some (g', l') \<Longrightarrow> runs a \<Longrightarrow> own g l \<Longrightarrow> work l' < work l"
begin

lemma exec_self:
  assumes "threads_exec step c (j, a) = Some d" and "j = i \<longrightarrow> ok a"
    and "own (th_shared c) (th_local c i)"
  shows "own (th_shared d) (th_local d i)"
proof -
  from assms(1) obtain g l where s: "step a (th_shared c) (th_local c j) = Some (g, l)"
    and d: "d = \<lparr>th_shared = g, th_local = (th_local c)(j := l)\<rparr>" by (auto simp: threads_exec_Some)
  show ?thesis
  proof (cases "j = i")
    case True
    with assms self_step[OF s] show ?thesis by (simp add: d)
  next
    case False
    with assms(3) any_step[OF s] show ?thesis by (simp add: d)
  qed
qed

lemma run_self:
  assumes "threads_run step c acts = Some c'" and "list_all (\<lambda>act. fst act = i \<longrightarrow> ok (snd act)) acts"
    and "own (th_shared c) (th_local c i)"
  shows "own (th_shared c') (th_local c' i)"
  using assms
proof (induction acts arbitrary: c)
  case Nil
  then show ?case by simp
next
  case (Cons act acts)
  obtain j a where act: "act = (j, a)" by (cases act)
  from Cons.prems(1) obtain d where d: "threads_exec step c act = Some d"
    "threads_run step d acts = Some c'" by (auto split: option.splits)
  with exec_self[of c j a d i] Cons.prems Cons.IH[OF d(2)] show ?case by (simp add: act)
qed

lemma self_steps_bounded:
  assumes "threads_run step c acts = Some c'" and "list_all (\<lambda>act. fst act = i \<longrightarrow> ok (snd act)) acts"
    and "own (th_shared c) (th_local c i)" and "list_all (\<lambda>act. fst act = i \<longrightarrow> runs (snd act)) acts"
  shows "length (filter (\<lambda>act. fst act = i) acts) + work (th_local c' i) \<le> work (th_local c i)"
  using assms
proof (induction acts arbitrary: c)
  case Nil
  then show ?case by simp
next
  case (Cons act acts)
  obtain j a where act: "act = (j, a)" by (cases act)
  from Cons.prems(1) obtain d where d: "threads_exec step c act = Some d"
    "threads_run step d acts = Some c'" by (auto split: option.splits)
  with exec_self[of c j a d i] Cons.prems Cons.IH[OF d(2)]
  have IH: "length (filter (\<lambda>act. fst act = i) acts) + work (th_local c' i) \<le> work (th_local d i)"
    by (simp add: act)
  from d(1) obtain g l where s: "step a (th_shared c) (th_local c j) = Some (g, l)"
    and d': "d = \<lparr>th_shared = g, th_local = (th_local c)(j := l)\<rparr>" by (auto simp: act threads_exec_Some)
  with self_closer[OF s] Cons.prems(3,4) IH show ?case by (cases "j = i") (auto simp: act)
qed

end

section \<open>Critical sections\<close>

text \<open>Calls one after the other: what is left at the end, and what each returns.\<close>

fun serve :: "('c \<Rightarrow> 's \<Rightarrow> ('r \<times> 's) option) \<Rightarrow> 's \<Rightarrow> 'c list \<Rightarrow> ('s \<times> 'r list) option" where
  "serve whole s [] = Some (s, [])"
| "serve whole s (call # calls) =
     (case whole call s of
        None \<Rightarrow> None
      | Some (r, s') \<Rightarrow> map_option (\<lambda>(t, rs). (t, r # rs)) (serve whole s' calls))"

text \<open>
  The history of a run: the calls that went inside, in the order in which they did, and what calls
  returned that came out, in the order in which they did.
\<close>

fun section_history ::
    "('a, 'g, 'l) thread_step \<Rightarrow> ('l \<Rightarrow> bool) \<Rightarrow> ('l \<Rightarrow> 'c) \<Rightarrow> ('l \<Rightarrow> 'r) \<Rightarrow>
      ('g, 'l) threads \<Rightarrow> (nat \<times> 'a) list \<Rightarrow> 'c list \<times> 'r list" where
  "section_history step inside call_of result_of c [] = ([], [])"
| "section_history step inside call_of result_of c (act # acts) =
     (case threads_exec step c act of
        None \<Rightarrow> ([], [])
      | Some d \<Rightarrow>
          (let l = th_local c (fst act); l' = th_local d (fst act);
               h = section_history step inside call_of result_of d acts
           in ((if \<not> inside l \<and> inside l' then [call_of l] else []) @ fst h,
               (if inside l \<and> \<not> inside l' then [result_of l'] else []) @ snd h)))"

text \<open>
  A flag whose owner is the only one to touch the shared state, \<open>view\<close> being what matters of it.
  \<open>whole\<close> is a call in one go, \<open>rest\<close> what a thread inside still does: going in, it is the whole
  call; no step inside changes it; and coming out, it is what the call returned and left.
\<close>

locale critical_section =
  interference_free step ok own "\<lambda>_ _. True" + flag_lock step flag inside
  for step :: "('a, 'g, 'l) thread_step" and ok :: "'a \<Rightarrow> bool" and own :: "'g \<Rightarrow> 'l \<Rightarrow> bool"
    and flag :: "'g \<Rightarrow> bool" and inside :: "'l \<Rightarrow> bool" +
  fixes view :: "'g \<Rightarrow> 's" and call_of :: "'l \<Rightarrow> 'c" and result_of :: "'l \<Rightarrow> 'r"
    and whole :: "'c \<Rightarrow> 's \<Rightarrow> ('r \<times> 's) option" and rest :: "'g \<Rightarrow> 'l \<Rightarrow> ('r \<times> 's) option"
  assumes outside: "step a g l = Some (g', l') \<Longrightarrow> ok a \<Longrightarrow> own g l \<Longrightarrow>
        \<not> inside l \<Longrightarrow> \<not> inside l' \<Longrightarrow> g' = g"
    and going_in: "step a g l = Some (g', l') \<Longrightarrow> ok a \<Longrightarrow> own g l \<Longrightarrow>
        \<not> inside l \<Longrightarrow> inside l' \<Longrightarrow> rest g' l' = whole (call_of l) (view g)"
    and going_on: "step a g l = Some (g', l') \<Longrightarrow> ok a \<Longrightarrow> own g l \<Longrightarrow>
        inside l \<Longrightarrow> inside l' \<Longrightarrow> rest g' l' = rest g l"
    and coming_out: "step a g l = Some (g', l') \<Longrightarrow> ok a \<Longrightarrow> own g l \<Longrightarrow>
        inside l \<Longrightarrow> \<not> inside l' \<Longrightarrow> rest g l = Some (result_of l', view g')"
begin

text \<open>
  The calls of \<open>h\<close> one after the other, from the state \<open>c\<close> to \<open>s\<close>: first, if a thread is inside,
  what it still does.
\<close>

definition served :: "('g, 'l) threads \<Rightarrow> 'c list \<times> 'r list \<Rightarrow> 's \<Rightarrow> bool" where
  "served c h s \<longleftrightarrow>
     (if flag (th_shared c)
      then \<forall>i. inside (th_local c i) \<longrightarrow>
        (\<exists>r t rs. rest (th_shared c) (th_local c i) = Some (r, t) \<and>
           serve whole t (fst h) = Some (s, rs) \<and> snd h = r # rs)
      else serve whole (view (th_shared c)) (fst h) = Some (s, snd h))"

lemma served_inside:
  assumes "served \<lparr>th_shared = g, th_local = ls(i := l)\<rparr> h s" and "flag g" and "inside l"
  obtains r t rs where "rest g l = Some (r, t)" "serve whole t (fst h) = Some (s, rs)" "snd h = r # rs"
  using assms by (auto simp: served_def dest!: spec[of _ i])

lemma served_step:
  assumes one: "one_inside c" and own: "all_own c" and ok: "ok a"
    and s: "step a (th_shared c) (th_local c i) = Some (g, l)"
    and IH: "served \<lparr>th_shared = g, th_local = (th_local c)(i := l)\<rparr> (calls, rets) t"
  shows "served c ((if \<not> inside (th_local c i) \<and> inside l then [call_of (th_local c i)] else []) @ calls,
    (if inside (th_local c i) \<and> \<not> inside l then [result_of l] else []) @ rets) t"
proof -
  let ?g = "th_shared c" and ?l = "th_local c i"
  have own_i: "own ?g ?l" using own by (simp add: all_own_def)
  have only: "j = i" if "inside (th_local c j)" "inside ?l" for j
    using one that by (auto simp: one_inside_def split: if_splits)
  have up: "flag ?g" if "inside ?l" using one that by (auto simp: one_inside_def split: if_splits)
  consider (stay_in) "inside ?l" "inside l" | (leave) "inside ?l" "\<not> inside l"
    | (enter) "\<not> inside ?l" "inside l" | (stay_out) "\<not> inside ?l" "\<not> inside l" by blast
  then show ?thesis
  proof cases
    case stay_in
    then have "flag g" using stays[OF s] up by simp
    from served_inside[OF IH this stay_in(2)] obtain r u rs where
      "rest g l = Some (r, u)" "serve whole u calls = Some (t, rs)" "rets = r # rs" by auto
    with going_on[OF s ok own_i stay_in] have "rest ?g ?l = Some (r, u)" by simp
    then have "rest ?g (th_local c j) = Some (r, u)" if "inside (th_local c j)" for j
      using only[OF that stay_in(1)] by simp
    with \<open>serve whole u calls = _\<close> \<open>rets = _\<close> up stay_in show ?thesis by (simp add: served_def)
  next
    case leave
    have "\<not> flag g" using comes_out[OF s leave] .
    with IH have "serve whole (view g) calls = Some (t, rets)" by (simp add: served_def)
    moreover have "rest ?g (th_local c j) = Some (result_of l, view g)" if "inside (th_local c j)" for j
      using only[OF that leave(1)] coming_out[OF s ok own_i leave] by simp
    ultimately show ?thesis using up leave by (simp add: served_def)
  next
    case enter
    note fl = goes_in[OF s enter]
    from fl have "flag g" by simp
    from served_inside[OF IH this enter(2)] obtain r u rs where
      "rest g l = Some (r, u)" "serve whole u calls = Some (t, rs)" "rets = r # rs" by auto
    moreover from this going_in[OF s ok own_i enter]
    have "whole (call_of ?l) (view ?g) = Some (r, u)" by simp
    ultimately show ?thesis using fl enter by (simp add: served_def)
  next
    case stay_out
    then have "g = ?g" using outside[OF s ok own_i] by simp
    moreover have "((th_local c)(i := l)) j = th_local c j" if "inside (th_local c j)" for j
      using that stay_out by auto
    moreover have "inside (((th_local c)(i := l)) j) = inside (th_local c j)" for j
      using stay_out by auto
    ultimately have "served c (calls, rets) t"
      using IH unfolding served_def by (metis threads.select_convs)
    with stay_out show ?thesis by simp
  qed
qed

lemma run_served:
  assumes "threads_run step c acts = Some c'" and "list_all (\<lambda>act. ok (snd act)) acts"
    and "all_own c" and "one_inside c" and "\<not> flag (th_shared c')"
  shows "served c (section_history step inside call_of result_of c acts) (view (th_shared c'))"
  using assms
proof (induction acts arbitrary: c)
  case Nil
  then show ?case by (simp add: served_def)
next
  case (Cons act acts)
  obtain i a where act: "act = (i, a)" by (cases act)
  from Cons.prems(1) obtain d where d: "threads_exec step c act = Some d"
    "threads_run step d acts = Some c'" by (auto split: option.splits)
  then obtain g l where s: "step a (th_shared c) (th_local c i) = Some (g, l)"
    and d': "d = \<lparr>th_shared = g, th_local = (th_local c)(i := l)\<rparr>"
    by (auto simp: act threads_exec_Some)
  let ?h = "section_history step inside call_of result_of d acts"
  have ok: "ok a" "list_all (\<lambda>act. ok (snd act)) acts" using Cons.prems(2) by (simp_all add: act)
  have "served d ?h (view (th_shared c'))"
    using Cons.IH[OF d(2) ok(2) _ _ Cons.prems(5)] all_own_step[OF Cons.prems(3) ok(1) s]
      one_inside_step[OF Cons.prems(4) s] by (simp add: d')
  with served_step[OF Cons.prems(4,3) ok(1) s, of "fst ?h" "snd ?h"] d(1) d'
  show ?case by (simp add: act Let_def)
qed

text \<open>Runs that begin and end with nobody inside: as if the calls had come one after the other.\<close>

lemma run_atomic:
  assumes "threads_run step c acts = Some c'" and "list_all (\<lambda>act. ok (snd act)) acts"
    and "all_own c" and "one_inside c" and "\<not> flag (th_shared c)" and "\<not> flag (th_shared c')"
    and "section_history step inside call_of result_of c acts = (calls, rets)"
  shows "serve whole (view (th_shared c)) calls = Some (view (th_shared c'), rets)"
  using run_served[OF assms(1-4,6)] assms(5,7) by (simp add: served_def)

end

end
