(* ===== verification/Chardev2_Smp.thy ===== *)
theory Chardev2_Smp
  imports Chardev2 Interleaving
begin

text \<open>
  \<open>chardev2.c\<close> with any number of processes in its functions at the same time. The flag
  \<open>already_open\<close> keeps ioctls apart from each other, but \<open>read\<close> and \<open>write\<close> do not look at it. The
  functions of \<open>Chardev2\<close> are cut here into steps, one for each access to \<open>message\<close> or to the flag,
  between which other processes run. The ioctls turn out to be atomic among themselves, and the array
  to be safe from all.
\<close>

section \<open>Steps\<close>

text \<open>
  \<open>device_read\<close> and \<open>device_write\<close> are called by the system call, or by \<open>device_ioctl\<close> with its
  parameter.
\<close>

datatype c2_caller = Syscall | Ioctl nat

text \<open>
  Where a process is: in user mode; in \<open>device_read\<close> before its first test (the buffer, its length,
  the offset), before the test of \<open>while\<close> and before \<open>put_user\<close> (the place of \<open>message_ptr\<close>, \<open>buffer\<close>,
  \<open>length\<close>, \<open>bytes_read\<close>, the offset); in \<open>device_write\<close> before the test of \<open>for\<close> (the buffer, its
  length, \<open>i\<close>); in \<open>device_ioctl\<close> before \<open>atomic_cmpxchg\<close>, before \<open>switch\<close> and before \<open>atomic_set\<close>
  (\<open>ret\<close>). In \<open>Oops\<close> it has left the array,
  and the kernel has killed it.
\<close>

datatype c2_pc =
    User
  | ReadTest c2_caller nat nat int
  | ReadWhile c2_caller nat nat nat nat int
  | ReadPut c2_caller nat nat nat nat int
  | WriteFor c2_caller nat nat nat
  | IoctlTry "32 word" nat
  | IoctlBody "32 word" nat
  | IoctlEnd int
  | Oops c2_caller

record c2_proc =
  cp_pc :: c2_pc
  cp_mem :: umem
  cp_offset :: int
  cp_ret :: int

definition c2_read_return :: "c2_caller \<Rightarrow> nat \<Rightarrow> int \<Rightarrow> c2_proc \<Rightarrow> c2_proc" where
  "c2_read_return caller bytes_read offset p =
     (case caller of
        Syscall \<Rightarrow> p\<lparr>cp_pc := User, cp_offset := offset, cp_ret := int bytes_read\<rparr>
      | Ioctl param \<Rightarrow>
          p\<lparr>cp_pc := IoctlEnd 0, cp_mem := put_user (cp_mem p) (param + bytes_read) NUL\<rparr>)"

definition c2_write_return :: "c2_caller \<Rightarrow> nat \<Rightarrow> c2_proc \<Rightarrow> c2_proc" where
  "c2_write_return caller i p =
     (case caller of
        Syscall \<Rightarrow> p\<lparr>cp_pc := User, cp_ret := int i\<rparr>
      | Ioctl param \<Rightarrow> p\<lparr>cp_pc := IoctlEnd 0\<rparr>)"

text \<open>A step at a byte of \<open>message\<close>.\<close>

definition c2_at_byte ::
    "chardev2 \<Rightarrow> c2_caller \<Rightarrow> int \<Rightarrow> c2_proc \<Rightarrow> (char \<Rightarrow> c2_proc) \<Rightarrow> (chardev2 \<times> c2_proc) option" where
  "c2_at_byte s caller i p k =
     Some (s, case char_at (c2_message s) i of None \<Rightarrow> p\<lparr>cp_pc := Oops caller\<rparr> | Some c \<Rightarrow> k c)"

fun c2_device_read :: "chardev2 \<Rightarrow> c2_proc \<Rightarrow> c2_pc \<Rightarrow> (chardev2 \<times> c2_proc) option" where
  "c2_device_read s p (ReadTest caller buffer len off) =
     c2_at_byte s caller off p (\<lambda>c.
       if c = NUL then c2_read_return caller 0 0 p
       else p\<lparr>cp_pc := ReadWhile caller (nat off) buffer len 0 off\<rparr>)"
| "c2_device_read s p (ReadWhile caller ptr buffer len bytes_read off) =
     (if len = 0 then Some (s, c2_read_return caller bytes_read (off + int bytes_read) p)
      else c2_at_byte s caller (int ptr) p (\<lambda>c.
        if c = NUL then c2_read_return caller bytes_read (off + int bytes_read) p
        else p\<lparr>cp_pc := ReadPut caller ptr buffer len bytes_read off\<rparr>))"
| "c2_device_read s p (ReadPut caller ptr buffer len bytes_read off) =
     c2_at_byte s caller (int ptr) p (\<lambda>c.
       p\<lparr>cp_mem := put_user (cp_mem p) buffer c,
         cp_pc := ReadWhile caller (Suc ptr) (Suc buffer) (len - 1) (Suc bytes_read) off\<rparr>)"
| "c2_device_read s p _ = None"

fun c2_device_write :: "chardev2 \<Rightarrow> c2_proc \<Rightarrow> c2_pc \<Rightarrow> (chardev2 \<times> c2_proc) option" where
  "c2_device_write s p (WriteFor caller buffer len i) =
     (if i < len \<and> i < chardev2_BUF_LEN
      then (if i < length (c2_message s)
            then Some (s\<lparr>c2_message := (c2_message s)[i := get_user (cp_mem p) (buffer + i)]\<rparr>,
                       p\<lparr>cp_pc := WriteFor caller buffer len (Suc i)\<rparr>)
            else Some (s, p\<lparr>cp_pc := Oops caller\<rparr>))
      else Some (s, c2_write_return caller i p))"
| "c2_device_write s p _ = None"

fun c2_device_ioctl :: "chardev2 \<Rightarrow> c2_proc \<Rightarrow> c2_pc \<Rightarrow> (chardev2 \<times> c2_proc) option" where
  "c2_device_ioctl s p (IoctlTry num param) =
     (let (old, v) = atomic_cmpxchg (c2_already_open s) CDEV_NOT_USED CDEV_EXCLUSIVE_OPEN
      in Some (s\<lparr>c2_already_open := v\<rparr>,
               if old \<noteq> 0 then p\<lparr>cp_pc := User, cp_ret := - EBUSY\<rparr>
               else p\<lparr>cp_pc := IoctlBody num param\<rparr>))"
| "c2_device_ioctl s p (IoctlBody num param) =
     (if num = IOCTL_SET_MSG
      then Some (s, p\<lparr>cp_pc := WriteFor (Ioctl param) param
                     (set_msg_length (cp_mem p) param (get_user (cp_mem p) param) 0) 0\<rparr>)
      else if num = IOCTL_GET_MSG then Some (s, p\<lparr>cp_pc := ReadTest (Ioctl param) param 99 0\<rparr>)
      else if num = IOCTL_GET_NTH_BYTE
      then c2_at_byte s (Ioctl param) (int param) p (\<lambda>c. p\<lparr>cp_pc := IoctlEnd (schar c)\<rparr>)
      else Some (s, p\<lparr>cp_pc := IoctlEnd 0\<rparr>))"
| "c2_device_ioctl s p (IoctlEnd ret) =
     Some (s\<lparr>c2_already_open := CDEV_NOT_USED\<rparr>, p\<lparr>cp_pc := User, cp_ret := ret\<rparr>)"
| "c2_device_ioctl s p _ = None"

text \<open>The table \<open>fops\<close>: where a system call begins.\<close>

definition c2_fops :: "chardev2_call \<Rightarrow> c2_proc \<Rightarrow> c2_proc" where
  "c2_fops call p =
     (case call of
        ReadCall u a n off \<Rightarrow> p\<lparr>cp_mem := u, cp_offset := off, cp_pc := ReadTest Syscall a n off\<rparr>
      | WriteCall u a n \<Rightarrow> p\<lparr>cp_mem := u, cp_pc := WriteFor Syscall a n 0\<rparr>
      | IoctlCall u num param \<Rightarrow> p\<lparr>cp_mem := u, cp_pc := IoctlTry num param\<rparr>)"

text \<open>
  A process calls, or takes a step in its call; while it is in the device, another thread of the
  process may change its memory.
\<close>

datatype c2_action = Call chardev2_call | Step | Touch umem

fun c2_step :: "(c2_action, chardev2, c2_proc) thread_step" where
  "c2_step (Call call) s p = (if cp_pc p = User then Some (s, c2_fops call p) else None)"
| "c2_step (Touch u) s p = Some (s, p\<lparr>cp_mem := u\<rparr>)"
| "c2_step Step s p =
     (case cp_pc p of
        User \<Rightarrow> None
      | Oops _ \<Rightarrow> None
      | WriteFor _ _ _ _ \<Rightarrow> c2_device_write s p (cp_pc p)
      | IoctlTry _ _ \<Rightarrow> c2_device_ioctl s p (cp_pc p)
      | IoctlBody _ _ \<Rightarrow> c2_device_ioctl s p (cp_pc p)
      | IoctlEnd _ \<Rightarrow> c2_device_ioctl s p (cp_pc p)
      | _ \<Rightarrow> c2_device_read s p (cp_pc p))"

type_synonym c2_conf = "(chardev2, c2_proc) threads"

definition c2_boot :: "(nat \<Rightarrow> umem) \<Rightarrow> c2_conf" where
  "c2_boot us = \<lparr>th_shared = chardev2_zero,
     th_local = (\<lambda>i. \<lparr>cp_pc = User, cp_mem = us i, cp_offset = 0, cp_ret = 0\<rparr>)\<rparr>"

lemmas c2_step_simps = c2_at_byte_def c2_read_return_def c2_write_return_def c2_fops_def

section \<open>The array\<close>

text \<open>
  No process leaves the array: the last byte stays the terminator, so that \<open>message_ptr\<close> is below
  it whenever the byte at it was another.
\<close>

fun c2_pc_ok :: "c2_pc \<Rightarrow> bool" where
  "c2_pc_ok (ReadTest caller a n off) \<longleftrightarrow> 0 \<le> off \<and> off \<le> 80"
| "c2_pc_ok (ReadWhile caller q a n k off) \<longleftrightarrow> q \<le> 80"
| "c2_pc_ok (ReadPut caller q a n k off) \<longleftrightarrow> q < 80"
| "c2_pc_ok (IoctlTry num param) \<longleftrightarrow> (num = IOCTL_GET_NTH_BYTE \<longrightarrow> param \<le> 80)"
| "c2_pc_ok (IoctlBody num param) \<longleftrightarrow> (num = IOCTL_GET_NTH_BYTE \<longrightarrow> param \<le> 80)"
| "c2_pc_ok (Oops caller) \<longleftrightarrow> False"
| "c2_pc_ok _ \<longleftrightarrow> True"

definition c2_own :: "chardev2 \<Rightarrow> c2_proc \<Rightarrow> bool" where
  "c2_own s p \<longleftrightarrow> length (c2_message s) = 81 \<and> c2_message s ! 80 = NUL \<and> c2_pc_ok (cp_pc p)"

definition c2_in_bounds :: "c2_action \<Rightarrow> bool" where
  "c2_in_bounds act \<longleftrightarrow> (case act of Call call \<Rightarrow> call_in_bounds call | _ \<Rightarrow> True)"

lemma c2_step_own:
  assumes "c2_step act s p = Some (s', p')" and "c2_in_bounds act" and "c2_own s p"
  shows "c2_own s' p'"
proof (cases act)
  case (Call call)
  with assms show ?thesis
    by (cases call) (auto simp: c2_own_def c2_in_bounds_def call_in_bounds_def c2_fops_def split: if_splits)
next
  case Step
  with assms show ?thesis
    by (cases "cp_pc p")
      (auto simp: c2_own_def c2_step_simps char_at_def atomic_cmpxchg_def chardev2_BUF_LEN_def
        order_le_less split: if_splits c2_caller.splits)
next
  case (Touch u)
  with assms show ?thesis by (auto simp: c2_own_def)
qed

lemma c2_step_message:
  assumes "c2_step act s p = Some (s', p')" and "length (c2_message s) = 81" and "c2_message s ! 80 = NUL"
  shows "length (c2_message s') = 81 \<and> c2_message s' ! 80 = NUL"
proof (cases act)
  case Step
  with assms show ?thesis
    by (cases "cp_pc p")
      (auto simp: c2_step_simps chardev2_BUF_LEN_def atomic_cmpxchg_def split: if_splits)
qed (use assms in \<open>auto split: if_splits\<close>)

lemma c2_other_step: "c2_step act s p = Some (s', p') \<Longrightarrow> c2_own s m \<Longrightarrow> c2_own s' m"
  using c2_step_message[of act s p s' p'] by (simp add: c2_own_def)

lemma c2_boot_own: "c2_own (th_shared (c2_boot us)) (th_local (c2_boot us) i)"
  by (simp add: c2_boot_def c2_own_def chardev2_zero_def chardev2_BUF_LEN_def)

section \<open>The flag\<close>

text \<open>A process is inside when it is between the \<open>atomic_cmpxchg\<close> and the \<open>atomic_set\<close> of \<open>device_ioctl\<close>.\<close>

fun c2_inside :: "c2_pc \<Rightarrow> bool" where
  "c2_inside (ReadTest caller a n off) \<longleftrightarrow> caller \<noteq> Syscall"
| "c2_inside (ReadWhile caller q a n k off) \<longleftrightarrow> caller \<noteq> Syscall"
| "c2_inside (ReadPut caller q a n k off) \<longleftrightarrow> caller \<noteq> Syscall"
| "c2_inside (WriteFor caller a n i) \<longleftrightarrow> caller \<noteq> Syscall"
| "c2_inside (IoctlBody num param) \<longleftrightarrow> True"
| "c2_inside (IoctlEnd ret) \<longleftrightarrow> True"
| "c2_inside (Oops caller) \<longleftrightarrow> caller \<noteq> Syscall"
| "c2_inside _ \<longleftrightarrow> False"

definition c2_busy :: "chardev2 \<Rightarrow> bool" where
  "c2_busy s \<longleftrightarrow> c2_already_open s \<noteq> CDEV_NOT_USED"

lemma c2_flag_step:
  assumes "c2_step act s p = Some (s', p')"
  shows "(\<not> c2_inside (cp_pc p) \<longrightarrow> c2_inside (cp_pc p') \<longrightarrow> \<not> c2_busy s \<and> c2_busy s') \<and>
    (c2_inside (cp_pc p) \<longrightarrow> \<not> c2_inside (cp_pc p') \<longrightarrow> \<not> c2_busy s') \<and>
    (c2_inside (cp_pc p) = c2_inside (cp_pc p') \<longrightarrow> c2_busy s' = c2_busy s)"
proof (cases act)
  case (Call call)
  with assms show ?thesis by (cases call) (auto simp: c2_fops_def split: if_splits)
next
  case Step
  with assms show ?thesis
    by (cases "cp_pc p")
      (auto simp: c2_step_simps c2_busy_def atomic_cmpxchg_def
        split: if_splits c2_caller.splits option.splits)
next
  case (Touch u)
  with assms show ?thesis by auto
qed

interpretation c2_flag: flag_lock c2_step c2_busy "\<lambda>p. c2_inside (cp_pc p)"
  by unfold_locales (use c2_flag_step in blast)+

lemma c2_boot_one_inside: "c2_flag.one_inside (c2_boot us)"
  by (simp add: c2_flag.one_inside_def c2_boot_def c2_busy_def chardev2_zero_def)

section \<open>Every call ends\<close>

text \<open>
  The steps that a process has before it at most; a step of another process does not change them.
  In the array, a read has at most two steps for each of 81 bytes.
\<close>

fun c2_work :: "c2_pc \<Rightarrow> nat" where
  "c2_work (ReadTest caller a n off) = 166"
| "c2_work (ReadWhile caller q a n k off) = 3 + 2 * (81 - q)"
| "c2_work (ReadPut caller q a n k off) = 2 + 2 * (81 - q)"
| "c2_work (WriteFor caller a n i) = 2 + (80 - i)"
| "c2_work (IoctlTry num param) = 168"
| "c2_work (IoctlBody num param) = 167"
| "c2_work (IoctlEnd ret) = 1"
| "c2_work User = 0"
| "c2_work (Oops caller) = 0"

lemma c2_step_work:
  assumes "c2_step act s p = Some (s', p')" and "act = Step" and "c2_own s p"
  shows "c2_work (cp_pc p') < c2_work (cp_pc p)"
  using assms
  by (cases "cp_pc p")
    (auto simp: c2_own_def c2_step_simps char_at_def chardev2_BUF_LEN_def atomic_cmpxchg_def
      split: if_splits c2_caller.splits)

interpretation c2_calls: self_reliant c2_step c2_in_bounds c2_own "\<lambda>act. act = Step" "\<lambda>p. c2_work (cp_pc p)"
  by unfold_locales (fact c2_step_own c2_other_step c2_step_work)+

lemma c2_work_bound: "c2_own s p \<Longrightarrow> c2_work (cp_pc p) \<le> 168"
  by (cases "cp_pc p") (auto simp: c2_own_def)

text \<open>A process in a call can always take its next step: none ever waits for another.\<close>

lemma c2_step_possible: "c2_own s p \<Longrightarrow> cp_pc p \<noteq> User \<Longrightarrow> c2_step Step s p \<noteq> None"
  by (cases "cp_pc p") (auto simp: c2_own_def c2_step_simps Let_def split: prod.split)

section \<open>Ioctls are atomic\<close>

text \<open>The ioctls one after the other, by \<open>chardev2_ioctl\<close>: what is left, and what each returns and puts.\<close>

definition c2_ioctl_call ::
    "umem \<times> 32 word \<times> nat \<Rightarrow> chardev2 \<Rightarrow> ((int \<times> umem) \<times> chardev2) option" where
  "c2_ioctl_call call s =
     (case call of (u, num, param) \<Rightarrow>
        map_option (\<lambda>(ret, s, u). ((ret, u), s)) (chardev2_ioctl s u num param))"

definition chardev2_serve ::
    "chardev2 \<Rightarrow> (umem \<times> 32 word \<times> nat) list \<Rightarrow> (chardev2 \<times> (int \<times> umem) list) option" where
  "chardev2_serve = serve c2_ioctl_call"

text \<open>
  In a run, the ioctls that found the flag down, in the order in which they did, and what
  ioctls returned and put, in the order in which they took it down.
\<close>

definition c2_call_of :: "c2_proc \<Rightarrow> umem \<times> 32 word \<times> nat" where
  "c2_call_of p = (case cp_pc p of IoctlTry num param \<Rightarrow> (cp_mem p, num, param) | _ \<Rightarrow> (cp_mem p, 0, 0))"

definition c2_result_of :: "c2_proc \<Rightarrow> int \<times> umem" where
  "c2_result_of p = (cp_ret p, cp_mem p)"

definition c2_history ::
    "c2_conf \<Rightarrow> (nat \<times> c2_action) list \<Rightarrow> (umem \<times> 32 word \<times> nat) list \<times> (int \<times> umem) list" where
  "c2_history = section_history c2_step (\<lambda>p. c2_inside (cp_pc p)) c2_call_of c2_result_of"

text \<open>What an ioctl still does if nobody comes between.\<close>

definition c2_read_finish ::
    "chardev2 \<Rightarrow> nat \<Rightarrow> (umem \<times> nat) option \<Rightarrow> (int \<times> chardev2 \<times> umem) option" where
  "c2_read_finish s param r =
     map_option (\<lambda>(u, bytes_read).
       (0, s\<lparr>c2_already_open := CDEV_NOT_USED\<rparr>, put_user u (param + bytes_read) NUL)) r"

definition c2_write_finish ::
    "chardev2 \<Rightarrow> umem \<Rightarrow> (char list \<times> nat) option \<Rightarrow> (int \<times> chardev2 \<times> umem) option" where
  "c2_write_finish s u r =
     map_option (\<lambda>(m, _). (0, s\<lparr>c2_message := m, c2_already_open := CDEV_NOT_USED\<rparr>, u)) r"

fun c2_finish :: "chardev2 \<Rightarrow> umem \<Rightarrow> c2_pc \<Rightarrow> (int \<times> chardev2 \<times> umem) option" where
  "c2_finish s u (IoctlEnd ret) = Some (ret, s\<lparr>c2_already_open := CDEV_NOT_USED\<rparr>, u)"
| "c2_finish s u (WriteFor (Ioctl param) a n i) =
     c2_write_finish s u (chardev2_write_loop u a n i (c2_message s))"
| "c2_finish s u (ReadWhile (Ioctl param) q a n k off) =
     c2_read_finish s param (msg_read_loop (c2_message s) u q a n k)"
| "c2_finish s u (ReadPut (Ioctl param) q a n k off) =
     (case char_at (c2_message s) (int q) of
        None \<Rightarrow> None
      | Some c \<Rightarrow>
          c2_read_finish s param
            (msg_read_loop (c2_message s) (put_user u a c) (Suc q) (Suc a) (n - 1) (Suc k)))"
| "c2_finish s u (ReadTest (Ioctl param) a n off) =
     (case chardev2_read s u a n off of
        None \<Rightarrow> None
      | Some (i, off, u) \<Rightarrow>
          Some (0, s\<lparr>c2_already_open := CDEV_NOT_USED\<rparr>, put_user u (param + nat i) NUL))"
| "c2_finish s u (IoctlBody num param) =
     (if num = IOCTL_SET_MSG
      then c2_write_finish s u (chardev2_write_loop u param
             (set_msg_length u param (get_user u param) 0) 0 (c2_message s))
      else if num = IOCTL_GET_MSG
      then (case chardev2_read s u param 99 0 of
              None \<Rightarrow> None
            | Some (i, off, u) \<Rightarrow>
                Some (0, s\<lparr>c2_already_open := CDEV_NOT_USED\<rparr>, put_user u (param + nat i) NUL))
      else if num = IOCTL_GET_NTH_BYTE
      then map_option (\<lambda>c. (schar c, s\<lparr>c2_already_open := CDEV_NOT_USED\<rparr>, u))
             (char_at (c2_message s) (int param))
      else Some (0, s\<lparr>c2_already_open := CDEV_NOT_USED\<rparr>, u))"
| "c2_finish s u _ = None"

text \<open>A step inside leaves it as it is, from the first step on, where it is \<open>chardev2_ioctl\<close>.\<close>

lemma c2_finish_enter:
  assumes "\<not> c2_busy s"
  shows "c2_finish (s\<lparr>c2_already_open := CDEV_EXCLUSIVE_OPEN\<rparr>) u (IoctlBody num param) =
    chardev2_ioctl s u num param"
  using assms
  by (auto simp: chardev2_ioctl_def atomic_cmpxchg_def c2_busy_def chardev2_write_def c2_write_finish_def
      chardev2_read_def Let_def option.map_comp comp_def split: option.split)

lemma c2_finish_step:
  assumes "c2_step Step s p = Some (s', p')" and "c2_inside (cp_pc p)" and "c2_inside (cp_pc p')"
    and "c2_pc_ok (cp_pc p')"
  shows "c2_finish s' (cp_mem p') (cp_pc p') = c2_finish s (cp_mem p) (cp_pc p)"
proof (cases "cp_pc p")
  case (ReadTest caller a n off)
  with assms show ?thesis
    by (cases caller)
      (auto simp: c2_step_simps chardev2_read_def msg_read_def c2_read_finish_def split: option.splits if_splits)
next
  case (ReadWhile caller q a n k off)
  with assms show ?thesis
    by (cases caller; cases n)
      (auto simp: c2_step_simps c2_read_finish_def split: option.splits if_splits)
next
  case (ReadPut caller q a n k off)
  with assms show ?thesis
    by (cases caller) (auto simp: c2_step_simps split: option.splits if_splits)
next
  case (WriteFor caller a n i)
  with assms show ?thesis
    by (cases caller)
      (auto simp: c2_step_simps c2_write_finish_def chardev2_write_loop.simps[of _ a n i] split: if_splits)
next
  case (IoctlBody num param)
  with assms show ?thesis by (auto simp: c2_step_simps split: if_splits option.splits)
qed (use assms in auto)

lemma c2_leave:
  assumes "c2_step Step s p = Some (s', p')" and "c2_inside (cp_pc p)" and "\<not> c2_inside (cp_pc p')"
  shows "\<exists>ret. cp_pc p = IoctlEnd ret \<and> c2_finish s (cp_mem p) (cp_pc p) = Some (ret, s', cp_mem p)"
  using assms
  by (cases "cp_pc p") (auto simp: c2_step_simps split: if_splits c2_caller.splits option.splits)

text \<open>A run of ioctls only: nobody else writes or reads, or changes the memory of a caller.\<close>

definition c2_ioctl_only :: "c2_action \<Rightarrow> bool" where
  "c2_ioctl_only act \<longleftrightarrow> c2_in_bounds act \<and>
     (case act of Call (IoctlCall u num param) \<Rightarrow> True | Step \<Rightarrow> True | _ \<Rightarrow> False)"

definition c2_ioctl_own :: "chardev2 \<Rightarrow> c2_proc \<Rightarrow> bool" where
  "c2_ioctl_own s p \<longleftrightarrow> c2_own s p \<and>
     (c2_inside (cp_pc p) \<or> cp_pc p = User \<or> (\<exists>num param. cp_pc p = IoctlTry num param))"

lemma c2_ioctl_only_cases:
  assumes "c2_ioctl_only act"
  obtains u num param where "act = Call (IoctlCall u num param)" | "act = Step"
  using assms by (auto simp: c2_ioctl_only_def split: c2_action.splits chardev2_call.splits)

lemma c2_step_ioctl_own:
  assumes s: "c2_step act s p = Some (s', p')" and ok: "c2_ioctl_only act" and own: "c2_ioctl_own s p"
  shows "c2_ioctl_own s' p'"
proof -
  have "c2_own s' p'"
    using c2_step_own[OF s] ok own by (simp add: c2_ioctl_only_def c2_ioctl_own_def)
  moreover have "c2_inside (cp_pc p') \<or> cp_pc p' = User \<or> (\<exists>num param. cp_pc p' = IoctlTry num param)"
    using ok
  proof (cases rule: c2_ioctl_only_cases)
    case (1 u num param)
    with s show ?thesis by (auto simp: c2_fops_def split: if_splits)
  next
    case 2
    show ?thesis
    proof (cases "c2_inside (cp_pc p)")
      case True
      with c2_leave[of s p s' p'] s 2 show ?thesis by auto
    next
      case False
      with own s 2 show ?thesis
        by (auto simp: c2_ioctl_own_def Let_def split: prod.splits if_splits)
    qed
  qed
  ultimately show ?thesis by (simp add: c2_ioctl_own_def)
qed

interpretation c2_ioctls: interference_free c2_step c2_ioctl_only c2_ioctl_own "\<lambda>_ _. True"
proof
  fix act s p s' p'
  assume s: "c2_step act s p = Some (s', p')" "c2_ioctl_only act" "c2_ioctl_own s p"
  then show "c2_ioctl_own s' p'" by (rule c2_step_ioctl_own)
  show "c2_ioctl_own s' m \<and> True" if "c2_ioctl_own s m" for m
    using that s c2_step_message[OF s(1)] by (simp add: c2_ioctl_own_def c2_own_def)
qed simp

lemma c2_boot_ioctl_own: "c2_ioctls.all_own (c2_boot us)"
  using c2_boot_own[of us] by (simp add: c2_ioctls.all_own_def c2_ioctl_own_def) (simp add: c2_boot_def)

definition c2_rest :: "chardev2 \<Rightarrow> c2_proc \<Rightarrow> ((int \<times> umem) \<times> chardev2) option" where
  "c2_rest s p = map_option (\<lambda>(ret, s, u). ((ret, u), s)) (c2_finish s (cp_mem p) (cp_pc p))"

interpretation c2_section: critical_section c2_step c2_ioctl_only c2_ioctl_own c2_busy
    "\<lambda>p. c2_inside (cp_pc p)" "\<lambda>s. s" c2_call_of c2_result_of c2_ioctl_call c2_rest
proof
  fix act s p s' p'
  assume s: "c2_step act s p = Some (s', p')" and ok: "c2_ioctl_only act" and own: "c2_ioctl_own s p"
  {
    assume out: "\<not> c2_inside (cp_pc p)" and out': "\<not> c2_inside (cp_pc p')"
    from ok show "s' = s"
    proof (cases rule: c2_ioctl_only_cases)
      case 2
      with s own out out' show ?thesis
        by (auto simp: c2_ioctl_own_def atomic_cmpxchg_def c2_busy_def split: if_splits)
    qed (use s in \<open>auto split: if_splits\<close>)
  next
    assume out: "\<not> c2_inside (cp_pc p)" and in': "c2_inside (cp_pc p')"
    from ok obtain num param where t: "cp_pc p = IoctlTry num param" and a: "act = Step"
    proof (cases rule: c2_ioctl_only_cases)
      case 1
      with s in' show ?thesis by (auto simp: c2_fops_def split: if_splits)
    next
      case 2
      with s own out show ?thesis by (auto simp: c2_ioctl_own_def intro: that)
    qed
    have free: "\<not> c2_busy s" using c2_flag.goes_in[OF s out in'] by simp
    with s t a have "s' = s\<lparr>c2_already_open := CDEV_EXCLUSIVE_OPEN\<rparr>"
      "cp_pc p' = IoctlBody num param" "cp_mem p' = cp_mem p"
      by (auto simp: atomic_cmpxchg_def c2_busy_def)
    with t c2_finish_enter[OF free, of "cp_mem p" num param]
    show "c2_rest s' p' = c2_ioctl_call (c2_call_of p) s"
      by (simp add: c2_rest_def c2_ioctl_call_def c2_call_of_def)
  next
    assume in0: "c2_inside (cp_pc p)" and in': "c2_inside (cp_pc p')"
    from c2_step_ioctl_own[OF s ok own] have pc: "c2_pc_ok (cp_pc p')"
      by (simp add: c2_ioctl_own_def c2_own_def)
    from ok show "c2_rest s' p' = c2_rest s p"
    proof (cases rule: c2_ioctl_only_cases)
      case 2
      with c2_finish_step[OF _ in0 in' pc, of s s'] s show ?thesis by (simp add: c2_rest_def)
    qed (use s in0 in \<open>auto split: if_splits\<close>)
  next
    assume in0: "c2_inside (cp_pc p)" and out': "\<not> c2_inside (cp_pc p')"
    from ok show "c2_rest s p = Some (c2_result_of p', s')"
    proof (cases rule: c2_ioctl_only_cases)
      case 2
      with c2_leave[OF _ in0 out', of s s'] s show ?thesis
        by (auto simp: c2_rest_def c2_result_of_def)
    qed (use s in0 in \<open>auto split: if_splits\<close>)
  }
qed

section \<open>Properties\<close>

lemmas c2_run_simps = threads_exec_def c2_boot_def c2_step_simps chardev2_zero_def atomic_cmpxchg_def
  Let_def

text \<open>
  C15 (safety): however reads, writes and ioctls of any number of processes interleave, byte by byte, and
  whatever happens to their memory meanwhile, the message keeps its length and its terminator, at most one
  process is inside \<open>device_ioctl\<close>, and the flag says whether one is. The only processes that leave the array
  are those that asked for a place beyond it: a read offset that is negative or above 80, or an argument of
  \<open>IOCTL_GET_NTH_BYTE\<close> above 80.
\<close>

theorem chardev2_smp_safe:
  assumes run: "threads_run c2_step (c2_boot us) acts = Some c"
  shows "length (c2_message (th_shared c)) = 81 \<and> c2_message (th_shared c) ! 80 = NUL \<and>
    (\<forall>i caller. cp_pc (th_local c i) = Oops caller \<longrightarrow>
      (\<exists>act. (i, act) \<in> set acts \<and> \<not> c2_in_bounds act)) \<and>
    (if c2_already_open (th_shared c) = CDEV_NOT_USED then \<forall>i. \<not> c2_inside (cp_pc (th_local c i))
     else \<exists>!i. c2_inside (cp_pc (th_local c i)))"
proof -
  have own: "c2_own (th_shared c) (th_local c i)"
    if "\<And>act. (i, act) \<in> set acts \<Longrightarrow> c2_in_bounds act" for i
    using that by (intro c2_calls.run_self[OF run _ c2_boot_own]) (auto simp: list_all_iff)
  have "\<exists>act. (i, act) \<in> set acts \<and> \<not> c2_in_bounds act" if "cp_pc (th_local c i) = Oops caller" for i caller
    using own[of i] that by (auto simp: c2_own_def)
  moreover have "length (c2_message (th_shared c)) = 81 \<and> c2_message (th_shared c) ! 80 = NUL"
    by (rule threads_run_induct[OF run, where ok = "\<lambda>_. True"])
      (use c2_boot_own[of us 0] c2_step_message in \<open>auto simp: list_all_iff c2_own_def\<close>)
  ultimately show ?thesis using c2_flag.run_one_inside[OF run c2_boot_one_inside]
    by (simp add: c2_flag.one_inside_def c2_busy_def)
qed

definition two_ioctls :: "(nat \<times> c2_action) list" where
  "two_ioctls = [(0, Call (IoctlCall (umem_with 0 []) IOCTL_GET_NTH_BYTE 80)),
     (1, Call (IoctlCall (umem_with 0 []) IOCTL_GET_NTH_BYTE 5)), (0, Step), (1, Step), (0, Step), (0, Step)]"

lemma two_ioctls_ok: "list_all (\<lambda>act. c2_in_bounds (snd act)) two_ioctls"
  "list_all (\<lambda>act. c2_ioctl_only (snd act)) two_ioctls"
  by (simp_all add: two_ioctls_def c2_in_bounds_def call_in_bounds_def c2_ioctl_only_def)

lemma two_ioctls_run:
  "\<exists>c. threads_run c2_step (c2_boot us) two_ioctls = Some c \<and> cp_ret (th_local c 1) = - EBUSY \<and>
    c2_already_open (th_shared c) = CDEV_NOT_USED \<and>
    c2_history (c2_boot us) two_ioctls = ([(umem_with 0 [], IOCTL_GET_NTH_BYTE, 80)], [(0, umem_with 0 [])])"
  by (simp add: two_ioctls_def c2_run_simps char_at_def chardev2_BUF_LEN_def schar_def c2_busy_def
    c2_history_def c2_call_of_def c2_result_of_def)

theorem chardev2_smp_safe_witness:
  "\<exists>c. threads_run c2_step (c2_boot (\<lambda>_. umem_with 0 [])) two_ioctls = Some c \<and>
    cp_ret (th_local c 1) = - EBUSY \<and> (\<forall>i caller. cp_pc (th_local c i) \<noteq> Oops caller)"
proof -
  obtain c where c: "threads_run c2_step (c2_boot (\<lambda>_. umem_with 0 [])) two_ioctls = Some c"
    "cp_ret (th_local c 1) = - EBUSY" using two_ioctls_run by blast
  have "c2_in_bounds act" if "(i, act) \<in> set two_ioctls" for i act
    using that two_ioctls_ok(1) by (auto simp: list_all_iff)
  with chardev2_smp_safe[OF c(1)] c show ?thesis by blast
qed

text \<open>
  C25 (termination): a call of a process whose read offsets and arguments of \<open>IOCTL_GET_NTH_BYTE\<close> are all from 0
  to 80 takes at most 168 steps of that process, whatever the others call and however they run in between;
  and when it is in a call, it can always take the next: no call ever waits.
\<close>

theorem chardev2_calls_wait_free:
  assumes run: "threads_run c2_step (c2_boot us) acts = Some c"
      "threads_run c2_step c acts' = Some c'"
    and ok: "list_all (\<lambda>act. fst act = i \<longrightarrow> c2_in_bounds (snd act)) (acts @ acts')"
    and only: "list_all (\<lambda>act. fst act = i \<longrightarrow> snd act = Step) acts'"
  shows "length (filter (\<lambda>act. fst act = i) acts') \<le> 168 \<and>
    (cp_pc (th_local c' i) = User \<or> (\<exists>c''. threads_exec c2_step c' (i, Step) = Some c''))"
proof -
  from ok have ok': "list_all (\<lambda>act. fst act = i \<longrightarrow> c2_in_bounds (snd act)) acts"
    "list_all (\<lambda>act. fst act = i \<longrightarrow> c2_in_bounds (snd act)) acts'" by simp_all
  note own = c2_calls.run_self[OF run(1) ok'(1) c2_boot_own]
  note own' = c2_calls.run_self[OF run(2) ok'(2) own]
  have "cp_pc (th_local c' i) = User \<or> (\<exists>c''. threads_exec c2_step c' (i, Step) = Some c'')"
    using c2_step_possible[OF own'] by (cases "cp_pc (th_local c' i) = User")
      (auto simp: threads_exec_def simp del: c2_step.simps split: option.split)
  then show ?thesis
    using c2_calls.self_steps_bounded[OF run(2) ok'(2) own only] c2_work_bound[OF own] by simp
qed

theorem chardev2_calls_wait_free_witness:
  "\<exists>c c'. threads_run c2_step (c2_boot (\<lambda>_. umem_with 0 [])) [] = Some c \<and>
    threads_run c2_step c two_ioctls = Some c' \<and>
    (cp_pc (th_local c' 2) = User \<or> (\<exists>c''. threads_exec c2_step c' (2, Step) = Some c''))"
proof -
  let ?b = "c2_boot (\<lambda>_. umem_with 0 [])"
  obtain c' where c': "threads_run c2_step ?b two_ioctls = Some c'" using two_ioctls_run by blast
  have run: "threads_run c2_step ?b [] = Some ?b" by simp
  have "list_all (\<lambda>act. fst act = 2 \<longrightarrow> c2_in_bounds (snd act)) ([] @ two_ioctls)"
    using two_ioctls_ok by (simp add: two_ioctls_def)
  moreover have "list_all (\<lambda>act. fst act = 2 \<longrightarrow> snd act = Step) two_ioctls" by (simp add: two_ioctls_def)
  ultimately show ?thesis using chardev2_calls_wait_free[OF run c'] c' by auto
qed

text \<open>
  C2 (refinement): ioctls are atomic: when processes only call ioctls, with arguments of \<open>IOCTL_GET_NTH_BYTE\<close> up to
  80 and memory that nobody else changes, and no process is inside any more, the message and everything that
  the ioctls returned and put is as if those that found the device free had run one after the other, in
  the order in which they did.
\<close>

theorem chardev2_ioctls_atomic:
  assumes run: "threads_run c2_step (c2_boot us) acts = Some c"
    and ok: "list_all (\<lambda>act. c2_ioctl_only (snd act)) acts"
    and free: "c2_already_open (th_shared c) = CDEV_NOT_USED"
  shows "chardev2_serve chardev2_zero (fst (c2_history (c2_boot us) acts)) =
    Some (th_shared c, snd (c2_history (c2_boot us) acts))"
proof -
  have "\<not> c2_busy (th_shared c)" using free by (simp add: c2_busy_def)
  moreover have "\<not> c2_busy (th_shared (c2_boot us))" "th_shared (c2_boot us) = chardev2_zero"
    by (simp_all add: c2_boot_def c2_busy_def chardev2_zero_def)
  ultimately show ?thesis
    using c2_section.run_atomic[OF run ok c2_boot_ioctl_own c2_boot_one_inside _ _ prod.collapse[symmetric]]
    by (simp add: chardev2_serve_def c2_history_def)
qed

theorem chardev2_ioctls_atomic_witness:
  "\<exists>s. chardev2_serve chardev2_zero [(umem_with 0 [], IOCTL_GET_NTH_BYTE, 80)] =
    Some (s, [(0, umem_with 0 [])])"
proof -
  obtain c where c: "threads_run c2_step (c2_boot (\<lambda>_. umem_with 0 [])) two_ioctls = Some c"
    "c2_already_open (th_shared c) = CDEV_NOT_USED"
    "c2_history (c2_boot (\<lambda>_. umem_with 0 [])) two_ioctls =
      ([(umem_with 0 [], IOCTL_GET_NTH_BYTE, 80)], [(0, umem_with 0 [])])"
    using two_ioctls_run by blast
  from chardev2_ioctls_atomic[OF c(1) two_ioctls_ok(2) c(2)] c(3) show ?thesis by auto
qed

text \<open>
  The flag does not keep \<open>write\<close> out: an ioctl that reads the message while another process
  writes it returns a mixture of both messages.
\<close>

definition torn_run :: "(nat \<times> c2_action) list" where
  "torn_run =
     [(0, Call (WriteCall (umem_with 1 ''ab'') 1 2)), (0, Step), (0, Step), (0, Step),
      (1, Call (IoctlCall (umem_with 0 []) IOCTL_GET_MSG 1)), (1, Step), (1, Step), (1, Step),
      (1, Step), (1, Step),
      (0, Call (WriteCall (umem_with 1 ''cd'') 1 2)), (0, Step), (0, Step), (0, Step),
      (1, Step), (1, Step), (1, Step), (1, Step)]"

lemma chardev2_torn_message:
  "\<exists>c. threads_run c2_step (c2_boot us) torn_run = Some c \<and> cp_pc (th_local c 1) = User \<and>
    get_bytes (cp_mem (th_local c 1)) 1 3 = ''ad'' @ [NUL]"
proof -
  have u: "get_user (umem_with 1 [x, y]) 1 = x" "get_user (umem_with 1 [x, y]) 2 = y" for x y
    by (simp_all add: get_user_def umem_with_def put_user_def)
  have p: "get_bytes (put_user (put_user (put_user (umem_with 0 []) 1 x) 2 y) 3 z) 1 3 = [x, y, z]" for x y z
    by (simp add: get_bytes_Suc get_user_def umem_with_def put_user_def numeral_3_eq_3)
  show ?thesis
    by (simp add: torn_run_def c2_run_simps char_at_def chardev2_BUF_LEN_def u p del: One_nat_def)
qed

end
