(* ===== verification/Vinput_Smp.thy ===== *)
theory Vinput_Smp
  imports Vkbd Interleaving
begin

text \<open>
  \<open>vinput.c\<close> with any number of tasks that write to \<open>export\<close> and \<open>unexport\<close> at the same time. The
  spin lock makes each use of the lists and of the bitmap one step; between the steps the lock is free,
  and other tasks see the object as far as it is set up. Exports keep out of each other's way; an
  unexport that comes between the steps of another task does not.
\<close>

section \<open>Steps\<close>

text \<open>
  Where a task is in \<open>export_store\<close>: before \<open>vinput_get_device_by_type\<close>, before \<open>kzalloc\<close> and the
  critical section of \<open>vinput_alloc_vdevice\<close>, before \<open>input_allocate_device\<close>, before the type is set,
  before \<open>device_register\<close>, before \<open>vinput_register_vdevice\<close>, and on the error paths before
  \<open>input_free_device\<close> and before the object is destroyed. The arguments are the device type, the
  object, its input device and \<open>err\<close>. In \<open>unexport_store\<close>: before \<open>vinput_get_vdevice_by_id\<close>, before
  \<open>vinput_unregister_vdevice\<close>, and before \<open>device_unregister\<close>. In \<open>ViOops\<close> the task followed a
  stale or null pointer.
\<close>

datatype vi_pc =
    ViUser
  | ExFind "char list"
  | ExAlloc nat
  | ExInput nat nat
  | ExType nat nat nat
  | ExRegister nat nat
  | ExInit nat nat
  | ExFree nat nat int
  | ExDestroy nat int
  | UnFind int
  | UnKill nat
  | UnDestroy nat
  | ViOops

record vi_task =
  vt_pc :: vi_pc
  vt_len :: nat
  vt_ret :: int

definition vi_goto :: "vi_pc \<Rightarrow> vinput_sys \<Rightarrow> vi_task \<Rightarrow> (vinput_sys \<times> vi_task) option" where
  "vi_goto pc s t = Some (s, t\<lparr>vt_pc := pc\<rparr>)"

definition vi_return :: "int \<Rightarrow> vinput_sys \<Rightarrow> vi_task \<Rightarrow> (vinput_sys \<times> vi_task) option" where
  "vi_return ret s t = Some (s, t\<lparr>vt_pc := ViUser, vt_ret := ret\<rparr>)"

text \<open>The result of a computation, or the pointer was bad.\<close>

definition vi_try ::
    "'b option \<Rightarrow> ('b \<Rightarrow> (vinput_sys \<times> vi_task) option) \<Rightarrow> vinput_sys \<Rightarrow> vi_task \<Rightarrow>
      (vinput_sys \<times> vi_task) option" where
  "vi_try r k s t = (case r of None \<Rightarrow> vi_goto ViOops s t | Some x \<Rightarrow> k x)"

text \<open>
  The two critical sections of \<open>vinput_alloc_vdevice\<close>: the id and the list, with the object \<open>a\<close> that
  \<open>kzalloc\<close> gave, and the one on the path \<open>fail_input_dev\<close>.
\<close>

definition vi_list_add :: "vinput_sys \<Rightarrow> nat \<Rightarrow> nat \<Rightarrow> vinput_sys" where
  "vi_list_add s a ident =
     s\<lparr>vs_heap := (vs_heap s)(a \<mapsto> vinput_zeroed\<lparr>vi_id := int ident\<rparr>),
       vs_ids := set_bit ident (vs_ids s), vs_vdevices := a # vs_vdevices s\<rparr>"

definition vi_fail_input_dev :: "vinput_sys \<Rightarrow> nat \<Rightarrow> vinput_sys option" where
  "vi_fail_input_dev s a =
     do { vdevices \<leftarrow> list_del a (vs_vdevices s);
          heap \<leftarrow> kfree (vs_heap s) a;
          Some (s\<lparr>vs_vdevices := vdevices, vs_heap := heap\<rparr>) }"

text \<open>
  A step of \<open>export_store\<close> with what the kernel's functions return; the kernel does not hand out an
  address that is in use, or \<open>NULL\<close>.
\<close>

fun vi_export :: "export_env \<Rightarrow> vinput_sys \<Rightarrow> vi_task \<Rightarrow> vi_pc \<Rightarrow> (vinput_sys \<times> vi_task) option" where
  "vi_export e s t (ExFind buf) =
     vi_try (vinput_get_device_by_type s buf)
       (\<lambda>device. case device of Inl err \<Rightarrow> vi_return err s t | Inr dev \<Rightarrow> vi_goto (ExAlloc dev) s t) s t"
| "vi_export e s t (ExAlloc dev) =
     (case ret_kzalloc e of
        None \<Rightarrow> vi_return (- ENOMEM) s t
      | Some a \<Rightarrow>
          if a = 0 \<or> vs_heap s a \<noteq> None then None
          else let ident = find_first_zero_bit (vs_ids s) VINPUT_MINORS
               in if VINPUT_MINORS \<le> ident then vi_return (- ENOBUFS) s t
                  else vi_goto (ExInput dev a) (vi_list_add s a ident) t)"
| "vi_export e s t (ExInput dev a) =
     (case ret_input_allocate_device e of
        None \<Rightarrow> vi_try (vi_fail_input_dev s a) (\<lambda>s. vi_return (- ENOMEM) s t) s t
      | Some i \<Rightarrow>
          if i = 0 \<or> vs_inputs s i \<noteq> None then None
          else vi_try (vs_heap s a)
                 (\<lambda>v. vi_goto (ExType dev a i)
                   (s\<lparr>vs_heap := (vs_heap s)(a \<mapsto> v\<lparr>vi_input := i, vi_devt := (vs_dev s, vi_id v)\<rparr>),
                      vs_inputs := (vs_inputs s)(i \<mapsto> input_dev_zeroed)\<rparr>) t) s t)"
| "vi_export e s t (ExType dev a i) =
     vi_try (vs_heap s a)
       (\<lambda>v. vi_goto (ExRegister a i) (s\<lparr>vs_heap := (vs_heap s)(a \<mapsto> v\<lparr>vi_type := dev\<rparr>)\<rparr>) t) s t"
| "vi_export e s t (ExRegister a i) =
     (if ret_device_register e < 0 then vi_goto (ExFree a i (ret_device_register e)) s t
      else vi_goto (ExInit a i) s t)"
| "vi_export e s t (ExInit a i) =
     vi_try (vinput_register_vdevice s a)
       (\<lambda>(err, s). if err < 0 then vi_goto (ExFree a i err) s t
                   else vi_return (int (vt_len t)) s t) s t"
| "vi_export e s t (ExFree a i err) =
     vi_try (do { v \<leftarrow> vs_heap s a; input_free_device s (vi_input v) })
       (\<lambda>s. vi_goto (ExDestroy a err) s t) s t"
| "vi_export e s t (ExDestroy a err) =
     vi_try (vinput_destroy_vdevice s a) (\<lambda>s. vi_return err s t) s t"
| "vi_export e s t _ = None"

fun vi_unexport :: "vinput_sys \<Rightarrow> vi_task \<Rightarrow> vi_pc \<Rightarrow> (vinput_sys \<times> vi_task) option" where
  "vi_unexport s t (UnFind ident) =
     vi_try (vinput_get_vdevice_by_id s ident)
       (\<lambda>vinput. case vinput of Inl err \<Rightarrow> vi_return err s t | Inr a \<Rightarrow> vi_goto (UnKill a) s t) s t"
| "vi_unexport s t (UnKill a) =
     vi_try (vinput_unregister_vdevice s a) (\<lambda>s. vi_goto (UnDestroy a) s t) s t"
| "vi_unexport s t (UnDestroy a) =
     vi_try (device_unregister s a) (\<lambda>s. vi_return (int (vt_len t)) s t) s t"
| "vi_unexport s t _ = None"

text \<open>
  A task writes the name of a type to \<open>export\<close>, or to \<open>unexport\<close> what \<open>kstrtol\<close> takes for \<open>ident\<close>, or it
  takes a step.
\<close>

datatype vi_action = WriteExport "char list" nat | WriteUnexport int nat | ViStep export_env

fun vi_step :: "(vi_action, vinput_sys, vi_task) thread_step" where
  "vi_step (WriteExport buf len) s t =
     (if vt_pc t = ViUser then vi_goto (ExFind buf) s (t\<lparr>vt_len := len\<rparr>) else None)"
| "vi_step (WriteUnexport ident len) s t =
     (if vt_pc t = ViUser then vi_goto (UnFind ident) s (t\<lparr>vt_len := len\<rparr>) else None)"
| "vi_step (ViStep e) s t =
     (case vt_pc t of
        ViUser \<Rightarrow> None
      | ViOops \<Rightarrow> None
      | UnFind _ \<Rightarrow> vi_unexport s t (vt_pc t)
      | UnKill _ \<Rightarrow> vi_unexport s t (vt_pc t)
      | UnDestroy _ \<Rightarrow> vi_unexport s t (vt_pc t)
      | _ \<Rightarrow> vi_export e s t (vt_pc t))"

lemmas vi_step_simps = vi_goto_def vi_return_def vi_try_def

text \<open>
  The steps in a row, with the same results of the kernel, are the functions of \<open>Vinput\<close>.
\<close>

fun vi_alone :: "nat \<Rightarrow> export_env \<Rightarrow> vinput_sys \<Rightarrow> vi_task \<Rightarrow> (int \<times> vinput_sys) option" where
  "vi_alone 0 e s t = None"
| "vi_alone (Suc n) e s t =
     (if vt_pc t = ViUser then Some (vt_ret t, s)
      else case vi_step (ViStep e) s t of None \<Rightarrow> None | Some (s, t) \<Rightarrow> vi_alone n e s t)"

text \<open>The addresses are not \<open>NULL\<close>.\<close>

definition no_null :: "export_env \<Rightarrow> bool" where
  "no_null e \<longleftrightarrow> ret_kzalloc e \<noteq> Some 0 \<and> ret_input_allocate_device e \<noteq> Some 0"

lemma vi_alone_oops [simp]: "vt_pc t = ViOops \<Longrightarrow> vi_alone n e s t = None"
  by (cases n) auto

lemma vi_alone_user [simp]: "vt_pc t = ViUser \<Longrightarrow> vi_alone (Suc n) e s t = Some (vt_ret t, s)"
  by simp

text \<open>One step, if the task is in \<open>export_store\<close>.\<close>

lemma vi_alone_step:
  "vi_step (ViStep e) s t = vi_export e s t (vt_pc t) \<Longrightarrow> vt_pc t \<noteq> ViUser \<Longrightarrow>
    vi_alone (Suc n) e s t =
      (case vi_export e s t (vt_pc t) of None \<Rightarrow> None | Some (s, t) \<Rightarrow> vi_alone n e s t)"
  by simp

declare vi_alone.simps(2) [simp del]

lemma vi_alone_destroy:
  "vt_pc t = ExDestroy a err \<Longrightarrow>
    vi_alone (Suc (Suc n)) e s t = do { s \<leftarrow> vinput_destroy_vdevice s a; Some (err, s) }"
  by (subst vi_alone_step) (auto simp: vi_step_simps split: option.split)

lemma vi_alone_free:
  "vt_pc t = ExFree a i err \<Longrightarrow> vi_alone (Suc (Suc (Suc n))) e s t =
    do { v \<leftarrow> vs_heap s a; s \<leftarrow> input_free_device s (vi_input v);
         s \<leftarrow> vinput_destroy_vdevice s a; Some (err, s) }"
  by (subst vi_alone_step) (auto simp: vi_step_simps vi_alone_destroy split: option.split Option.bind_split)

lemma vi_alone_init:
  "vt_pc t = ExInit a i \<Longrightarrow> vi_alone (Suc (Suc (Suc (Suc n)))) e s t =
    do { (err, s) \<leftarrow> vinput_register_vdevice s a;
         if err < 0
         then do { v \<leftarrow> vs_heap s a; s \<leftarrow> input_free_device s (vi_input v);
                   s \<leftarrow> vinput_destroy_vdevice s a; Some (err, s) }
         else Some (int (vt_len t), s) }"
  by (subst vi_alone_step) (auto simp: vi_step_simps vi_alone_free split: option.split Option.bind_split)

lemma vi_alone_register:
  "vt_pc t = ExRegister a i \<Longrightarrow> vi_alone (Suc (Suc (Suc (Suc (Suc n))))) e s t =
    (if ret_device_register e < 0
     then do { v \<leftarrow> vs_heap s a; s \<leftarrow> input_free_device s (vi_input v);
               s \<leftarrow> vinput_destroy_vdevice s a; Some (ret_device_register e, s) }
     else do { (err, s) \<leftarrow> vinput_register_vdevice s a;
               if err < 0
               then do { v \<leftarrow> vs_heap s a; s \<leftarrow> input_free_device s (vi_input v);
                         s \<leftarrow> vinput_destroy_vdevice s a; Some (err, s) }
               else Some (int (vt_len t), s) })"
  by (subst vi_alone_step) (simp_all add: vi_goto_def vi_alone_free vi_alone_init cong: if_cong)

lemma vinput_register_vdevice_heap:
  "vinput_register_vdevice s a = Some (err, s') \<Longrightarrow> vs_heap s' = vs_heap s"
  by (auto simp: vinput_register_vdevice_def Let_def split: Option.bind_splits prod.splits)

lemma vi_alone_export:
  assumes fresh: "fresh_env e s" and nn: "no_null e" and pc: "vt_pc t = ExFind buf"
  shows "vi_alone 9 e s t = export_store e s buf (vt_len t)"
proof -
  have n: "9 = Suc (Suc (Suc (Suc (Suc (Suc (Suc (Suc (Suc 0))))))))" by simp
  show ?thesis
  proof (cases "vinput_get_device_by_type s buf")
    case None
    then show ?thesis unfolding n using pc
      by (subst vi_alone_step) (simp_all add: vi_step_simps export_store_def)
  next
    case (Some dev)
    show ?thesis
    proof (cases dev)
      case (Inl err)
      with Some show ?thesis unfolding n using pc
        by (subst vi_alone_step) (simp_all add: vi_step_simps export_store_def)
    next
      case (Inr d)
      define k where "k = find_first_zero_bit (vs_ids s) VINPUT_MINORS"
      let ?t = "t\<lparr>vt_pc := ExAlloc d\<rparr>"
      have 1: "vi_alone 9 e s t = vi_alone (Suc (Suc (Suc (Suc (Suc (Suc (Suc (Suc 0)))))))) e s ?t"
        unfolding n using pc Some Inr by (subst vi_alone_step) (simp_all add: vi_step_simps)
      show ?thesis
      proof (cases "ret_kzalloc e = None \<or> VINPUT_MINORS \<le> k")
        case True
        show ?thesis
        proof (cases "ret_kzalloc e")
          case None
          then have "vinput_alloc_vdevice e s = Some (Inl (- ENOMEM), s)"
            by (simp add: vinput_alloc_vdevice_def)
          with None Some Inr show ?thesis unfolding 1
            by (subst vi_alone_step) (simp_all add: vi_step_simps export_store_def)
        next
          case a: (Some a)
          with True have k: "VINPUT_MINORS \<le> k" by simp
          have "a \<noteq> 0 \<and> vs_heap s a = None" using a fresh nn by (auto simp: fresh_env_def no_null_def)
          with vinput_alloc_vdevice_fails(1)[OF fresh a k_def[symmetric] k] k a Some Inr show ?thesis
            unfolding 1
            by (subst vi_alone_step) (simp_all add: vi_step_simps export_store_def Let_def flip: k_def)
        qed
      next
        case False
        then obtain a where a: "ret_kzalloc e = Some a" "a \<noteq> 0" "vs_heap s a = None" "\<not> VINPUT_MINORS \<le> k"
          using fresh nn by (auto simp: fresh_env_def no_null_def)
        let ?s = "vi_list_add s a k" and ?t2 = "t\<lparr>vt_pc := ExInput d a\<rparr>"
        have 2: "vi_alone 9 e s t = vi_alone (Suc (Suc (Suc (Suc (Suc (Suc (Suc 0))))))) e ?s ?t2"
          unfolding 1 using a by (subst vi_alone_step) (simp_all add: vi_step_simps Let_def flip: k_def)
        show ?thesis
        proof (cases "ret_input_allocate_device e")
          case None
          have "vinput_alloc_vdevice e s = Some (Inl (- ENOMEM), s\<lparr>vs_ids := set_bit k (vs_ids s)\<rparr>)"
            using vinput_alloc_vdevice_fails(2)[OF fresh a(1) k_def[symmetric] _ None] a(4) by simp
          moreover have "vi_fail_input_dev ?s a = Some (s\<lparr>vs_ids := set_bit k (vs_ids s)\<rparr>)"
            using a(3) by (simp add: vi_fail_input_dev_def vi_list_add_def list_del_def kfree_def fun_upd_None)
          ultimately show ?thesis using None Some Inr unfolding 2
            by (subst vi_alone_step) (simp_all add: vi_step_simps export_store_def)
        next
          case i: (Some i)
          with fresh nn have i': "i \<noteq> 0" "vs_inputs s i = None" by (auto simp: fresh_env_def no_null_def)
          let ?v = "vinput_zeroed\<lparr>vi_id := int k, vi_devt := (vs_dev s, int k), vi_input := i\<rparr>"
          let ?s3 = "s\<lparr>vs_heap := (vs_heap s)(a \<mapsto> ?v), vs_ids := set_bit k (vs_ids s),
            vs_vdevices := a # vs_vdevices s, vs_inputs := (vs_inputs s)(i \<mapsto> input_dev_zeroed)\<rparr>"
          have 3: "vi_alone 9 e s t = vi_alone (Suc (Suc (Suc (Suc (Suc 0))))) e
              (?s3\<lparr>vs_heap := (vs_heap ?s3)(a \<mapsto> ?v\<lparr>vi_type := d\<rparr>)\<rparr>) (t\<lparr>vt_pc := ExRegister a i\<rparr>)"
            unfolding 2 using a i i'
            by (subst vi_alone_step, simp_all add: vi_step_simps vi_list_add_def,
                subst vi_alone_step, simp_all add: vi_step_simps vinput_zeroed_def)
          let ?s4 = "?s3\<lparr>vs_heap := (vs_heap ?s3)(a \<mapsto> ?v\<lparr>vi_type := d\<rparr>)\<rparr>"
          have heap: "vs_heap s' a = Some (?v\<lparr>vi_type := d\<rparr>)"
            if "vinput_register_vdevice ?s4 a = Some (err, s')" for err s'
            using vinput_register_vdevice_heap[OF that] by simp
          have "vinput_alloc_vdevice e s = Some (Inr a, ?s3)"
            using a i by (simp add: vinput_alloc_vdevice_def Let_def flip: k_def)
          then show ?thesis unfolding 3 using Some Inr heap
            by (cases "vinput_register_vdevice ?s4 a")
              (auto simp: vi_alone_register export_store_def Let_def device_unregister_def
                vinput_release_dev_def cong: if_cong)
        qed
      qed
    qed
  qed
qed

section \<open>Exports keep out of each other's way\<close>

text \<open>The object and the input device that a task is setting up or giving up.\<close>

fun pc_object :: "vi_pc \<Rightarrow> nat option" where
  "pc_object (ExInput dev a) = Some a"
| "pc_object (ExType dev a i) = Some a"
| "pc_object (ExRegister a i) = Some a"
| "pc_object (ExInit a i) = Some a"
| "pc_object (ExFree a i err) = Some a"
| "pc_object (ExDestroy a err) = Some a"
| "pc_object _ = None"

fun pc_input :: "vi_pc \<Rightarrow> nat option" where
  "pc_input (ExType dev a i) = Some i"
| "pc_input (ExRegister a i) = Some i"
| "pc_input (ExInit a i) = Some i"
| "pc_input (ExFree a i err) = Some i"
| "pc_input _ = None"

text \<open>
  What holds of the shared state between any two steps: the lists are those of the allocated
  objects and of registered types, ids are unique and taken, and the devices that there were at
  the start, in \<open>s0\<close>, are as they were.
\<close>

definition vi_shared :: "vinput_sys \<Rightarrow> vinput_sys \<Rightarrow> bool" where
  "vi_shared s0 s \<longleftrightarrow>
     vs_devices s = vs_devices s0 \<and> vs_types s = vs_types s0 \<and>
     distinct (vs_vdevices s) \<and> dom (vs_heap s) = set (vs_vdevices s) \<and>
     (\<forall>a v. vs_heap s a = Some v \<longrightarrow>
        0 \<le> vi_id v \<and> vi_id v < int VINPUT_MINORS \<and> bit (vs_ids s) (nat (vi_id v))) \<and>
     (\<forall>a b v w. vs_heap s a = Some v \<and> vs_heap s b = Some w \<and> vi_id v = vi_id w \<longrightarrow> a = b) \<and>
     (\<forall>a v. vs_heap s0 a = Some v \<longrightarrow> vs_heap s a = Some v) \<and>
     (\<forall>i d. vs_inputs s0 i = Some d \<longrightarrow> vs_inputs s i = Some d)"

definition raw_input :: "vinput_sys \<Rightarrow> nat \<Rightarrow> bool" where
  "raw_input s i \<longleftrightarrow> (\<exists>d. vs_inputs s i = Some d \<and> \<not> in_registered d)"

fun vi_pc_ok :: "vinput_sys \<Rightarrow> vi_pc \<Rightarrow> bool" where
  "vi_pc_ok s ViUser \<longleftrightarrow> True"
| "vi_pc_ok s (ExFind buf) \<longleftrightarrow> True"
| "vi_pc_ok s (ExAlloc dev) \<longleftrightarrow> dev \<in> set (vs_devices s)"
| "vi_pc_ok s (ExInput dev a) \<longleftrightarrow> dev \<in> set (vs_devices s) \<and> (\<exists>v. vs_heap s a = Some v)"
| "vi_pc_ok s (ExType dev a i) \<longleftrightarrow> dev \<in> set (vs_devices s) \<and>
     (\<exists>v. vs_heap s a = Some v \<and> vi_input v = i) \<and> raw_input s i"
| "vi_pc_ok s (ExRegister a i) \<longleftrightarrow>
     (\<exists>v. vs_heap s a = Some v \<and> vi_input v = i \<and> vi_type v \<in> set (vs_devices s)) \<and> raw_input s i"
| "vi_pc_ok s (ExInit a i) \<longleftrightarrow>
     (\<exists>v. vs_heap s a = Some v \<and> vi_input v = i \<and> vi_type v \<in> set (vs_devices s)) \<and> raw_input s i"
| "vi_pc_ok s (ExFree a i err) \<longleftrightarrow> (\<exists>v. vs_heap s a = Some v \<and> vi_input v = i) \<and> raw_input s i"
| "vi_pc_ok s (ExDestroy a err) \<longleftrightarrow> (\<exists>v. vs_heap s a = Some v)"
| "vi_pc_ok s _ \<longleftrightarrow> False"

definition vi_own :: "vinput_sys \<Rightarrow> vinput_sys \<Rightarrow> vi_task \<Rightarrow> bool" where
  "vi_own s0 s t \<longleftrightarrow> vi_shared s0 s \<and> vi_pc_ok s (vt_pc t) \<and>
     (\<forall>a. pc_object (vt_pc t) = Some a \<longrightarrow> vs_heap s0 a = None) \<and>
     (\<forall>i. pc_input (vt_pc t) = Some i \<longrightarrow> vs_inputs s0 i = None)"

definition vi_apart :: "vi_task \<Rightarrow> vi_task \<Rightarrow> bool" where
  "vi_apart t u \<longleftrightarrow>
     (\<forall>a. pc_object (vt_pc t) = Some a \<longrightarrow> pc_object (vt_pc u) \<noteq> Some a) \<and>
     (\<forall>i. pc_input (vt_pc t) = Some i \<longrightarrow> pc_input (vt_pc u) \<noteq> Some i)"

definition vi_export_only :: "vi_action \<Rightarrow> bool" where
  "vi_export_only act \<longleftrightarrow> (case act of WriteUnexport ident len \<Rightarrow> False | _ \<Rightarrow> True)"

text \<open>What a step of an export does, from the shared state and the task's place to the new ones.\<close>

inductive vi_change :: "vinput_sys \<Rightarrow> vi_pc \<Rightarrow> vinput_sys \<Rightarrow> vi_pc \<Rightarrow> bool" for s where
  keep: "pc_object pc' = pc_object pc \<Longrightarrow> pc_input pc' = pc_input pc \<Longrightarrow> vi_pc_ok s pc' \<Longrightarrow>
    vi_change s pc s pc'"
| add: "dev \<in> set (vs_devices s) \<Longrightarrow> vs_heap s a = None \<Longrightarrow> k < VINPUT_MINORS \<Longrightarrow>
    \<not> bit (vs_ids s) k \<Longrightarrow> vi_change s (ExAlloc dev) (vi_list_add s a k) (ExInput dev a)"
| add_input: "dev \<in> set (vs_devices s) \<Longrightarrow> vs_heap s a = Some v \<Longrightarrow> vs_inputs s i = None \<Longrightarrow>
    vi_id v' = vi_id v \<Longrightarrow> vi_input v' = i \<Longrightarrow> \<not> in_registered d \<Longrightarrow>
    vi_change s (ExInput dev a)
      (s\<lparr>vs_heap := (vs_heap s)(a \<mapsto> v'), vs_inputs := (vs_inputs s)(i \<mapsto> d)\<rparr>) (ExType dev a i)"
| set_type: "dev \<in> set (vs_devices s) \<Longrightarrow> vs_heap s a = Some v \<Longrightarrow> vi_input v = i \<Longrightarrow> raw_input s i \<Longrightarrow>
    vi_change s (ExType dev a i) (s\<lparr>vs_heap := (vs_heap s)(a \<mapsto> v\<lparr>vi_type := dev\<rparr>)\<rparr>) (ExRegister a i)"
| init_failed: "vs_heap s a = Some v \<Longrightarrow> vi_input v = i \<Longrightarrow> \<not> in_registered d \<Longrightarrow>
    vi_change s (ExInit a i) (s\<lparr>vs_inputs := (vs_inputs s)(i \<mapsto> d)\<rparr>) (ExFree a i err)"
| init_done: "vs_heap s a = Some v \<Longrightarrow> vi_input v = i \<Longrightarrow> vi_type v \<in> set (vs_devices s) \<Longrightarrow>
    in_registered d \<Longrightarrow> raw_input s i \<Longrightarrow>
    vi_change s (ExInit a i) (s\<lparr>vs_inputs := (vs_inputs s)(i \<mapsto> d)\<rparr>) ViUser"
| free: "vs_heap s a = Some v \<Longrightarrow> vi_input v = i \<Longrightarrow>
    vi_change s (ExFree a i err) (s\<lparr>vs_inputs := (vs_inputs s)(i := None)\<rparr>) (ExDestroy a err)"
| drop: "pc_object pc = Some a \<Longrightarrow> pc_input pc = None \<Longrightarrow> vs_heap s a = Some v \<Longrightarrow>
    w = vs_ids s \<or> w = unset_bit (nat (vi_id v)) (vs_ids s) \<Longrightarrow>
    vi_change s pc (s\<lparr>vs_ids := w, vs_vdevices := remove1 a (vs_vdevices s),
      vs_heap := (vs_heap s)(a := None)\<rparr>) ViUser"

lemma vi_shared_search:
  assumes inv: "vinput_inv s0" and sh: "vi_shared s0 s"
  shows "vinput_get_device_by_type s buf =
    Some (case vinput_find_type s0 buf of Some d \<Rightarrow> Inr d | None \<Rightarrow> Inl (- ENODEV))"
  using vinput_get_device_by_type_eq[OF inv, of buf] sh
  by (simp add: vinput_get_device_by_type_def vi_shared_def)

lemma vi_shared_listed:
  "vi_shared s0 s \<Longrightarrow> vs_heap s a = Some v \<Longrightarrow> list_del a (vs_vdevices s) = Some (remove1 a (vs_vdevices s))"
  by (auto simp: vi_shared_def list_del_def)

lemma vi_shared_driver:
  assumes "vinput_inv s0" and "vi_shared s0 s" and "dev \<in> set (vs_devices s)"
  shows "\<exists>t. vs_types s dev = Some t \<and> vinput_driver (vd_ops t)"
  using inv_driver[OF assms(1), of dev] assms(2,3) by (simp add: vi_shared_def)

text \<open>\<open>vinput_register_vdevice\<close> registers the input device exactly when it returns 0.\<close>

lemma vi_register_ok:
  assumes inv: "vinput_inv s0" and sh: "vi_shared s0 s" and v: "vs_heap s a = Some v"
    and ty: "vi_type v \<in> set (vs_devices s)" and raw: "raw_input s (vi_input v)"
  shows "\<exists>err d. vinput_register_vdevice s a =
      Some (err, s\<lparr>vs_inputs := (vs_inputs s)(vi_input v \<mapsto> d)\<rparr>) \<and> (in_registered d \<longleftrightarrow> \<not> err < 0)"
proof -
  from vi_shared_driver[OF inv sh ty] obtain t where
    t: "vs_types s (vi_type v) = Some t" "vinput_driver (vd_ops t)" by blast
  from raw obtain d where d: "vs_inputs s (vi_input v) = Some d" "\<not> in_registered d"
    by (auto simp: raw_input_def)
  let ?d = "d\<lparr>in_name := cstr (vd_name t), in_phys := ''vinput'', in_parent := a, in_bustype := 6,
    in_product := 0, in_vendor := 0, in_version := 0\<rparr>"
  obtain err d' where op: "op_init (vd_ops t) v ?d = (err, d')" by force
  from vinput_driver.init_registers[OF t(2) op] d have "err \<le> 0 \<and> (in_registered d' \<longleftrightarrow> err = 0)" by simp
  then have "in_registered d' \<longleftrightarrow> \<not> err < 0" by auto
  with v t d op show ?thesis
    by (intro exI[of _ err] exI[of _ d']) (simp add: vinput_register_vdevice_def)
qed

lemma vi_step_change:
  assumes inv: "vinput_inv s0" and own: "vi_own s0 s t" and ok: "vi_export_only act"
    and st: "vi_step act s t = Some (s', t')"
  shows "vi_change s (vt_pc t) s' (vt_pc t')"
proof (cases act)
  case (WriteExport buf len)
  with st show ?thesis by (auto simp: vi_step_simps split: if_splits intro!: vi_change.keep)
next
  case (WriteUnexport ident len)
  with ok show ?thesis by (simp add: vi_export_only_def)
next
  case (ViStep e)
  from own have sh: "vi_shared s0 s" and pc: "vi_pc_ok s (vt_pc t)" by (simp_all add: vi_own_def)
  have dv: "vs_devices s = vs_devices s0" using sh by (simp add: vi_shared_def)
  show ?thesis
  proof (cases "vt_pc t")
    case (ExFind buf)
    with st ViStep vi_shared_search[OF inv sh, of buf] vinput_find_type_registered[of s0 buf] dv
    show ?thesis by (auto simp: vi_step_simps split: option.splits intro!: vi_change.keep)
  next
    case (ExAlloc dev)
    with st ViStep pc find_first_zero_bit_unset[of "vs_ids s" VINPUT_MINORS] show ?thesis
      by (auto simp: vi_step_simps Let_def split: option.splits if_splits
          intro!: vi_change.keep vi_change.add)
  next
    case (ExInput dev a)
    with pc obtain v where v: "vs_heap s a = Some v" "dev \<in> set (vs_devices s)" by auto
    show ?thesis
    proof (cases "ret_input_allocate_device e")
      case None
      with st ViStep ExInput v vi_shared_listed[OF sh v(1)]
        vi_change.drop[of "ExInput dev a" a s v "vs_ids s"] show ?thesis
        by (auto simp: vi_step_simps vi_fail_input_dev_def kfree_def)
    next
      case (Some i)
      with st ViStep ExInput v show ?thesis
        by (auto simp: vi_step_simps split: if_splits intro!: vi_change.add_input)
          (simp_all add: input_dev_zeroed_def)
    qed
  next
    case (ExType dev a i)
    with st ViStep pc show ?thesis
      by (auto simp: vi_step_simps intro!: vi_change.set_type)
  next
    case (ExRegister a i)
    with st ViStep pc show ?thesis
      by (auto simp: vi_step_simps split: if_splits intro!: vi_change.keep)
  next
    case (ExInit a i)
    with pc obtain v where v: "vs_heap s a = Some v" "vi_input v = i" "vi_type v \<in> set (vs_devices s)"
      "raw_input s i" by auto
    from vi_register_ok[OF inv sh v(1,3)] v(2,4) obtain err d where
      "vinput_register_vdevice s a = Some (err, s\<lparr>vs_inputs := (vs_inputs s)(i \<mapsto> d)\<rparr>)"
      "in_registered d \<longleftrightarrow> \<not> err < 0" by blast
    with st ViStep ExInit v vi_change.init_failed[OF v(1,2)] vi_change.init_done[OF v(1,2,3) _ v(4)]
    show ?thesis by (auto simp: vi_step_simps split: if_splits)
  next
    case (ExFree a i err)
    with st ViStep pc show ?thesis
      by (auto simp: vi_step_simps input_free_device_def raw_input_def intro!: vi_change.free)
  next
    case (ExDestroy a err)
    with pc obtain v where v: "vs_heap s a = Some v" by auto
    from ExDestroy st ViStep v vi_shared_listed[OF sh v]
      vi_change.drop[of "ExDestroy a err" a s v "unset_bit (nat (vi_id v)) (vs_ids s)"]
    show ?thesis by (auto simp: vi_step_simps vinput_destroy_vdevice_def kfree_def)
  qed (use st ViStep pc in auto)
qed

text \<open>A change keeps what every task relies on.\<close>

lemma vi_change_shared:
  assumes ch: "vi_change s pc s' pc'" and sh: "vi_shared s0 s"
    and new: "\<And>a. pc_object pc = Some a \<Longrightarrow> vs_heap s0 a = None"
      "\<And>i. pc_input pc = Some i \<Longrightarrow> vs_inputs s0 i = None"
  shows "vi_shared s0 s'"
  using ch
proof cases
  case keep
  with sh show ?thesis by simp
next
  case (add dev a k)
  have id: "vi_id v \<noteq> int k" if "vs_heap s b = Some v" for b v
  proof -
    have "bit (vs_ids s) (nat (vi_id v))" using sh that unfolding vi_shared_def by blast
    with add(7) show ?thesis by auto
  qed
  have "dom (vs_heap s) = set (vs_vdevices s)" using sh by (simp add: vi_shared_def)
  then have "a \<notin> set (vs_vdevices s)" using add(5) by auto
  moreover have "vs_heap s0 a = None" using sh add(5) by (metis not_Some_eq vi_shared_def)
  moreover have "\<forall>b v. vs_heap s b = Some v \<longrightarrow> vi_id v \<noteq> int k \<and> int k \<noteq> vi_id v" using id by metis
  ultimately show ?thesis using sh add
    by (auto simp: vi_shared_def vi_list_add_def bit_simps vinput_zeroed_def VINPUT_MINORS_def
        split: if_splits)
next
  case (add_input dev a v i v' d)
  have "vs_inputs s0 i = None" using sh add_input(6) by (metis not_Some_eq vi_shared_def)
  with new(1)[of a] sh add_input show ?thesis by (auto simp: vi_shared_def split: if_splits)
next
  case (set_type dev a v i)
  with new(1)[of a] sh show ?thesis by (auto simp: vi_shared_def split: if_splits)
next
  case (init_failed a v i d err)
  with new(2)[of i] sh show ?thesis by (auto simp: vi_shared_def)
next
  case (init_done a v i d)
  with new(2)[of i] sh show ?thesis by (auto simp: vi_shared_def)
next
  case (free a v i err)
  with new(2)[of i] sh show ?thesis by (auto simp: vi_shared_def)
next
  case (drop a v w)
  have other: "vi_id u \<noteq> vi_id v" if "vs_heap s b = Some u" "b \<noteq> a" for b u
    using sh that drop(5) unfolding vi_shared_def by metis
  have "bit w (nat (vi_id u))" if "vs_heap s b = Some u" "b \<noteq> a" for b u
    using other[OF that] sh that drop(5,6) by (auto simp: vi_shared_def bit_simps nat_eq_iff)
  with new(1)[OF drop(3)] sh drop(1) show ?thesis
    by (auto simp: vi_shared_def split: if_splits)
qed

lemma vi_change_new:
  assumes "vi_change s pc s' pc'" and "vi_shared s0 s"
    and "\<And>a. pc_object pc = Some a \<Longrightarrow> vs_heap s0 a = None"
    and "\<And>i. pc_input pc = Some i \<Longrightarrow> vs_inputs s0 i = None"
  shows "(\<forall>a. pc_object pc' = Some a \<longrightarrow> vs_heap s0 a = None) \<and>
    (\<forall>i. pc_input pc' = Some i \<longrightarrow> vs_inputs s0 i = None)"
  using assms(1)
proof cases
  case (add dev a k)
  have "vs_heap s0 a = None" using assms(2) add(5) by (metis not_Some_eq vi_shared_def)
  with add assms(3,4) show ?thesis by auto
next
  case (add_input dev a v i v' d)
  have "vs_inputs s0 i = None" using assms(2) add_input(6) by (metis not_Some_eq vi_shared_def)
  with add_input assms(3,4) show ?thesis by auto
qed (use assms(3,4) in auto)

lemma vi_change_pc_ok:
  "vi_change s pc s' pc' \<Longrightarrow> vi_pc_ok s' pc'"
  by (induction rule: vi_change.induct) (auto simp: vi_list_add_def raw_input_def)

lemma vi_pc_ok_input: "vi_pc_ok s pc \<Longrightarrow> pc_input pc = Some i \<Longrightarrow> raw_input s i"
  by (cases pc) auto

lemma vi_pc_ok_object: "vi_pc_ok s pc \<Longrightarrow> pc_object pc = Some a \<Longrightarrow> \<exists>v. vs_heap s a = Some v"
  by (cases pc) auto

text \<open>What a task relies on is about its own object and input device only.\<close>

lemma vi_pc_ok_local:
  assumes "vi_pc_ok s pc" and "vs_devices s' = vs_devices s"
    and "\<And>a. pc_object pc = Some a \<Longrightarrow> vs_heap s' a = vs_heap s a"
    and "\<And>i. pc_input pc = Some i \<Longrightarrow> vs_inputs s' i = vs_inputs s i"
  shows "vi_pc_ok s' pc"
  using assms by (cases pc) (auto simp: raw_input_def)

lemma vi_change_elsewhere:
  assumes "vi_change s pc s' pc'"
  shows "vs_devices s' = vs_devices s"
    and "pc_object pc \<noteq> Some a \<Longrightarrow> vs_heap s a \<noteq> None \<Longrightarrow> vs_heap s' a = vs_heap s a"
    and "pc_input pc \<noteq> Some i \<Longrightarrow> vs_inputs s i \<noteq> None \<Longrightarrow> vs_inputs s' i = vs_inputs s i"
    and "pc_object pc' = Some a \<Longrightarrow> pc_object pc = Some a \<or> vs_heap s a = None"
    and "pc_input pc' = Some i \<Longrightarrow> pc_input pc = Some i \<or> vs_inputs s i = None"
  using assms by (induction rule: vi_change.induct) (auto simp: vi_list_add_def)

lemma vi_change_others:
  assumes ch: "vi_change s (vt_pc t) s' (vt_pc t')" and own: "vi_pc_ok s (vt_pc u)"
    and apart: "vi_apart t u"
  shows "vi_pc_ok s' (vt_pc u) \<and> vi_apart t' u"
proof -
  have obj: "\<exists>v. vs_heap s a = Some v" if "pc_object (vt_pc u) = Some a" for a
    by (rule vi_pc_ok_object[OF own that])
  have inp: "\<exists>d. vs_inputs s i = Some d" if "pc_input (vt_pc u) = Some i" for i
    using vi_pc_ok_input[OF own that] by (auto simp: raw_input_def)
  have "vi_pc_ok s' (vt_pc u)"
  proof (rule vi_pc_ok_local[OF own vi_change_elsewhere(1)[OF ch]])
    show "vs_heap s' a = vs_heap s a" if "pc_object (vt_pc u) = Some a" for a
      using vi_change_elsewhere(2)[OF ch, of a] obj[OF that] apart that by (auto simp: vi_apart_def)
    show "vs_inputs s' i = vs_inputs s i" if "pc_input (vt_pc u) = Some i" for i
      using vi_change_elsewhere(3)[OF ch, of i] inp[OF that] apart that by (auto simp: vi_apart_def)
  qed
  moreover have "vi_apart t' u"
    using vi_change_elsewhere(4,5)[OF ch] obj inp apart unfolding vi_apart_def by fastforce
  ultimately show ?thesis ..
qed

text \<open>The start may have devices already, and any number of tasks that are elsewhere.\<close>

definition vi_start :: "vinput_sys \<Rightarrow> (vinput_sys, vi_task) threads" where
  "vi_start s = \<lparr>th_shared = s, th_local = (\<lambda>_. \<lparr>vt_pc = ViUser, vt_len = 0, vt_ret = 0\<rparr>)\<rparr>"

definition vi_own_from :: "vinput_sys \<Rightarrow> vinput_sys \<Rightarrow> vi_task \<Rightarrow> bool" where
  "vi_own_from s0 s t \<longleftrightarrow> vinput_inv s0 \<and> vi_own s0 s t"

interpretation vi_exports: interference_free vi_step vi_export_only "vi_own_from s0" vi_apart for s0
proof
  fix act s t s' t'
  assume st: "vi_step act s t = Some (s', t')" "vi_export_only act" "vi_own_from s0 s t"
  then have inv: "vinput_inv s0" and own: "vi_own s0 s t" by (simp_all add: vi_own_from_def)
  note ch = vi_step_change[OF inv own st(2,1)]
  from own have o: "vi_shared s0 s" "\<And>a. pc_object (vt_pc t) = Some a \<Longrightarrow> vs_heap s0 a = None"
    "\<And>i. pc_input (vt_pc t) = Some i \<Longrightarrow> vs_inputs s0 i = None" by (auto simp: vi_own_def)
  note sh = vi_change_shared[OF ch o]
  from sh vi_change_new[OF ch o] vi_change_pc_ok[OF ch] inv show "vi_own_from s0 s' t'"
    by (simp add: vi_own_from_def vi_own_def)
  show "vi_own_from s0 s' u \<and> vi_apart t' u" if "vi_own_from s0 s u" "vi_apart t u" for u
    using vi_change_others[OF ch _ that(2)] that(1) sh by (auto simp: vi_own_from_def vi_own_def)
next
  show "vi_apart t u \<Longrightarrow> vi_apart u t" for t u by (auto simp: vi_apart_def)
qed

lemma vinput_inv_shared: "vinput_inv s \<Longrightarrow> vi_shared s s"
  unfolding vinput_inv_def vi_shared_def vinput_obj_ok_def by blast

lemma vi_start_own: "vinput_inv s \<Longrightarrow> vi_exports.all_own s (vi_start s)"
  by (simp add: vi_exports.all_own_def vi_start_def vi_own_from_def vi_own_def vinput_inv_shared vi_apart_def)

text \<open>
  An object that no task is setting up or giving up is complete: it has a registered type and a
  registered input device of its own; and no input device is without an object or a task.
\<close>

definition vi_settled :: "(nat \<Rightarrow> vi_task) \<Rightarrow> nat \<Rightarrow> bool" where
  "vi_settled ts a \<longleftrightarrow> (\<forall>k. pc_object (vt_pc (ts k)) \<noteq> Some a)"

definition vi_device_ok :: "vinput_sys \<Rightarrow> vinput \<Rightarrow> bool" where
  "vi_device_ok s v \<longleftrightarrow> vi_type v \<in> set (vs_devices s) \<and>
     (\<exists>d. vs_inputs s (vi_input v) = Some d \<and> in_registered d)"

definition vi_complete :: "vinput_sys \<Rightarrow> (nat \<Rightarrow> vi_task) \<Rightarrow> bool" where
  "vi_complete s ts \<longleftrightarrow>
     (\<forall>a v. vs_heap s a = Some v \<and> vi_settled ts a \<longrightarrow> vi_device_ok s v) \<and>
     (\<forall>a b v w. vs_heap s a = Some v \<and> vi_settled ts a \<and> vs_heap s b = Some w \<and> vi_settled ts b \<and>
        vi_input v = vi_input w \<longrightarrow> a = b) \<and>
     (\<forall>i d. vs_inputs s i = Some d \<longrightarrow> (\<exists>k. pc_input (vt_pc (ts k)) = Some i) \<or>
        (\<exists>a v. vs_heap s a = Some v \<and> vi_settled ts a \<and> vi_input v = i))"

lemma vi_completeI:
  assumes "\<And>a v. vs_heap s a = Some v \<Longrightarrow> vi_settled ts a \<Longrightarrow> vi_device_ok s v"
    and "\<And>a b v w. vs_heap s a = Some v \<Longrightarrow> vi_settled ts a \<Longrightarrow> vs_heap s b = Some w \<Longrightarrow>
      vi_settled ts b \<Longrightarrow> vi_input v = vi_input w \<Longrightarrow> a = b"
    and "\<And>i d. vs_inputs s i = Some d \<Longrightarrow> (\<exists>k. pc_input (vt_pc (ts k)) = Some i) \<or>
      (\<exists>a v. vs_heap s a = Some v \<and> vi_settled ts a \<and> vi_input v = i)"
  shows "vi_complete s ts"
  unfolding vi_complete_def
  apply (intro conjI)
  subgoal using assms(1) by blast
  subgoal using assms(2) by blast
  subgoal using assms(3) by blast
  done

lemma vi_settled_upd:
  "vi_settled (ts(k := t)) a \<longleftrightarrow>
    pc_object (vt_pc t) \<noteq> Some a \<and> (\<forall>j. j \<noteq> k \<longrightarrow> pc_object (vt_pc (ts j)) \<noteq> Some a)"
  by (auto simp: vi_settled_def)

text \<open>Settled objects and their input devices stay as they are, and none becomes settled but by \<open>init\<close>.\<close>

lemma vi_change_settled:
  assumes ch: "vi_change s (vt_pc (ts k)) s' (vt_pc t')" and pc: "vi_pc_ok s (vt_pc (ts k))"
    and co: "vi_complete s ts" and a: "vs_heap s' a = Some v" "vi_settled (ts(k := t')) a"
  shows "vs_heap s a = Some v \<and> vi_settled ts a \<and> vs_inputs s' (vi_input v) = vs_inputs s (vi_input v) \<or>
    vt_pc (ts k) = ExInit a (vi_input v) \<and> raw_input s (vi_input v) \<and> vi_device_ok s' v"
proof -
  have old: "vs_inputs s (vi_input w) \<noteq> None \<and> \<not> raw_input s (vi_input w)"
    if "vs_heap s b = Some w" "vi_settled ts b" for b w
    using co that by (fastforce simp: vi_complete_def vi_device_ok_def raw_input_def)
  have st: "vi_settled ts a" if "pc_object (vt_pc (ts k)) \<noteq> Some a"
    using a(2) that by (auto simp: vi_settled_upd) (auto simp: vi_settled_def)
  from ch show ?thesis
  proof cases
    case keep
    with a st show ?thesis by (auto simp: vi_settled_upd)
  next
    case (add dev b j)
    with a st show ?thesis by (auto simp: vi_settled_upd vi_list_add_def)
  next
    case (add_input dev b u i v' d)
    with a(2) have "b \<noteq> a" by (auto simp: vi_settled_upd)
    with a st add_input old[of a v] show ?thesis by auto
  next
    case (set_type dev b u i)
    with a(2) have "b \<noteq> a" by (auto simp: vi_settled_upd)
    with a st set_type show ?thesis by auto
  next
    case (init_failed b u i d err)
    with a(2) have "b \<noteq> a" by (auto simp: vi_settled_upd)
    with a st init_failed old[of a v] pc show ?thesis by auto
  next
    case (init_done b u i d)
    with a st old[of a v] show ?thesis by (cases "b = a") (auto simp: vi_device_ok_def)
  next
    case (free b u i err)
    with a(2) have "b \<noteq> a" by (auto simp: vi_settled_upd)
    with a st free old[of a v] pc show ?thesis by auto
  next
    case (drop b u w)
    with a st show ?thesis by (auto split: if_splits)
  qed
qed

lemma vi_complete_step:
  assumes ch: "vi_change s (vt_pc (ts k)) s' (vt_pc t')" and pc: "vi_pc_ok s (vt_pc (ts k))"
    and ap: "\<And>j. j \<noteq> k \<Longrightarrow> vi_apart (ts k) (ts j)" and co: "vi_complete s ts"
  shows "vi_complete s' (ts(k := t'))"
proof (rule vi_completeI)
  note settled = vi_change_settled[OF ch pc co]
  have dv: "vs_devices s' = vs_devices s" by (rule vi_change_elsewhere(1)[OF ch])
  fix a v
  assume a: "vs_heap s' a = Some v" "vi_settled (ts(k := t')) a"
  show "vi_device_ok s' v"
    using settled[OF a] co by (auto simp: vi_complete_def vi_device_ok_def dv)
  fix b w
  assume b: "vs_heap s' b = Some w" "vi_settled (ts(k := t')) b" and eq: "vi_input v = vi_input w"
  have raw: "\<not> raw_input s (vi_input u)" if "vs_heap s c = Some u" "vi_settled ts c" for c u
    using co that by (fastforce simp: vi_complete_def vi_device_ok_def raw_input_def)
  from settled[OF a] settled[OF b] eq raw show "a = b"
    using co unfolding vi_complete_def by (metis vi_pc.inject(6))
next
  fix i d
  assume i: "vs_inputs s' i = Some d"
  show "(\<exists>j. pc_input (vt_pc ((ts(k := t')) j)) = Some i) \<or>
    (\<exists>a v. vs_heap s' a = Some v \<and> vi_settled (ts(k := t')) a \<and> vi_input v = i)"
  proof (cases "vs_inputs s i")
    case None
    from ch i None show ?thesis
    proof cases
      case (add_input dev a v j v' e)
      with i None show ?thesis by (intro disjI1 exI[of _ k]) (auto split: if_splits)
    qed (use i None pc in \<open>auto simp: vi_list_add_def raw_input_def split: if_splits\<close>)
  next
    case (Some e)
    with co consider j where "pc_input (vt_pc (ts j)) = Some i"
      | a v where "vs_heap s a = Some v" "vi_settled ts a" "vi_input v = i"
      unfolding vi_complete_def by blast
    then show ?thesis
    proof cases
      case (1 j)
      show ?thesis
      proof (cases "j = k")
        case False
        with 1 show ?thesis by (intro disjI1 exI[of _ j]) simp
      next
        case True
        with 1 have k: "pc_input (vt_pc (ts k)) = Some i" by simp
        from ch show ?thesis
        proof cases
          case (init_done a v j d)
          then have "vi_settled (ts(k := t')) a"
            using ap by (auto simp: vi_settled_upd vi_apart_def)
          with init_done k show ?thesis by (intro disjI2 exI[of _ a] exI[of _ v]) auto
        qed (use k i in \<open>force intro!: disjI1 exI[of _ k]\<close>)+
      qed
    next
      case (2 a v)
      have "pc_object (vt_pc (ts j)) \<noteq> Some a" for j using 2(2) by (simp add: vi_settled_def)
      then have "vs_heap s' a = Some v" "vi_settled (ts(k := t')) a"
        using vi_change_elsewhere(2,4)[OF ch, of a] 2(1) by (auto simp: vi_settled_upd)
      with 2(3) show ?thesis by blast
    qed
  qed
qed

lemma vi_start_complete: "vinput_inv s \<Longrightarrow> vi_complete s (th_local (vi_start s))"
  unfolding vi_complete_def
  apply (intro conjI)
  subgoal using inv_obj[of s] by (auto simp: vi_device_ok_def vinput_obj_ok_def)
  subgoal using inv_unique[of s] by blast
  subgoal using inv_input_used[of s] by (fastforce simp: vi_start_def vi_settled_def)
  done

text \<open>Everything about a run of exports: the invariant of every task, and completeness.\<close>

lemma vi_run_exports:
  assumes inv: "vinput_inv s" and run: "threads_run vi_step (vi_start s) acts = Some c"
    and ok: "list_all (\<lambda>act. vi_export_only (snd act)) acts"
  shows "vi_exports.all_own s c \<and> vi_complete (th_shared c) (th_local c)"
proof -
  let ?P = "\<lambda>c. vi_exports.all_own s c \<and> vi_complete (th_shared c) (th_local c)"
  have "?P (vi_start s)"
    using vi_start_own[OF inv] vi_start_complete[OF inv] by (simp add: vi_start_def)
  from run ok this show ?thesis
  proof (rule threads_run_induct[where P = ?P])
    fix c i act g l
    assume P: "?P c" and ok: "vi_export_only act"
      and st: "vi_step act (th_shared c) (th_local c i) = Some (g, l)"
    from P have own: "vi_own s (th_shared c) (th_local c i)"
      and ap: "\<And>j. j \<noteq> i \<Longrightarrow> vi_apart (th_local c i) (th_local c j)"
      by (auto simp: vi_exports.all_own_def vi_own_from_def)
    have "vi_pc_ok (th_shared c) (vt_pc (th_local c i))" using own by (simp add: vi_own_def)
    from vi_complete_step[where ts = "th_local c" and k = i and t' = l,
        OF vi_step_change[OF inv own ok st] this ap] P
      vi_exports.all_own_step[OF _ ok st, of s]
    show "?P \<lparr>th_shared = g, th_local = (th_local c)(i := l)\<rparr>" by simp
  qed
qed

lemma vi_complete_inv:
  assumes inv: "vinput_inv s0" and sh: "vi_shared s0 s" and co: "vi_complete s ts"
    and user: "\<And>k. vt_pc (ts k) = ViUser"
  shows "vinput_inv s"
proof (rule vinput_invI)
  have st: "vi_settled ts a" for a by (simp add: vi_settled_def user)
  show "distinct (vs_devices s)" using inv sh by (simp add: vinput_inv_def vi_shared_def)
  show "\<exists>t. vs_types s d = Some t \<and> vinput_driver (vd_ops t)" if "d \<in> set (vs_devices s)" for d
    by (rule vi_shared_driver[OF inv sh that])
  show "distinct (vs_vdevices s)" "dom (vs_heap s) = set (vs_vdevices s)"
    using sh by (simp_all add: vi_shared_def)
  show "vinput_obj_ok s v" if "vs_heap s a = Some v" for a v
  proof -
    from that co st have "vi_device_ok s v" unfolding vi_complete_def by blast
    moreover from that sh have "0 \<le> vi_id v \<and> vi_id v < int VINPUT_MINORS \<and> bit (vs_ids s) (nat (vi_id v))"
      unfolding vi_shared_def by blast
    ultimately show ?thesis by (simp add: vinput_obj_ok_def vi_device_ok_def)
  qed
  show "a = b" if "vs_heap s a = Some v" "vs_heap s b = Some w"
    "vi_id v = vi_id w \<or> vi_input v = vi_input w" for a b v w
    using that(3)
  proof
    assume "vi_id v = vi_id w"
    with that(1,2) sh show ?thesis unfolding vi_shared_def by blast
  next
    assume "vi_input v = vi_input w"
    with that(1,2) co st show ?thesis unfolding vi_complete_def by blast
  qed
  show "\<exists>a v. vs_heap s a = Some v \<and> vi_input v = i" if "vs_inputs s i \<noteq> None" for i
    using that co user unfolding vi_complete_def by fastforce
qed

section \<open>Properties\<close>

text \<open>
  C3 (safety): however any number of exports interleave, with any failures of the kernel and of
  \<open>init\<close>, no task follows a bad pointer, no two devices have the same id, and the devices that there
  were stay as they were; and when no task is in the middle, every device is complete.
\<close>

theorem vinput_exports_interleave:
  assumes inv: "vinput_inv s" and run: "threads_run vi_step (vi_start s) acts = Some c"
    and ok: "list_all (\<lambda>act. vi_export_only (snd act)) acts"
  shows "(\<forall>k. vt_pc (th_local c k) \<noteq> ViOops) \<and>
    (\<forall>a b v w. vs_heap (th_shared c) a = Some v \<and> vs_heap (th_shared c) b = Some w \<and>
       vi_id v = vi_id w \<longrightarrow> a = b) \<and>
    (\<forall>a v. vs_heap s a = Some v \<longrightarrow> vs_heap (th_shared c) a = Some v) \<and>
    ((\<forall>k. vt_pc (th_local c k) = ViUser) \<longrightarrow> vinput_inv (th_shared c))"
proof -
  from vi_run_exports[OF inv run ok] have own: "vi_own s (th_shared c) (th_local c k)"
    and co: "vi_complete (th_shared c) (th_local c)" for k
    by (auto simp: vi_exports.all_own_def vi_own_from_def)
  have sh: "vi_shared s (th_shared c)" using own by (simp add: vi_own_def)
  have "vt_pc (th_local c k) \<noteq> ViOops" for k using own[of k] by (auto simp: vi_own_def)
  with vi_complete_inv[OF inv sh co] sh show ?thesis unfolding vi_shared_def by blast
qed

definition two_exports :: "(nat \<times> vi_action) list" where
  "two_exports = [(0, WriteExport (''vkbd'' @ [NUL]) 5), (1, WriteExport (''vkbd'' @ [NUL]) 5),
     (1, ViStep vkbd_env), (0, ViStep vkbd_env), (0, ViStep vkbd_env)]"

theorem vinput_exports_interleave_witness:
  "\<exists>c. threads_run vi_step (vi_start vkbd_loaded) two_exports = Some c \<and>
    vt_pc (th_local c 0) = ExInput 10 100 \<and> vt_pc (th_local c 1) = ExAlloc 10 \<and>
    (\<forall>k. vt_pc (th_local c k) \<noteq> ViOops)"
proof -
  have found: "vinput_get_device_by_type vkbd_loaded (''vkbd'' @ [NUL]) = Some (Inr 10)"
    using vinput_get_device_by_type_eq[OF vkbd_loaded_inv, of "''vkbd'' @ [NUL]"]
    by (simp only: vkbd_found option.case)
  have s: "vs_heap vkbd_loaded 100 = None" "vs_ids vkbd_loaded = 0"
    by (simp_all add: vkbd_loaded_eq vinput_sys_zero_def)
  have ok: "list_all (\<lambda>act. vi_export_only (snd act)) two_exports"
    by (simp add: two_exports_def vi_export_only_def)
  have "\<exists>c. threads_run vi_step (vi_start vkbd_loaded) two_exports = Some c \<and>
    vt_pc (th_local c 0) = ExInput 10 100 \<and> vt_pc (th_local c 1) = ExAlloc 10"
    using found s ffz_0
    by (simp add: two_exports_def vi_start_def threads_exec_def vi_step_simps vkbd_env_def Let_def
        VINPUT_MINORS_def)
  with vinput_exports_interleave[OF vkbd_loaded_inv _ ok] show ?thesis by blast
qed

text \<open>
  The steps of a task in a row, with the kernel's results of an environment that
  gives no address that is in use and no \<open>NULL\<close>, do what \<open>export_store\<close> does and return what it
  returns.
\<close>

lemma vinput_export_alone:
  assumes "fresh_env e s" and "no_null e"
  shows "vi_alone 9 e s \<lparr>vt_pc = ExFind buf, vt_len = len, vt_ret = r\<rparr> = export_store e s buf len"
  using vi_alone_export[OF assms, of "\<lparr>vt_pc = ExFind buf, vt_len = len, vt_ret = r\<rparr>"] by simp

lemma vinput_export_alone_witness:
  "vi_alone 9 vkbd_env vkbd_loaded \<lparr>vt_pc = ExFind ''vkbd'', vt_len = 4, vt_ret = 0\<rparr> =
    export_store vkbd_env vkbd_loaded ''vkbd'' 4"
proof -
  have "fresh_env vkbd_env vkbd_loaded" "no_null vkbd_env"
    by (simp_all add: fresh_env_def vkbd_env_def vkbd_loaded_eq vinput_sys_zero_def no_null_def)
  then show ?thesis by (rule vinput_export_alone)
qed

text \<open>Two unexports of the same id; an unexport in the middle of an export.\<close>

definition unexport_twice :: "int \<Rightarrow> export_env \<Rightarrow> (nat \<times> vi_action) list" where
  "unexport_twice ident e =
     [(0, WriteUnexport ident 1), (1, WriteUnexport ident 1), (0, ViStep e), (1, ViStep e),
      (0, ViStep e), (1, ViStep e)]"

definition unexport_new :: "char list \<Rightarrow> int \<Rightarrow> export_env \<Rightarrow> (nat \<times> vi_action) list" where
  "unexport_new buf ident e =
     [(0, WriteExport buf 1), (0, ViStep e), (0, ViStep e), (1, WriteUnexport ident 1),
      (1, ViStep e), (1, ViStep e)]"

lemma vinput_unregister_twice:
  assumes inv: "vinput_inv s" and a: "vs_heap s a = Some v"
  shows "\<exists>s1. vinput_unregister_vdevice s a = Some s1 \<and> vinput_unregister_vdevice s1 a = None"
proof -
  from inv_obj_driver[OF inv a] obtain t where
    t: "vs_types s (vi_type v) = Some t" "vinput_driver (vd_ops t)" by blast
  from inv_obj[OF inv a] obtain d where
    "vs_inputs s (vi_input v) = Some d" "in_registered d" by (auto simp: vinput_obj_ok_def)
  with a t vinput_driver.kill_keeps[OF t(2)] show ?thesis
    by (auto simp: vinput_unregister_vdevice_def input_unregister_device_def split: option.splits)
qed

text \<open>
  C35 (safety): an unexport is not safe from other tasks. When two unexports of the same id have both found
  the device before one of them removes it, the second unregisters an input device that is gone; and an
  unexport that comes when an export has put its object into the list, but has no input device
  yet, unregisters through a null pointer. (No input device is at address 0, and the export gets memory.)
\<close>

theorem vinput_unexport_races:
  assumes inv: "vinput_inv s" and null: "vs_inputs s 0 = None"
    and dev: "vinput_table s ident = Some dev"
    and ty: "vinput_find_type s buf = Some dev'" and a: "ret_kzalloc e = Some a" "a \<noteq> 0" "vs_heap s a = None"
    and k: "k = find_first_zero_bit (vs_ids s) VINPUT_MINORS" "k < VINPUT_MINORS"
  shows "(\<exists>c. threads_run vi_step (vi_start s) (unexport_twice ident e) = Some c \<and>
      vt_pc (th_local c 1) = ViOops) \<and>
    (\<exists>c. threads_run vi_step (vi_start s) (unexport_new buf (int k) e) = Some c \<and>
      vt_pc (th_local c 1) = ViOops)"
proof
  from dev obtain b v where b: "vs_heap s b = Some v" "vi_id v = ident"
    unfolding vinput_table_Some_iff[OF inv] by blast
  then have "vinput_lookup s ident = Some b" by (simp add: vinput_lookup_Some_iff[OF inv])
  then have get: "vinput_get_vdevice_by_id s ident = Some (Inr b)"
    by (simp add: vinput_get_vdevice_by_id_eq[OF inv])
  from vinput_unregister_twice[OF inv b(1)] obtain s1 where
    "vinput_unregister_vdevice s b = Some s1" "vinput_unregister_vdevice s1 b = None" by blast
  with get show "\<exists>c. threads_run vi_step (vi_start s) (unexport_twice ident e) = Some c \<and>
      vt_pc (th_local c 1) = ViOops"
    by (simp add: unexport_twice_def vi_start_def threads_exec_def vi_step_simps)
next
  let ?s = "vi_list_add s a k"
  have "vinput_get_device_by_type s buf = Some (Inr dev')"
    by (simp add: vinput_get_device_by_type_eq[OF inv] ty)
  moreover have "\<not> VINPUT_MINORS \<le> k" using k by simp
  moreover have "vinput_get_vdevice_by_id ?s (int k) = Some (Inr a)"
    by (simp add: vinput_get_vdevice_by_id_def vi_list_add_def)
  moreover have "vinput_unregister_vdevice ?s a = None"
    using null by (simp add: vinput_unregister_vdevice_def vi_list_add_def vinput_zeroed_def
        input_unregister_device_def)
  ultimately show "\<exists>c. threads_run vi_step (vi_start s) (unexport_new buf (int k) e) = Some c \<and>
      vt_pc (th_local c 1) = ViOops"
    using a by (simp add: unexport_new_def vi_start_def threads_exec_def vi_step_simps Let_def flip: k(1))
qed

theorem vinput_unexport_races_witness:
  "\<exists>c. threads_run vi_step (vi_start vkbd_one)
      (unexport_twice 0 (vkbd_env\<lparr>ret_kzalloc := Some 300\<rparr>)) = Some c \<and> vt_pc (th_local c 1) = ViOops"
proof -
  have t: "vinput_table vkbd_one 0 = Some 10"
    unfolding vinput_table_Some_iff[OF vkbd_one_inv] using vkbd_one_obj(1)
    by (intro exI[of _ 100] exI[of _ vkbd_obj]) (simp add: vkbd_obj_def)
  have "vs_ids vkbd_one = mask 1"
    by (simp add: vkbd_one_def vinput_add_def vkbd_loaded_eq vinput_sys_zero_def ffz_0 mask_eq_exp_minus_1
        set_bit_eq_or Let_def)
  then have k: "1 = find_first_zero_bit (vs_ids vkbd_one) VINPUT_MINORS" "1 < VINPUT_MINORS"
    using ffz_mask[of 1] by (simp_all add: VINPUT_MINORS_def)
  have i: "vs_inputs vkbd_one 0 = None" "vs_heap vkbd_one 300 = None"
    by (simp_all add: vkbd_one_def vinput_add_def vkbd_loaded_eq vinput_sys_zero_def Let_def)
  from vinput_unexport_races[OF vkbd_one_inv i(1) t vkbd_found_one, of "vkbd_env\<lparr>ret_kzalloc := Some 300\<rparr>" 300]
    i(2) k show ?thesis by auto
qed

end
