(* ===== verification/Hello.thy ===== *)
theory Hello
  imports LKM_Prelude
begin

text \<open>
  \<open>hello-1.c\<close> to \<open>hello-4.c\<close>, and \<open>start.c\<close> with \<open>stop.c\<close>, two files of one module: modules that
  write a line to the log when they are loaded and another when they are unloaded, and
  acquire nothing. The memory of \<open>__initdata\<close> is freed when the load function has returned.
\<close>

section \<open>State\<close>

text \<open>The log, and what is at \<open>hello3_data\<close> while its memory is there.\<close>

record hello =
  he_log :: "char list list"
  he_hello3_data :: "32 word option"

definition hello_zero :: hello where
  "hello_zero = \<lparr>he_log = [], he_hello3_data = Some 3\<rparr>"

definition hello_pr_info :: "char list \<Rightarrow> hello \<Rightarrow> hello" where
  "hello_pr_info line s = s\<lparr>he_log := he_log s @ [line]\<rparr>"

section \<open>Load and unload\<close>

text \<open>A load function gives its return value and the state, or \<open>None\<close> when it reads freed memory.\<close>

definition hello_1_init_module :: "hello \<Rightarrow> (int \<times> hello) option" where
  "hello_1_init_module s = Some (0, hello_pr_info (''Hello world 1.'' @ [NL]) s)"

definition hello_1_cleanup_module :: "hello \<Rightarrow> hello" where
  "hello_1_cleanup_module s = hello_pr_info (''Goodbye world 1.'' @ [NL]) s"

definition hello_2_init :: "hello \<Rightarrow> (int \<times> hello) option" where
  "hello_2_init s = Some (0, hello_pr_info (''Hello, world 2'' @ [NL]) s)"

definition hello_2_exit :: "hello \<Rightarrow> hello" where
  "hello_2_exit s = hello_pr_info (''Goodbye, world 2'' @ [NL]) s"

definition hello_3_init :: "hello \<Rightarrow> (int \<times> hello) option" where
  "hello_3_init s =
     do { hello3_data \<leftarrow> he_hello3_data s;
          Some (0, hello_pr_info (''Hello, world '' @ dec (sint hello3_data) @ [NL]) s) }"

definition hello_3_exit :: "hello \<Rightarrow> hello" where
  "hello_3_exit s = hello_pr_info (''Goodbye, world 3'' @ [NL]) s"

definition init_hello_4 :: "hello \<Rightarrow> (int \<times> hello) option" where
  "init_hello_4 s = Some (0, hello_pr_info (''Hello, world 4'' @ [NL]) s)"

definition cleanup_hello_4 :: "hello \<Rightarrow> hello" where
  "cleanup_hello_4 s = hello_pr_info (''Goodbye, world 4'' @ [NL]) s"

definition startstop_init_module :: "hello \<Rightarrow> (int \<times> hello) option" where
  "startstop_init_module s =
     Some (0, hello_pr_info (''Hello, world - this is the kernel speaking'' @ [NL]) s)"

definition startstop_cleanup_module :: "hello \<Rightarrow> hello" where
  "startstop_cleanup_module s = hello_pr_info (''Short is the life of a kernel module'' @ [NL]) s"

section \<open>Sessions\<close>

text \<open>A module is loaded, its init memory is freed, and it is unloaded if the load did not fail.\<close>

definition hello_session ::
    "(hello \<Rightarrow> (int \<times> hello) option) \<Rightarrow> (hello \<Rightarrow> hello) \<Rightarrow> hello \<Rightarrow> hello option" where
  "hello_session init_fn exit_fn s =
     do { (ret, s) \<leftarrow> init_fn s;
          let s = s\<lparr>he_hello3_data := None\<rparr>;
          Some (if ret = 0 then exit_fn s else s) }"

text \<open>
  The contract of these modules: loading succeeds, and a session adds two lines to the log.
\<close>

locale greeter =
  fixes init_fn :: "hello \<Rightarrow> (int \<times> hello) option" and exit_fn :: "hello \<Rightarrow> hello"
    and hi bye :: "char list"
  assumes says_hi: "he_hello3_data s = Some 3 \<Longrightarrow> init_fn s = Some (0, hello_pr_info hi s)"
    and says_bye: "exit_fn s = hello_pr_info bye s"
begin

lemma session_log:
  "he_hello3_data s = Some 3 \<Longrightarrow> map_option he_log (hello_session init_fn exit_fn s) = Some (he_log s @ [hi, bye])"
  by (simp add: hello_session_def says_hi says_bye hello_pr_info_def)

end

lemmas hello_defs = hello_1_init_module_def hello_1_cleanup_module_def hello_2_init_def hello_2_exit_def
  hello_3_init_def hello_3_exit_def init_hello_4_def cleanup_hello_4_def startstop_init_module_def
  startstop_cleanup_module_def

interpretation hello_1: greeter hello_1_init_module hello_1_cleanup_module
    "''Hello world 1.'' @ [NL]" "''Goodbye world 1.'' @ [NL]"
  by unfold_locales (simp_all add: hello_defs)

interpretation hello_2: greeter hello_2_init hello_2_exit
    "''Hello, world 2'' @ [NL]" "''Goodbye, world 2'' @ [NL]"
  by unfold_locales (simp_all add: hello_defs)

interpretation hello_3: greeter hello_3_init hello_3_exit
    "''Hello, world 3'' @ [NL]" "''Goodbye, world 3'' @ [NL]"
  by unfold_locales (simp_all add: hello_defs dec_def digits.simps[of 3] digit_values)

interpretation hello_4: greeter init_hello_4 cleanup_hello_4
    "''Hello, world 4'' @ [NL]" "''Goodbye, world 4'' @ [NL]"
  by unfold_locales (simp_all add: hello_defs)

interpretation startstop: greeter startstop_init_module startstop_cleanup_module
    "''Hello, world - this is the kernel speaking'' @ [NL]" "''Short is the life of a kernel module'' @ [NL]"
  by unfold_locales (simp_all add: hello_defs)

text \<open>Once the init memory is freed, \<open>hello_3_init\<close> would read through a stale address.\<close>

lemma hello_3_init_freed: "hello_3_init (s\<lparr>he_hello3_data := None\<rparr>) = None"
  by (simp add: hello_3_init_def)

end
