(* ===== verification/File_Operations.thy ===== *)
theory File_Operations
  imports User_Memory
begin

text \<open>
  The table \<open>struct file_operations\<close> that a character device gives to the kernel, the system calls
  that go through it, and the reference count that keeps a module loaded. The count is raised
  for an open file only when the table names the module as its \<open>owner\<close>: without one, the module
  can be unloaded below an open file, and every later call on the file jumps to where the
  functions were.
\<close>

section \<open>Tables\<close>

abbreviation (input) ENOENT :: int where "ENOENT \<equiv> 2"
abbreviation (input) ENXIO :: int where "ENXIO \<equiv> 6"
abbreviation (input) EBADF :: int where "EBADF \<equiv> 9"
abbreviation (input) EEXIST :: int where "EEXIST \<equiv> 17"
abbreviation (input) EMFILE :: int where "EMFILE \<equiv> 24"

text \<open>
  A member that a table does not assign is \<open>NULL\<close>, here \<open>None\<close>; \<open>fo_owner\<close> says whether \<open>owner\<close> is
  \<open>THIS_MODULE\<close>. The functions take what the kernel's functions return to them ('e), the module's
  variables, and the number of the file; those that move bytes take the buffer and the offset as well.
  They return \<open>None\<close> when the code follows a bad pointer or leaves an array.
\<close>

record ('e, 's) file_operations =
  fo_owner :: bool
  fo_open :: "('e \<Rightarrow> 's \<Rightarrow> nat \<Rightarrow> (int \<times> 's) option) option"
  fo_release :: "('s \<Rightarrow> nat \<Rightarrow> (int \<times> 's) option) option"
  fo_read :: "('e \<Rightarrow> 's \<Rightarrow> nat \<Rightarrow> umem \<Rightarrow> nat \<Rightarrow> nat \<Rightarrow> int \<Rightarrow> (int \<times> int \<times> 's) option) option"
  fo_write :: "('e \<Rightarrow> 's \<Rightarrow> nat \<Rightarrow> umem \<Rightarrow> nat \<Rightarrow> nat \<Rightarrow> int \<Rightarrow> (int \<times> int \<times> 's) option) option"
  fo_unlocked_ioctl :: "('e \<Rightarrow> 's \<Rightarrow> nat \<Rightarrow> umem \<Rightarrow> 32 word \<Rightarrow> 64 word \<Rightarrow> (int \<times> 's) option) option"

text \<open>What the file layer does through the table, with what it does when a member is \<open>NULL\<close>.\<close>

definition call_open :: "('e, 's) file_operations \<Rightarrow> 'e \<Rightarrow> 's \<Rightarrow> nat \<Rightarrow> (int \<times> 's) option" where
  "call_open fops e s f = (case fo_open fops of None \<Rightarrow> Some (0, s) | Some op \<Rightarrow> op e s f)"

definition call_release :: "('e, 's) file_operations \<Rightarrow> 's \<Rightarrow> nat \<Rightarrow> (int \<times> 's) option" where
  "call_release fops s f = (case fo_release fops of None \<Rightarrow> Some (0, s) | Some op \<Rightarrow> op s f)"

definition call_read ::
    "('e, 's) file_operations \<Rightarrow> 'e \<Rightarrow> 's \<Rightarrow> nat \<Rightarrow> umem \<Rightarrow> nat \<Rightarrow> nat \<Rightarrow> int \<Rightarrow> (int \<times> int \<times> 's) option" where
  "call_read fops e s f u a n pos =
     (case fo_read fops of None \<Rightarrow> Some (- EINVAL, pos, s) | Some op \<Rightarrow> op e s f u a n pos)"

definition call_write ::
    "('e, 's) file_operations \<Rightarrow> 'e \<Rightarrow> 's \<Rightarrow> nat \<Rightarrow> umem \<Rightarrow> nat \<Rightarrow> nat \<Rightarrow> int \<Rightarrow> (int \<times> int \<times> 's) option" where
  "call_write fops e s f u a n pos =
     (case fo_write fops of None \<Rightarrow> Some (- EINVAL, pos, s) | Some op \<Rightarrow> op e s f u a n pos)"

definition call_ioctl ::
    "('e, 's) file_operations \<Rightarrow> 'e \<Rightarrow> 's \<Rightarrow> nat \<Rightarrow> umem \<Rightarrow> 32 word \<Rightarrow> 64 word \<Rightarrow> (int \<times> 's) option" where
  "call_ioctl fops e s f u cmd arg =
     (case fo_unlocked_ioctl fops of None \<Rightarrow> Some (- ENOTTY, s) | Some op \<Rightarrow> op e s f u cmd arg)"

section \<open>System calls\<close>

text \<open>
  \<open>start\<close> is what the load function leaves in the module's variables.
  The state: the variables, whether the module is loaded and for the how manieth time, its reference count,
  and the open files: the load in which a file was opened, whose table it points to, and its position.
\<close>

record 's cdev_sys =
  cm_vars :: 's
  cm_loaded :: bool
  cm_load :: nat
  cm_refcnt :: nat
  cm_files :: "nat \<rightharpoonup> nat \<times> int"

definition cdev_boot :: "'s \<Rightarrow> 's cdev_sys" where
  "cdev_boot start = \<lparr>cm_vars = start, cm_loaded = False, cm_load = 0, cm_refcnt = 0, cm_files = Map.empty\<rparr>"

datatype 'e cdev_call =
    SysOpen 'e nat
  | SysRead 'e nat umem nat nat
  | SysWrite 'e nat umem nat nat
  | SysPread 'e nat umem nat nat int
  | SysPwrite 'e nat umem nat nat int
  | SysIoctl 'e nat umem "32 word" "64 word"
  | SysClose nat
  | Insmod
  | Rmmod

text \<open>
  A call on the file \<open>f\<close> goes through the table that the file points to: \<open>None\<close> when the module that
  the table was a part of is gone.
\<close>

definition on_file ::
    "'s cdev_sys \<Rightarrow> nat \<Rightarrow> (nat \<Rightarrow> int \<Rightarrow> (int \<times> 's cdev_sys) option) \<Rightarrow> (int \<times> 's cdev_sys) option" where
  "on_file c f k =
     (case cm_files c f of
        None \<Rightarrow> Some (- EBADF, c)
      | Some (l, pos) \<Rightarrow> if cm_loaded c \<and> l = cm_load c then k l pos else None)"

text \<open>
  A read or write keeps the new position only if it did not fail. \<open>pread\<close> and \<open>pwrite\<close> call the same
  functions at an offset that the process chooses, and leave the position of the file. A new file gets a number that is
  not in use. The reference of an owner is taken before \<open>open\<close> and dropped when that fails, or
  after \<open>release\<close>. \<open>rmmod\<close> is refused while there are references.
\<close>

fun sys_call :: "('e, 's) file_operations \<Rightarrow> 's \<Rightarrow> 's cdev_sys \<Rightarrow> 'e cdev_call \<Rightarrow> (int \<times> 's cdev_sys) option" where
  "sys_call fops start c (SysOpen e f) =
     (if cm_files c f \<noteq> None then Some (- EMFILE, c)
      else if \<not> cm_loaded c then Some (- ENXIO, c)
      else do { (r, s) \<leftarrow> call_open fops e (cm_vars c) f;
                let c = c\<lparr>cm_vars := s\<rparr>;
                Some (if r \<noteq> 0 then (r, c)
                      else (0, c\<lparr>cm_files := (cm_files c)(f \<mapsto> (cm_load c, 0)),
                                cm_refcnt := cm_refcnt c + (if fo_owner fops then 1 else 0)\<rparr>)) })"
| "sys_call fops start c (SysRead e f u a n) =
     on_file c f (\<lambda>l pos.
       do { (r, pos', s) \<leftarrow> call_read fops e (cm_vars c) f u a n pos;
            Some (r, c\<lparr>cm_vars := s,
              cm_files := (cm_files c)(f \<mapsto> (l, if 0 \<le> r then pos' else pos))\<rparr>) })"
| "sys_call fops start c (SysWrite e f u a n) =
     on_file c f (\<lambda>l pos.
       do { (r, pos', s) \<leftarrow> call_write fops e (cm_vars c) f u a n pos;
            Some (r, c\<lparr>cm_vars := s,
              cm_files := (cm_files c)(f \<mapsto> (l, if 0 \<le> r then pos' else pos))\<rparr>) })"
| "sys_call fops start c (SysPread e f u a n off) =
     (if off < 0 then Some (- EINVAL, c)
      else on_file c f (\<lambda>l pos.
        do { (r, pos', s) \<leftarrow> call_read fops e (cm_vars c) f u a n off; Some (r, c\<lparr>cm_vars := s\<rparr>) }))"
| "sys_call fops start c (SysPwrite e f u a n off) =
     (if off < 0 then Some (- EINVAL, c)
      else on_file c f (\<lambda>l pos.
        do { (r, pos', s) \<leftarrow> call_write fops e (cm_vars c) f u a n off; Some (r, c\<lparr>cm_vars := s\<rparr>) }))"
| "sys_call fops start c (SysIoctl e f u cmd arg) =
     on_file c f (\<lambda>l pos.
       do { (r, s) \<leftarrow> call_ioctl fops e (cm_vars c) f u cmd arg; Some (r, c\<lparr>cm_vars := s\<rparr>) })"
| "sys_call fops start c (SysClose f) =
     on_file c f (\<lambda>l pos.
       do { (r, s) \<leftarrow> call_release fops (cm_vars c) f;
            Some (0, c\<lparr>cm_vars := s, cm_files := (cm_files c)(f := None),
              cm_refcnt := cm_refcnt c - (if fo_owner fops then 1 else 0)\<rparr>) })"
| "sys_call fops start c Insmod =
     Some (if cm_loaded c then (- EEXIST, c)
           else (0, c\<lparr>cm_vars := start, cm_loaded := True, cm_load := Suc (cm_load c)\<rparr>))"
| "sys_call fops start c Rmmod =
     Some (if \<not> cm_loaded c then (- ENOENT, c)
           else if cm_refcnt c \<noteq> 0 then (- EAGAIN, c)
           else (0, c\<lparr>cm_loaded := False\<rparr>))"

text \<open>
  The states that any number of processes reach with calls that are \<open>ok\<close>, which is what a theorem
  about a module supposes of the calls.
\<close>

inductive cdev_reach ::
    "('e, 's) file_operations \<Rightarrow> 's \<Rightarrow> ('s cdev_sys \<Rightarrow> 'e cdev_call \<Rightarrow> bool) \<Rightarrow> 's cdev_sys \<Rightarrow> bool"
    for fops start ok where
  boot: "cdev_reach fops start ok (cdev_boot start)"
| call: "cdev_reach fops start ok c \<Longrightarrow> ok c call \<Longrightarrow> sys_call fops start c call = Some (r, c') \<Longrightarrow>
    cdev_reach fops start ok c'"

text \<open>
  A call is careful when it is one the module can take, and no \<open>rmmod\<close> below an open file, unless
  an owner guards against that.
\<close>

definition careful ::
    "('e, 's) file_operations \<Rightarrow> ('s \<Rightarrow> 'e cdev_call \<Rightarrow> bool) \<Rightarrow> 's cdev_sys \<Rightarrow> 'e cdev_call \<Rightarrow> bool" where
  "careful fops ok c call \<longleftrightarrow>
     ok (cm_vars c) call \<and> (call = Rmmod \<longrightarrow> fo_owner fops \<or> cm_files c = Map.empty)"

lemma careful_owned: "fo_owner fops \<Longrightarrow> careful fops ok = (\<lambda>c. ok (cm_vars c))"
  by (simp add: careful_def fun_eq_iff)

text \<open>The module is loaded, and a process opens a file.\<close>

definition cdev_opened :: "('e, 's) file_operations \<Rightarrow> 's \<Rightarrow> nat \<Rightarrow> 's cdev_sys" where
  "cdev_opened fops s f = \<lparr>cm_vars = s, cm_loaded = True, cm_load = 1,
     cm_refcnt = (if fo_owner fops then 1 else 0), cm_files = [f \<mapsto> (1, 0)]\<rparr>"

lemma cdev_reach_opened:
  assumes "call_open fops e start f = Some (0, s)" and "\<And>c. ok c Insmod"
    and "\<And>c. cm_vars c = start \<Longrightarrow> ok c (SysOpen e f)"
  shows "cdev_reach fops start ok (cdev_opened fops s f)"
proof (rule cdev_reach.call[OF cdev_reach.call[OF cdev_reach.boot]])
  let ?c = "\<lparr>cm_vars = start, cm_loaded = True, cm_load = 1, cm_refcnt = 0, cm_files = Map.empty\<rparr>"
  show "ok (cdev_boot start) Insmod" by (rule assms(2))
  show "sys_call fops start (cdev_boot start) Insmod = Some (0, ?c)" by (simp add: cdev_boot_def)
  show "ok ?c (SysOpen e f)" by (rule assms(3)) simp
  show "sys_call fops start ?c (SysOpen e f) = Some (0, cdev_opened fops s f)"
    using assms(1) by (simp add: cdev_opened_def)
qed

text \<open>
  What a table with an owner promises: whatever calls that are \<open>ok\<close> the processes and the administrator
  make, no call that is \<open>ok\<close> goes wrong, and \<open>rmmod\<close> unloads the module exactly when no file is open.
\<close>

definition held_by_files ::
    "('e, 's) file_operations \<Rightarrow> 's \<Rightarrow> ('s \<Rightarrow> 'e cdev_call \<Rightarrow> bool) \<Rightarrow> bool" where
  "held_by_files fops start ok \<longleftrightarrow>
     (\<forall>c. cdev_reach fops start (\<lambda>c. ok (cm_vars c)) c \<longrightarrow>
       (\<forall>call. ok (cm_vars c) call \<longrightarrow> sys_call fops start c call \<noteq> None) \<and>
       (cm_loaded c \<longrightarrow>
         (\<exists>r c'. sys_call fops start c Rmmod = Some (r, c') \<and> (r = 0 \<longleftrightarrow> cm_files c = Map.empty))))"

text \<open>
  What happens without one: all is well as long as the administrator waits for the files to be closed,
  but \<open>rmmod\<close> below an open file succeeds, and then every call on the file goes wrong, the
  close included, even after the module is loaded again.
\<close>

definition uses_file :: "nat \<Rightarrow> 'e cdev_call \<Rightarrow> bool" where
  "uses_file f call \<longleftrightarrow>
     (case call of SysRead e g u a n \<Rightarrow> g = f | SysWrite e g u a n \<Rightarrow> g = f
      | SysPread e g u a n off \<Rightarrow> g = f \<and> 0 \<le> off | SysPwrite e g u a n off \<Rightarrow> g = f \<and> 0 \<le> off
      | SysIoctl e g u cmd arg \<Rightarrow> g = f | SysClose g \<Rightarrow> g = f | _ \<Rightarrow> False)"

definition dropped_by_rmmod ::
    "('e, 's) file_operations \<Rightarrow> 's \<Rightarrow> ('s \<Rightarrow> 'e cdev_call \<Rightarrow> bool) \<Rightarrow> bool" where
  "dropped_by_rmmod fops start ok \<longleftrightarrow>
     (\<forall>c. cdev_reach fops start (careful fops ok) c \<longrightarrow>
       (\<forall>call. careful fops ok c call \<longrightarrow> sys_call fops start c call \<noteq> None) \<and>
       (\<forall>f. cm_files c f \<noteq> None \<longrightarrow>
         (\<exists>c' c''. sys_call fops start c Rmmod = Some (0, c') \<and> sys_call fops start c' Insmod = Some (0, c'') \<and>
           (\<forall>call. uses_file f call \<longrightarrow>
             sys_call fops start c' call = None \<and> sys_call fops start c'' call = None))))"

section \<open>Modules behind a table\<close>

text \<open>
  The contract of a module with the file layer: its functions keep \<open>good\<close>, which is about the
  open files and the variables, and leave the offset \<open>pos_ok\<close>. \<open>ok\<close> is what the module needs of a
  call beyond that, for \<open>pread\<close> and \<open>pwrite\<close> of the offset too.
\<close>

locale char_module =
  fixes fops :: "('e, 's) file_operations" and start :: 's
    and good :: "nat set \<Rightarrow> 's \<Rightarrow> bool" and pos_ok :: "int \<Rightarrow> bool"
    and ok :: "'s \<Rightarrow> 'e cdev_call \<Rightarrow> bool"
  assumes good_start: "good {} start"
    and pos_start: "pos_ok 0"
    and open_good: "good F s \<Longrightarrow> f \<notin> F \<Longrightarrow> ok s (SysOpen e f) \<Longrightarrow>
      \<exists>r s'. call_open fops e s f = Some (r, s') \<and> good (if r = 0 then insert f F else F) s'"
    and release_good: "good F s \<Longrightarrow> f \<in> F \<Longrightarrow>
      \<exists>r s'. call_release fops s f = Some (r, s') \<and> good (F - {f}) s'"
    and read_good: "good F s \<Longrightarrow> f \<in> F \<Longrightarrow>
      pos_ok pos \<and> ok s (SysRead e f u a n) \<or> 0 \<le> pos \<and> ok s (SysPread e f u a n pos) \<Longrightarrow>
      \<exists>r pos' s'. call_read fops e s f u a n pos = Some (r, pos', s') \<and> good F s' \<and>
        (pos_ok pos \<longrightarrow> pos_ok pos')"
    and write_good: "good F s \<Longrightarrow> f \<in> F \<Longrightarrow>
      pos_ok pos \<and> ok s (SysWrite e f u a n) \<or> 0 \<le> pos \<and> ok s (SysPwrite e f u a n pos) \<Longrightarrow>
      \<exists>r pos' s'. call_write fops e s f u a n pos = Some (r, pos', s') \<and> good F s' \<and>
        (pos_ok pos \<longrightarrow> pos_ok pos')"
    and ioctl_good: "good F s \<Longrightarrow> f \<in> F \<Longrightarrow> ok s (SysIoctl e f u cmd arg) \<Longrightarrow>
      \<exists>r s'. call_ioctl fops e s f u cmd arg = Some (r, s') \<and> good F s'"
begin

abbreviation careful_call :: "'s cdev_sys \<Rightarrow> 'e cdev_call \<Rightarrow> bool" where
  "careful_call \<equiv> careful fops ok"

definition files_ok :: "'s cdev_sys \<Rightarrow> bool" where
  "files_ok c \<longleftrightarrow> finite (dom (cm_files c)) \<and> (cm_loaded c \<longrightarrow> good (dom (cm_files c)) (cm_vars c)) \<and>
     (\<forall>f l pos. cm_files c f = Some (l, pos) \<longrightarrow> cm_loaded c \<and> l = cm_load c \<and> pos_ok pos) \<and>
     cm_refcnt c = (if fo_owner fops then card (dom (cm_files c)) else 0)"

lemma files_ok_boot: "files_ok (cdev_boot start)"
  by (simp add: files_ok_def cdev_boot_def)

lemma on_file_ok:
  assumes c: "files_ok c"
    and k: "\<And>l pos. cm_files c f = Some (l, pos) \<Longrightarrow> l = cm_load c \<Longrightarrow> cm_loaded c \<Longrightarrow> pos_ok pos \<Longrightarrow>
      good (dom (cm_files c)) (cm_vars c) \<Longrightarrow> f \<in> dom (cm_files c) \<Longrightarrow>
      \<exists>r c'. k l pos = Some (r, c') \<and> files_ok c'"
  shows "\<exists>r c'. on_file c f k = Some (r, c') \<and> files_ok c'"
proof (cases "cm_files c f")
  case None
  with c show ?thesis by (simp add: on_file_def)
next
  case (Some lp)
  obtain l pos where lp: "lp = (l, pos)" by (cases lp)
  from c Some lp have l: "cm_loaded c" "l = cm_load c" "pos_ok pos" by (auto simp: files_ok_def)
  with c have "good (dom (cm_files c)) (cm_vars c)" by (simp add: files_ok_def)
  moreover have "f \<in> dom (cm_files c)" using Some by auto
  ultimately show ?thesis using k[of l pos] l Some lp by (auto simp: on_file_def)
qed

lemma files_ok_vars: "files_ok c \<Longrightarrow> good (dom (cm_files c)) s \<Longrightarrow> files_ok (c\<lparr>cm_vars := s\<rparr>)"
  by (simp add: files_ok_def)

lemma files_ok_unloaded: "files_ok c \<Longrightarrow> \<not> cm_loaded c \<Longrightarrow> cm_files c = Map.empty"
  by (intro ext) (metis files_ok_def not_Some_eq surj_pair)

text \<open>A call that moves bytes keeps the file, with a new position.\<close>

lemma files_ok_move:
  assumes c: "files_ok c" and f: "cm_files c f = Some (l, pos)"
    and s: "good (dom (cm_files c)) s" and p: "pos_ok pos'"
  shows "files_ok (c\<lparr>cm_vars := s, cm_files := (cm_files c)(f \<mapsto> (l, pos'))\<rparr>)"
proof -
  have d: "dom ((cm_files c)(f \<mapsto> (l, pos'))) = dom (cm_files c)" using f by auto
  from c f have l: "cm_loaded c" "l = cm_load c" by (auto simp: files_ok_def)
  with c s p d[unfolded l(2)] show ?thesis by (auto simp: files_ok_def simp del: dom_fun_upd)
qed

lemma on_file_move:
  assumes c: "files_ok c"
    and op: "\<And>pos. good (dom (cm_files c)) (cm_vars c) \<Longrightarrow> f \<in> dom (cm_files c) \<Longrightarrow> pos_ok pos \<Longrightarrow>
      \<exists>r pos' s'. op pos = Some (r, pos', s') \<and> good (dom (cm_files c)) s' \<and> (pos_ok pos \<longrightarrow> pos_ok pos')"
  shows "\<exists>r c'. on_file c f (\<lambda>l pos. do { (r, pos', s) \<leftarrow> op pos;
      Some (r, c\<lparr>cm_vars := s, cm_files := (cm_files c)(f \<mapsto> (l, if 0 \<le> r then pos' else pos))\<rparr>) }) =
    Some (r, c') \<and> files_ok c'"
proof (rule on_file_ok[OF c])
  fix l pos
  assume f: "cm_files c f = Some (l, pos)" and pos: "pos_ok pos"
    and g: "good (dom (cm_files c)) (cm_vars c)" "f \<in> dom (cm_files c)"
  from op[OF g pos] obtain r pos' s' where
    o: "op pos = Some (r, pos', s')" "good (dom (cm_files c)) s'" "pos_ok pos'" using pos by blast
  have "pos_ok (if 0 \<le> r then pos' else pos)" using o pos by simp
  from files_ok_move[OF c f o(2) this] o(1)
  show "\<exists>r c'. (do { (r, pos', s) \<leftarrow> op pos;
      Some (r, c\<lparr>cm_vars := s, cm_files := (cm_files c)(f \<mapsto> (l, if 0 \<le> r then pos' else pos))\<rparr>) }) =
    Some (r, c') \<and> files_ok c'" by simp
qed

lemma on_file_at:
  assumes c: "files_ok c"
    and op: "good (dom (cm_files c)) (cm_vars c) \<Longrightarrow> f \<in> dom (cm_files c) \<Longrightarrow>
      \<exists>r pos' s'. op = Some (r, pos', s') \<and> good (dom (cm_files c)) s' \<and> Q pos'"
  shows "\<exists>r c'. on_file c f (\<lambda>l pos. do { (r, pos', s) \<leftarrow> op; Some (r, c\<lparr>cm_vars := s\<rparr>) }) =
    Some (r, c') \<and> files_ok c'"
proof (rule on_file_ok[OF c])
  assume g: "good (dom (cm_files c)) (cm_vars c)" "f \<in> dom (cm_files c)"
  from op[OF g] files_ok_vars[OF c]
  show "\<exists>r c'. (do { (r, pos', s) \<leftarrow> op; Some (r, c\<lparr>cm_vars := s\<rparr>) }) = Some (r, c') \<and> files_ok c'"
    by fastforce
qed

lemma sys_call_ok:
  assumes c: "files_ok c" and call: "careful_call c call"
  shows "\<exists>r c'. sys_call fops start c call = Some (r, c') \<and> files_ok c'"
proof (cases call)
  case (SysOpen e f)
  show ?thesis
  proof (cases "cm_files c f = None \<and> cm_loaded c")
    case True
    then have f: "f \<notin> dom (cm_files c)" by auto
    from True c have "good (dom (cm_files c)) (cm_vars c)" by (simp add: files_ok_def)
    from open_good[OF this f, of e] call SysOpen obtain r s' where
      o: "call_open fops e (cm_vars c) f = Some (r, s')"
        "good (if r = 0 then insert f (dom (cm_files c)) else dom (cm_files c)) s'"
      by (auto simp: careful_def)
    have "card (insert f (dom (cm_files c))) = Suc (card (dom (cm_files c)))"
      using c f by (simp add: files_ok_def)
    with o True c SysOpen pos_start show ?thesis by (cases "r = 0") (auto simp: files_ok_def)
  next
    case False
    with c SysOpen show ?thesis by auto
  qed
next
  case (SysRead e f u a n)
  have "ok (cm_vars c) (SysRead e f u a n)" using call SysRead by (simp add: careful_def)
  from on_file_move[OF c read_good[OF _ _ disjI1[OF conjI[OF _ this]]]] SysRead show ?thesis by simp
next
  case (SysWrite e f u a n)
  have "ok (cm_vars c) (SysWrite e f u a n)" using call SysWrite by (simp add: careful_def)
  from on_file_move[OF c write_good[OF _ _ disjI1[OF conjI[OF _ this]]]] SysWrite show ?thesis by simp
next
  case (SysPread e f u a n off)
  have "ok (cm_vars c) (SysPread e f u a n off)" using call SysPread by (simp add: careful_def)
  from on_file_at[OF c read_good[OF _ _ disjI2[OF conjI[OF _ this]]]] SysPread c show ?thesis by simp
next
  case (SysPwrite e f u a n off)
  have "ok (cm_vars c) (SysPwrite e f u a n off)" using call SysPwrite by (simp add: careful_def)
  from on_file_at[OF c write_good[OF _ _ disjI2[OF conjI[OF _ this]]]] SysPwrite c show ?thesis by simp
next
  case (SysIoctl e f u cmd arg)
  have "ok (cm_vars c) (SysIoctl e f u cmd arg)" using call SysIoctl by (simp add: careful_def)
  note ioctl = ioctl_good[OF _ _ this]
  have "\<exists>r c'. on_file c f (\<lambda>l pos. do { (r, s) \<leftarrow> call_ioctl fops e (cm_vars c) f u cmd arg;
      Some (r, c\<lparr>cm_vars := s\<rparr>) }) = Some (r, c') \<and> files_ok c'"
  proof (rule on_file_ok[OF c])
    assume g: "good (dom (cm_files c)) (cm_vars c)" "f \<in> dom (cm_files c)"
    from ioctl[OF g] files_ok_vars[OF c] show "\<exists>r c'. (do { (r, s) \<leftarrow> call_ioctl fops e (cm_vars c) f u cmd arg;
      Some (r, c\<lparr>cm_vars := s\<rparr>) }) = Some (r, c') \<and> files_ok c'" by fastforce
  qed
  with SysIoctl show ?thesis by simp
next
  case (SysClose f)
  have "\<exists>r c'. on_file c f (\<lambda>l pos.
       do { (r, s) \<leftarrow> call_release fops (cm_vars c) f;
            Some (0, c\<lparr>cm_vars := s, cm_files := (cm_files c)(f := None),
              cm_refcnt := cm_refcnt c - (if fo_owner fops then 1 else 0)\<rparr>) }) = Some (r, c') \<and> files_ok c'"
  proof (rule on_file_ok[OF c])
    assume f: "f \<in> dom (cm_files c)" and g: "good (dom (cm_files c)) (cm_vars c)"
    from release_good[OF g f] obtain r s' where
      "call_release fops (cm_vars c) f = Some (r, s')" "good (dom (cm_files c) - {f}) s'" by blast
    moreover have "card (dom (cm_files c) - {f}) = card (dom (cm_files c)) - 1"
      using c f by (simp add: files_ok_def)
    ultimately show "\<exists>r c'. (do { (r, s) \<leftarrow> call_release fops (cm_vars c) f;
            Some (0 :: int, c\<lparr>cm_vars := s, cm_files := (cm_files c)(f := None),
              cm_refcnt := cm_refcnt c - (if fo_owner fops then 1 else 0)\<rparr>) }) = Some (r, c') \<and> files_ok c'"
      using c by (auto simp: files_ok_def split: if_splits)
  qed
  with SysClose show ?thesis by simp
next
  case Insmod
  with c good_start files_ok_unloaded[OF c] show ?thesis by (auto simp: files_ok_def)
next
  case Rmmod
  show ?thesis
  proof (cases "cm_loaded c \<and> cm_refcnt c = 0")
    case True
    have "fo_owner fops \<Longrightarrow> card (dom (cm_files c)) = 0" "finite (dom (cm_files c))"
      using c True by (simp_all add: files_ok_def)
    then have "fo_owner fops \<Longrightarrow> dom (cm_files c) = {}" by (metis card_0_eq)
    then have "cm_files c = Map.empty" using call Rmmod by (auto simp: careful_def)
    with c Rmmod True show ?thesis by (simp add: files_ok_def)
  next
    case False
    with c Rmmod show ?thesis by auto
  qed
qed

lemma reach_ok:
  assumes "cdev_reach fops start careful_call c"
  shows "files_ok c"
  using assms
proof induction
  case boot
  show ?case by (rule files_ok_boot)
next
  case (call c call r c')
  with sys_call_ok[of c call] show ?case by auto
qed

text \<open>No careful call goes wrong.\<close>

lemma reach_safe:
  assumes "cdev_reach fops start careful_call c" and "careful_call c call"
  shows "sys_call fops start c call \<noteq> None"
  using sys_call_ok[OF reach_ok[OF assms(1)] assms(2)] by auto

text \<open>The variables of a loaded module keep what is good for its open files.\<close>

lemma reach_good:
  "cdev_reach fops start careful_call c \<Longrightarrow> cm_loaded c \<Longrightarrow> good (dom (cm_files c)) (cm_vars c)"
  using reach_ok by (simp add: files_ok_def)

lemma reach_loaded: "cdev_reach fops start careful_call c \<Longrightarrow> cm_files c f \<noteq> None \<Longrightarrow> cm_loaded c"
  using reach_ok[of c] by (auto simp: files_ok_def)

lemma reach_refcnt: "cdev_reach fops start careful_call c \<Longrightarrow> \<not> fo_owner fops \<Longrightarrow> cm_refcnt c = 0"
  using reach_ok[of c] by (simp add: files_ok_def)

lemma held:
  assumes o: "fo_owner fops"
  shows "held_by_files fops start ok"
  unfolding held_by_files_def careful_owned[OF o, of ok, symmetric]
proof (intro allI impI conjI)
  fix c call
  assume r: "cdev_reach fops start careful_call c"
  show "sys_call fops start c call \<noteq> None" if "ok (cm_vars c) call"
    using that o by (intro reach_safe[OF r]) (simp add: careful_def)
  from reach_ok[OF r] o have "cm_refcnt c = card (dom (cm_files c))" "finite (dom (cm_files c))"
    by (simp_all add: files_ok_def)
  then show "\<exists>r c'. sys_call fops start c Rmmod = Some (r, c') \<and> (r = 0 \<longleftrightarrow> cm_files c = Map.empty)"
    if "cm_loaded c" using that by auto
qed

lemma dropped:
  assumes o: "\<not> fo_owner fops"
  shows "dropped_by_rmmod fops start ok"
  unfolding dropped_by_rmmod_def
proof (intro allI impI conjI)
  fix c call
  assume r: "cdev_reach fops start careful_call c"
  show "sys_call fops start c call \<noteq> None" if "careful_call c call" by (rule reach_safe[OF r that])
  fix f
  assume f: "cm_files c f \<noteq> None"
  let ?c = "c\<lparr>cm_loaded := False\<rparr>"
  let ?d = "c\<lparr>cm_vars := start, cm_loaded := True, cm_load := Suc (cm_load c)\<rparr>"
  from f reach_ok[OF r] o have c: "cm_loaded c" "cm_refcnt c = 0" "\<And>l pos. cm_files c f = Some (l, pos) \<Longrightarrow> l = cm_load c"
    by (auto simp: files_ok_def)
  have "sys_call fops start ?c call = None \<and> sys_call fops start ?d call = None" if "uses_file f call" for call
    using that f c by (cases call) (auto simp: uses_file_def on_file_def split: option.splits)
  with c show "\<exists>c' c''. sys_call fops start c Rmmod = Some (0, c') \<and> sys_call fops start c' Insmod = Some (0, c'') \<and>
      (\<forall>call. uses_file f call \<longrightarrow> sys_call fops start c' call = None \<and> sys_call fops start c'' call = None)"
    by (intro exI[of _ ?c] exI[of _ ?d]) simp
qed

end

end
