(* ===== verification/Char_Devices.thy ===== *)
theory Char_Devices
  imports File_Operations Static_Key Ioctl_Test Dht11 Debugfs_File
begin

text \<open>
  The tables of the character devices, and that of the file of debugfs, which is opened through its
  table too, and what the file layer makes of them. \<open>static_key.c\<close>, \<open>ioctl.c\<close>, \<open>hello-debugfs-file.c\<close>,
  \<open>dht11.c\<close> and, for kernels before 6.4, \<open>led.c\<close> name the module as the owner of their files, which
  keeps it loaded below them. \<open>chardev.c\<close>, \<open>chardev2.c\<close> and, from 6.4 on, \<open>led.c\<close> do not. A read
  or write goes on at the position of the file, so that the functions that do not check the
  offset stay in their arrays; with \<open>pread\<close> a process takes them anywhere.
\<close>

section \<open>Tables\<close>

text \<open>The user memory after a call is the subject of the theories of the devices.\<close>

definition drop_mem :: "(int \<times> int \<times> umem) option \<Rightarrow> 's \<Rightarrow> (int \<times> int \<times> 's) option" where
  "drop_mem x s = map_option (\<lambda>(r, off, u). (r, off, s)) x"

definition chardev_fops :: "(unit, chardev) file_operations" where
  "chardev_fops =
     \<lparr>fo_owner = False,
      fo_open = Some (\<lambda>_ s f. chardev_open s),
      fo_release = Some (\<lambda>s f. Some (chardev_release s)),
      fo_read = Some (\<lambda>_ s f u a n off. drop_mem (chardev_read s u a n off) s),
      fo_write = Some (\<lambda>_ s f u a n off. case chardev_write s u a n off of (r, s) \<Rightarrow> Some (r, off, s)),
      fo_unlocked_ioctl = None\<rparr>"

definition chardev2_fops :: "(unit, chardev2) file_operations" where
  "chardev2_fops =
     \<lparr>fo_owner = False,
      fo_open = Some (\<lambda>_ s f. Some (chardev2_open s)),
      fo_release = Some (\<lambda>s f. Some (chardev2_release s)),
      fo_read = Some (\<lambda>_ s f u a n off. drop_mem (chardev2_read s u a n off) s),
      fo_write = Some (\<lambda>_ s f u a n off. map_option (\<lambda>(r, s). (r, off, s)) (chardev2_write s u a n)),
      fo_unlocked_ioctl = Some (\<lambda>_ s f u cmd arg.
        map_option (\<lambda>(r, s, u). (r, s)) (chardev2_ioctl s u cmd (unat arg)))\<rparr>"

text \<open>\<open>stack\<close> is what the array \<open>command\<close> holds before the copy.\<close>

definition static_key_fops :: "(not_copied \<times> char list, static_key) file_operations" where
  "static_key_fops =
     \<lparr>fo_owner = True,
      fo_open = Some (\<lambda>_ s f. static_key_open s),
      fo_release = Some (\<lambda>s f. Some (static_key_release s)),
      fo_read = Some (\<lambda>_ s f u a n off. drop_mem (static_key_read s u a n off) s),
      fo_write = Some (\<lambda>(nc, stack) s f u a n off.
        map_option (\<lambda>(r, s). (r, off, s)) (static_key_write nc stack s u a n)),
      fo_unlocked_ioctl = None\<rparr>"

text \<open>
  \<open>old\<close> selects the program for kernels before 6.4. The owner of the \<open>struct cdev\<close> is assigned under the
  same condition, in \<open>dht11.c\<close> always; the kernel holds the module for either owner.
\<close>

definition led_fops :: "bool \<Rightarrow> (not_copied, led) file_operations" where
  "led_fops old =
     \<lparr>fo_owner = old,
      fo_open = Some (\<lambda>_ s f. Some (led_open s)),
      fo_release = Some (\<lambda>s f. Some (led_release s)),
      fo_read = None,
      fo_write = Some (\<lambda>nc s f u a n off. led_write nc s u a n off),
      fo_unlocked_ioctl = None\<rparr>"

definition dht11_fops :: "((nat \<Rightarrow> bool \<Rightarrow> nat \<Rightarrow> bool) \<times> not_copied, dht11) file_operations" where
  "dht11_fops =
     \<lparr>fo_owner = True,
      fo_open = Some (\<lambda>(sensors, nc) s f. dht11_open sensors s),
      fo_release = Some (\<lambda>s f. Some (dht11_release s)),
      fo_read = Some (\<lambda>(sensors, nc) s f u a n off. drop_mem (dht11_read nc s u a n off) s),
      fo_write = None,
      fo_unlocked_ioctl = None\<rparr>"

definition ioctl_fops :: "(nat option \<times> not_copied, ioctl_sys) file_operations" where
  "ioctl_fops =
     \<lparr>fo_owner = True,
      fo_open = Some (\<lambda>(kmalloc, nc) s f. Some (test_ioctl_open kmalloc s f)),
      fo_release = Some (\<lambda>s f. test_ioctl_close s f),
      fo_read = Some (\<lambda>(kmalloc, nc) s f u a n off.
        map_option (\<lambda>(r, u). (r, off, s)) (test_ioctl_read nc s f u a n)),
      fo_write = None,
      fo_unlocked_ioctl = Some (\<lambda>(kmalloc, nc) s f u cmd arg.
        map_option (\<lambda>(r, s, u). (r, s)) (test_ioctl_ioctl nc s f u cmd arg))\<rparr>"

text \<open>The functions of libfs are what the kernel does for a call. They take any offset, so seeking needs no call of its own.\<close>

definition message_fops :: "(simple_read \<times> simple_write, debugfs_file) file_operations" where
  "message_fops =
     \<lparr>fo_owner = True,
      fo_open = None,
      fo_release = None,
      fo_read = Some (\<lambda>(srb, swb) s f u a n off. drop_mem (message_read srb s u a n off) s),
      fo_write = Some (\<lambda>(srb, swb) s f u a n off. message_write swb s u a n off),
      fo_unlocked_ioctl = None\<rparr>"

lemmas fops_simps = call_open_def call_release_def call_read_def call_write_def call_ioctl_def
  drop_mem_def chardev_fops_def chardev2_fops_def static_key_fops_def led_fops_def dht11_fops_def
  ioctl_fops_def message_fops_def

section \<open>The modules keep the contract\<close>

text \<open>A device that one file at a time may have: busy exactly while there is one.\<close>

definition one_open :: "bool \<Rightarrow> nat set \<Rightarrow> bool" where
  "one_open busy F \<longleftrightarrow> (if busy then \<exists>f. F = {f} else F = {})"

lemma one_open_simps [simp]:
  "one_open False F \<longleftrightarrow> F = {}" "one_open True F \<longleftrightarrow> (\<exists>f. F = {f})"
  by (simp_all add: one_open_def)

text \<open>What the modules suppose of calls.\<close>

definition any_call :: "'s \<Rightarrow> 'e cdev_call \<Rightarrow> bool" where
  "any_call s call \<longleftrightarrow> True"

text \<open>
  \<open>device_read\<close> does not check the offset: that a \<open>pread\<close> starts in the array is up to the process.
\<close>

definition chardev_ok :: "chardev \<Rightarrow> unit cdev_call \<Rightarrow> bool" where
  "chardev_ok s call \<longleftrightarrow> (case call of SysPread e f u a n off \<Rightarrow> off \<le> 80 | _ \<Rightarrow> True)"

definition chardev2_ok :: "chardev2 \<Rightarrow> unit cdev_call \<Rightarrow> bool" where
  "chardev2_ok s call \<longleftrightarrow>
     (case call of
        SysPread e f u a n off \<Rightarrow> off \<le> 80
      | SysIoctl e f u cmd arg \<Rightarrow> cmd = IOCTL_GET_NTH_BYTE \<longrightarrow> arg \<le> 80
      | _ \<Rightarrow> True)"

text \<open>
  A write to \<open>static_key.c\<close> that leaves \<open>command\<close> without a terminator is printed beyond its end.
\<close>

definition command_ok :: "not_copied \<times> char list \<Rightarrow> umem \<Rightarrow> nat \<Rightarrow> nat \<Rightarrow> bool" where
  "command_ok e u a n \<longleftrightarrow>
     user_access (fst e) \<and> length (snd e) = 10 \<and>
     (n \<le> 10 \<longrightarrow> terminated (put_front (get_bytes u a n) (snd e)))"

definition static_key_ok :: "static_key \<Rightarrow> (not_copied \<times> char list) cdev_call \<Rightarrow> bool" where
  "static_key_ok s call \<longleftrightarrow>
     (case call of
        SysWrite e f u a n \<Rightarrow> command_ok e u a n
      | SysPwrite e f u a n off \<Rightarrow> command_ok e u a n
      | SysPread e f u a n off \<Rightarrow> off \<le> 10
      | _ \<Rightarrow> True)"

definition led_ok :: "led \<Rightarrow> not_copied cdev_call \<Rightarrow> bool" where
  "led_ok s call \<longleftrightarrow>
     (case call of
        SysWrite nc f u a n \<Rightarrow> user_access nc
      | SysPwrite nc f u a n off \<Rightarrow> user_access nc
      | _ \<Rightarrow> True)"

text \<open>
  \<open>ioctl.c\<close> stores its number wherever \<open>IOCTL_VALGET_NUM\<close> says, the kernel's memory included.
\<close>

definition ioctl_ok :: "ioctl_sys \<Rightarrow> (nat option \<times> not_copied) cdev_call \<Rightarrow> bool" where
  "ioctl_ok s call \<longleftrightarrow>
     (case call of
        SysOpen e f \<Rightarrow> (case fst e of Some p \<Rightarrow> it_heap s p = None | None \<Rightarrow> True)
      | SysIoctl e f u cmd arg \<Rightarrow>
          user_access (snd e) \<and> \<not> (cmd = IOCTL_VALGET_NUM \<and> kernel_address arg)
      | _ \<Rightarrow> True)"

definition message_ok :: "debugfs_file \<Rightarrow> (simple_read \<times> simple_write) cdev_call \<Rightarrow> bool" where
  "message_ok s call \<longleftrightarrow>
     (case call of
        SysWrite e f u a n \<Rightarrow> simple_buffer (fst e) (snd e)
      | SysPwrite e f u a n off \<Rightarrow> simple_buffer (fst e) (snd e)
      | _ \<Rightarrow> True)"

lemma chardev_module:
  assumes "chardev_good s" and "\<not> chardev_busy s"
  shows "char_module chardev_fops s (\<lambda>F s. chardev_good s \<and> one_open (chardev_busy s) F)
    (\<lambda>pos. 0 \<le> pos \<and> pos \<le> 80) chardev_ok"
proof
  fix F s f e
  assume g: "chardev_good s \<and> one_open (chardev_busy s) F" and f: "f \<notin> F"
  show "\<exists>r s'. call_open chardev_fops e s f = Some (r, s') \<and>
      (chardev_good s' \<and> one_open (chardev_busy s') (if r = 0 then insert f F else F))"
    using g chardev_open_free[of s] chardev_open_busy[of s]
    by (cases "chardev_busy s") (auto simp: fops_simps)
next
  fix F s f e u a n and pos :: int
  assume g: "chardev_good s \<and> one_open (chardev_busy s) F"
    and "(0 \<le> pos \<and> pos \<le> 80) \<and> chardev_ok s (SysRead e f u a n) \<or> 0 \<le> pos \<and> chardev_ok s (SysPread e f u a n pos)"
  then have p: "0 \<le> pos \<and> pos \<le> 80" by (auto simp: chardev_ok_def)
  from g have "length (cd_msg s) = Suc 80" "last (cd_msg s) = NUL"
    by (simp_all add: chardev_good_def chardev_BUF_LEN_def)
  from msg_read_stays[OF this, of pos u a n] p g
  show "\<exists>r pos' s'. call_read chardev_fops e s f u a n pos = Some (r, pos', s') \<and>
      (chardev_good s' \<and> one_open (chardev_busy s') F) \<and> (0 \<le> pos \<and> pos \<le> 80 \<longrightarrow> 0 \<le> pos' \<and> pos' \<le> 80)"
    by (auto simp: fops_simps chardev_read_def)
qed (use assms in \<open>auto simp: fops_simps chardev_release_def chardev_good_def chardev_busy_def chardev_write_def\<close>)

lemma chardev2_module:
  assumes "chardev2_idle s"
  shows "char_module chardev2_fops s (\<lambda>F. chardev2_idle) (\<lambda>pos. 0 \<le> pos \<and> pos \<le> 80) chardev2_ok"
proof
  fix F :: "nat set" and s f e u a n and pos :: int
  assume g: "chardev2_idle s"
    and "(0 \<le> pos \<and> pos \<le> 80) \<and> chardev2_ok s (SysRead e f u a n) \<or> 0 \<le> pos \<and> chardev2_ok s (SysPread e f u a n pos)"
  then have p: "0 \<le> pos \<and> pos \<le> 80" by (auto simp: chardev2_ok_def)
  from g have "length (c2_message s) = Suc 80" "last (c2_message s) = NUL"
    by (simp_all add: chardev2_idle_def chardev2_good_def chardev2_BUF_LEN_def)
  from msg_read_stays[OF this, of pos u a n] p g
  show "\<exists>r pos' s'. call_read chardev2_fops e s f u a n pos = Some (r, pos', s') \<and>
      chardev2_idle s' \<and> (0 \<le> pos \<and> pos \<le> 80 \<longrightarrow> 0 \<le> pos' \<and> pos' \<le> 80)"
    by (auto simp: fops_simps chardev2_read_def)
next
  fix F :: "nat set" and s f e u a n and pos :: int
  assume g: "chardev2_idle s"
  from chardev2_exec_idle[OF g, of "WriteCall u a n"]
  show "\<exists>r pos' s'. call_write chardev2_fops e s f u a n pos = Some (r, pos', s') \<and>
      chardev2_idle s' \<and> (0 \<le> pos \<and> pos \<le> 80 \<longrightarrow> 0 \<le> pos' \<and> pos' \<le> 80)"
    by (auto simp: fops_simps chardev2_exec_def call_in_bounds_def)
next
  fix F :: "nat set" and s f e u cmd arg
  assume "chardev2_idle s" and ok: "chardev2_ok s (SysIoctl e f u cmd arg)"
  from chardev2_ioctl_idle[OF this(1), of cmd "unat arg" u] ok
  show "\<exists>r s'. call_ioctl chardev2_fops e s f u cmd arg = Some (r, s') \<and> chardev2_idle s'"
    by (auto simp: fops_simps chardev2_ok_def word_le_nat_alt split: if_splits)
qed (use assms in \<open>auto simp: fops_simps chardev2_open_def chardev2_release_def\<close>)

lemma static_key_write_total:
  assumes "command_ok (nc, stack) u a n"
  shows "\<exists>r s'. static_key_write nc stack s u a n = Some (r, s')"
proof (cases "10 < n \<or> \<not> mapped u a n")
  case True
  with assms static_key_write_not_mapped[of nc stack n u a s] show ?thesis
    by (cases "10 < n") (auto simp: command_ok_def static_key_write_def)
next
  case False
  with assms user_access.copy_from_user_ok[of nc u a n stack] show ?thesis
    by (auto simp: command_ok_def static_key_write_def)
qed

lemma static_key_module:
  assumes "static_key_good s" and "\<not> static_key_busy s"
  shows "char_module static_key_fops s (\<lambda>F s. static_key_good s \<and> one_open (static_key_busy s) F)
    (\<lambda>pos. 0 \<le> pos \<and> pos \<le> 10) static_key_ok"
proof
  fix F s f e
  assume g: "static_key_good s \<and> one_open (static_key_busy s) F" and f: "f \<notin> F"
  show "\<exists>r s'. call_open static_key_fops e s f = Some (r, s') \<and>
      (static_key_good s' \<and> one_open (static_key_busy s') (if r = 0 then insert f F else F))"
    using g static_key_open_free[of s] static_key_dev.open_busy[of s]
    by (cases "static_key_busy s") (auto simp: fops_simps)
next
  fix F s f e u a n and pos :: int
  assume g: "static_key_good s \<and> one_open (static_key_busy s) F"
    and "(0 \<le> pos \<and> pos \<le> 10) \<and> static_key_ok s (SysRead e f u a n) \<or> 0 \<le> pos \<and> static_key_ok s (SysPread e f u a n pos)"
  then have p: "0 \<le> pos \<and> pos \<le> 10" by (auto simp: static_key_ok_def)
  from g have "length (sk_msg s) = Suc 10" "last (sk_msg s) = NUL"
    by (simp_all add: static_key_good_def static_key_BUF_LEN_def)
  from msg_read_stays[OF this, of pos u a n] p g
  show "\<exists>r pos' s'. call_read static_key_fops e s f u a n pos = Some (r, pos', s') \<and>
      (static_key_good s' \<and> one_open (static_key_busy s') F) \<and> (0 \<le> pos \<and> pos \<le> 10 \<longrightarrow> 0 \<le> pos' \<and> pos' \<le> 10)"
    by (auto simp: fops_simps static_key_read_def)
next
  fix F s f e u a n and pos :: int
  assume g: "static_key_good s \<and> one_open (static_key_busy s) F"
    and "(0 \<le> pos \<and> pos \<le> 10) \<and> static_key_ok s (SysWrite e f u a n) \<or> 0 \<le> pos \<and> static_key_ok s (SysPwrite e f u a n pos)"
  then have "command_ok e u a n" by (auto simp: static_key_ok_def)
  then obtain r s' where w: "static_key_write (fst e) (snd e) s u a n = Some (r, s')"
    using static_key_write_total[of "fst e" "snd e" u a n s] by auto
  from static_key_write_keeps_good[OF _ w] g w
  show "\<exists>r pos' s'. call_write static_key_fops e s f u a n pos = Some (r, pos', s') \<and>
      (static_key_good s' \<and> one_open (static_key_busy s') F) \<and> (0 \<le> pos \<and> pos \<le> 10 \<longrightarrow> 0 \<le> pos' \<and> pos' \<le> 10)"
    by (cases e) (auto simp: fops_simps static_key_busy_def)
qed (use assms in \<open>auto simp: fops_simps static_key_release_def static_key_good_def static_key_busy_def\<close>)

lemma led_module:
  assumes "led_good s"
  shows "char_module (led_fops old) s (\<lambda>F. led_good) (\<lambda>pos. True) led_ok"
proof
  fix F :: "nat set" and s f e u a n pos
  assume g: "led_good s"
    and "True \<and> led_ok s (SysWrite e f u a n) \<or> 0 \<le> pos \<and> led_ok s (SysPwrite e f u a n pos)"
  then have nc: "user_access e" by (auto simp: led_ok_def)
  from led_write_switches[OF nc g, of u a n pos]
  show "\<exists>r pos' s'. call_write (led_fops old) e s f u a n pos = Some (r, pos', s') \<and> led_good s' \<and> (True \<longrightarrow> True)"
    by (auto simp: fops_simps)
qed (use assms in \<open>auto simp: fops_simps led_open_def led_release_def\<close>)

lemma dht11_module:
  assumes "dht11_good s"
  shows "char_module dht11_fops s (\<lambda>F. dht11_good) (\<lambda>pos. 0 \<le> pos) any_call"
proof
  fix F :: "nat set" and s f and e :: "(nat \<Rightarrow> bool \<Rightarrow> nat \<Rightarrow> bool) \<times> not_copied"
  assume g: "dht11_good s"
  from dht11_open_total[OF g, of "fst e"]
  show "\<exists>r s'. call_open dht11_fops e s f = Some (r, s') \<and> dht11_good s'"
    by (cases e) (auto simp: fops_simps)
next
  fix F :: "nat set" and s f and e :: "(nat \<Rightarrow> bool \<Rightarrow> nat \<Rightarrow> bool) \<times> not_copied" and u a n
    and pos :: int
  assume g: "dht11_good s" and p: "0 \<le> pos \<and> any_call s (SysRead e f u a n) \<or> 0 \<le> pos \<and> any_call s (SysPread e f u a n pos)"
  then show "\<exists>r pos' s'. call_read dht11_fops e s f u a n pos = Some (r, pos', s') \<and> dht11_good s' \<and> (0 \<le> pos \<longrightarrow> 0 \<le> pos')"
    by (cases e) (auto simp: fops_simps dht11_read_def dht11_good_def Let_def split: prod.split)
qed (use assms in \<open>auto simp: fops_simps dht11_release_def\<close>)

lemma ioctl_module:
  assumes "ioctl_inv s" and "it_files s = Map.empty"
  shows "char_module ioctl_fops s (\<lambda>F s. ioctl_inv s \<and> dom (it_files s) = F) (\<lambda>pos. True) ioctl_ok"
proof
  fix F s f and e :: "nat option \<times> not_copied"
  assume g: "ioctl_inv s \<and> dom (it_files s) = F" and f: "f \<notin> F" and ok: "ioctl_ok s (SysOpen e f)"
  from g f have n: "it_files s f = None" by auto
  have "\<And>p. fst e = Some p \<Longrightarrow> it_heap s p = None" using ok by (simp add: ioctl_ok_def)
  from test_ioctl_open_inv[OF _ n this] g
  have inv: "ioctl_inv (snd (test_ioctl_open (fst e) s f))" by simp
  have d: "dom (it_files (snd (test_ioctl_open (fst e) s f))) =
      (if fst (test_ioctl_open (fst e) s f) = 0 then insert f F else F)"
    using g by (cases "fst e") (auto simp: test_ioctl_open_def)
  show "\<exists>r s'. call_open ioctl_fops e s f = Some (r, s') \<and>
      (ioctl_inv s' \<and> dom (it_files s') = (if r = 0 then insert f F else F))"
    using inv d by (cases e; cases "test_ioctl_open (fst e) s f") (simp add: fops_simps)
next
  fix F s f
  assume g: "ioctl_inv s \<and> dom (it_files s) = F" and f: "f \<in> F"
  then obtain p where p: "it_files s f = Some p" by auto
  from test_ioctl_close_inv[of s f] g obtain s' where
    c: "test_ioctl_close s f = Some (0, s')" "ioctl_inv s'" by auto
  then have "it_files s' = (it_files s)(f := None)" using p
    by (auto simp: test_ioctl_close_def split: Option.bind_splits)
  with c g show "\<exists>r s'. call_release ioctl_fops s f = Some (r, s') \<and>
      (ioctl_inv s' \<and> dom (it_files s') = F - {f})"
    by (simp add: fops_simps)
next
  fix F s f and e :: "nat option \<times> not_copied" and u a n and pos :: int
  assume g: "ioctl_inv s \<and> dom (it_files s) = F" and f: "f \<in> F"
  then obtain p where p: "it_files s f = Some p" by auto
  with g ioctl_inv_file[of s f p] obtain v where "it_heap s p = Some v" by blast
  with p g show "\<exists>r pos' s'. call_read ioctl_fops e s f u a n pos = Some (r, pos', s') \<and>
      (ioctl_inv s' \<and> dom (it_files s') = F) \<and> (True \<longrightarrow> True)"
    by (cases e) (auto simp: fops_simps test_ioctl_read_def split: prod.split)
next
  fix F s f and e :: "nat option \<times> not_copied" and u cmd arg
  assume g: "ioctl_inv s \<and> dom (it_files s) = F" and f: "f \<in> F"
    and ok: "ioctl_ok s (SysIoctl e f u cmd arg)"
  then obtain p where p: "it_files s f = Some p" by auto
  from ok have "user_access (snd e)" "\<not> (cmd = IOCTL_VALGET_NUM \<and> kernel_address arg)"
    by (simp_all add: ioctl_ok_def)
  from test_ioctl_ioctl_inv[OF this(1) _ p this(2), of u] g
  show "\<exists>r s'. call_ioctl ioctl_fops e s f u cmd arg = Some (r, s') \<and>
      (ioctl_inv s' \<and> dom (it_files s') = F)"
    by (cases e) (auto simp: fops_simps)
qed (use assms in \<open>auto simp: fops_simps\<close>)

lemma message_module:
  assumes "debugfs_good s"
  shows "char_module message_fops s (\<lambda>F. debugfs_good) (\<lambda>pos. True) message_ok"
proof
  fix F :: "nat set" and s f and e :: "simple_read \<times> simple_write" and u a n and pos :: int
  assume g: "debugfs_good s"
    and "True \<and> message_ok s (SysWrite e f u a n) \<or> 0 \<le> pos \<and> message_ok s (SysPwrite e f u a n pos)"
  then have ok: "simple_buffer (fst e) (snd e)" by (auto simp: message_ok_def)
  from simple_buffer.message_write_good[OF _ g, of "fst e" "snd e" u a n pos] ok
  show "\<exists>r pos' s'. call_write message_fops e s f u a n pos = Some (r, pos', s') \<and> debugfs_good s' \<and> (True \<longrightarrow> True)"
    by (cases e) (auto simp: fops_simps message_ok_def)
next
  fix F :: "nat set" and s f and e :: "simple_read \<times> simple_write" and u a n and pos :: int
  assume g: "debugfs_good s"
  obtain r pos' v where "fst e u a n pos (take (df_message_len s) (df_message s)) = (r, pos', v)"
    by (cases "fst e u a n pos (take (df_message_len s) (df_message s))") auto
  with g show "\<exists>r pos' s'. call_read message_fops e s f u a n pos = Some (r, pos', s') \<and> debugfs_good s' \<and> (True \<longrightarrow> True)"
    by (cases e) (auto simp: fops_simps message_read_def debugfs_good_def)
qed (use assms in \<open>auto simp: fops_simps\<close>)

text \<open>What the load functions leave is a start for the contract.\<close>

lemma chardev_loaded:
  "chardev_init e chardev_zero = (0, s, t) \<Longrightarrow> chardev_good s \<and> \<not> chardev_busy s"
  using chardev_zero_good chardev_zero_free
  by (auto simp: mod_init chardev_good_def chardev_busy_def split: if_splits)

lemma chardev2_loaded: "chardev2_init e chardev2_zero = (0, s, t) \<Longrightarrow> chardev2_idle s"
  using chardev2_zero_good
  by (auto simp: mod_init chardev2_idle_def chardev2_zero_def split: if_splits)

lemma static_key_loaded:
  "static_key_init e static_key_zero = (0, s, t) \<Longrightarrow> static_key_good s \<and> \<not> static_key_busy s"
  using static_key_zero_good static_key_zero_free
  by (auto simp: mod_init static_key_good_def static_key_busy_def split: if_splits)

lemma led_loaded: "led_init e led_zero = (0, s, t) \<Longrightarrow> led_good s"
  using led_zero_good by (auto simp: mod_init led_good_def split: if_splits)

lemma dht11_loaded: "dht11_init e dht11_zero = (0, s, t) \<Longrightarrow> dht11_good s"
  using dht11_zero_good by (auto simp: mod_init dht11_good_def split: if_splits)

lemma ioctl_loaded:
  "ioctl_init e ioctl_zero = (0, s, t) \<Longrightarrow> ioctl_inv s \<and> it_files s = Map.empty"
  using ioctl_zero_inv by (auto simp: mod_init ioctl_zero_def split: if_splits)

lemma debugfs_file_loaded:
  "hello_debugfs_file_init e debugfs_file_zero = (r, s, t) \<Longrightarrow> debugfs_good s"
  using debugfs_file_zero_good by (auto simp: mod_init)

text \<open>The modules as they are when nothing was loaded before.\<close>

interpretation chardev_file: char_module chardev_fops chardev_zero
    "\<lambda>F s. chardev_good s \<and> one_open (chardev_busy s) F" "\<lambda>pos. 0 \<le> pos \<and> pos \<le> 80" chardev_ok
  by (rule chardev_module[OF chardev_zero_good chardev_zero_free])

interpretation static_key_file: char_module static_key_fops static_key_zero
    "\<lambda>F s. static_key_good s \<and> one_open (static_key_busy s) F" "\<lambda>pos. 0 \<le> pos \<and> pos \<le> 10"
    static_key_ok
  by (rule static_key_module[OF static_key_zero_good static_key_zero_free])

interpretation chardev2_file: char_module chardev2_fops chardev2_zero "\<lambda>F. chardev2_idle"
    "\<lambda>pos. 0 \<le> pos \<and> pos \<le> 80" chardev2_ok
  using chardev2_zero_good by (intro chardev2_module) (simp add: chardev2_idle_def chardev2_zero_def)

interpretation ioctl_file: char_module ioctl_fops ioctl_zero
    "\<lambda>F s. ioctl_inv s \<and> dom (it_files s) = F" "\<lambda>pos. True" ioctl_ok
  using ioctl_zero_inv by (intro ioctl_module) (simp_all add: ioctl_zero_def)

interpretation led_file: char_module "led_fops old" led_zero "\<lambda>F. led_good" "\<lambda>pos. True" led_ok for old
  by (rule led_module[OF led_zero_good])

interpretation dht11_file: char_module dht11_fops dht11_zero "\<lambda>F. dht11_good" "\<lambda>pos. 0 \<le> pos" any_call
  by (rule dht11_module[OF dht11_zero_good])

interpretation message_file: char_module message_fops debugfs_file_zero "\<lambda>F. debugfs_good" "\<lambda>pos. True"
    message_ok
  by (rule message_module[OF debugfs_file_zero_good])

section \<open>One file at a time\<close>

text \<open>
  With the flag up, an open is refused, and the only open file is the one that raised it.
\<close>

definition exclusive_file ::
    "('e, 's) file_operations \<Rightarrow> 's \<Rightarrow> ('s \<Rightarrow> 'e cdev_call \<Rightarrow> bool) \<Rightarrow> bool" where
  "exclusive_file fops start ok \<longleftrightarrow>
     (\<forall>c f. cdev_reach fops start (careful fops ok) c \<and> cm_files c f \<noteq> None \<longrightarrow>
       dom (cm_files c) = {f} \<and>
       (\<forall>e g. g \<noteq> f \<longrightarrow> sys_call fops start c (SysOpen e g) = Some (- EBUSY, c)))"

lemma exclusive_fileI:
  assumes m: "char_module fops start (\<lambda>F s. good s \<and> one_open (busy s) F) pos_ok ok"
    and o: "\<And>e s g. good s \<Longrightarrow> busy s \<Longrightarrow> call_open fops e s g = Some (- EBUSY, s)"
  shows "exclusive_file fops start ok"
  unfolding exclusive_file_def
proof (intro allI impI)
  fix c f
  assume c: "cdev_reach fops start (careful fops ok) c \<and> cm_files c f \<noteq> None"
  with char_module.reach_loaded[OF m] have l: "cm_loaded c" by blast
  with char_module.reach_good[OF m] c have g: "good (cm_vars c)" "one_open (busy (cm_vars c)) (dom (cm_files c))"
    by blast+
  from c have f: "f \<in> dom (cm_files c)" by auto
  from g(2) f have b: "busy (cm_vars c)" by (metis empty_iff one_open_def)
  with g(2) obtain h where "dom (cm_files c) = {h}" by (metis one_open_def)
  with f have d: "dom (cm_files c) = {f}" by simp
  have "cm_files c h = None" if "h \<noteq> f" for h using d that by auto
  with d l o[OF g(1) b] show "dom (cm_files c) = {f} \<and>
      (\<forall>e g. g \<noteq> f \<longrightarrow> sys_call fops start c (SysOpen e g) = Some (- EBUSY, c))" by simp
qed

section \<open>Outside the contract\<close>

text \<open>
  A \<open>pread\<close> behind the message leaves the array, in each of the three modules that have
  \<open>device_read\<close>.
\<close>

lemma pread_behind_message:
  assumes c: "cm_files c f = Some (cm_load c, pos)" "cm_loaded c"
  shows "chardev_good (cm_vars c) \<Longrightarrow> 80 < off \<Longrightarrow>
      sys_call chardev_fops start c (SysPread e f u a n off) = None"
    and "chardev2_idle (cm_vars c2) \<Longrightarrow> 80 < off \<Longrightarrow> cm_files c2 f = Some (cm_load c2, pos) \<Longrightarrow> cm_loaded c2 \<Longrightarrow>
      sys_call chardev2_fops start2 c2 (SysPread e f u a n off) = None"
    and "static_key_good (cm_vars c3) \<Longrightarrow> 10 < off \<Longrightarrow> cm_files c3 f = Some (cm_load c3, pos) \<Longrightarrow> cm_loaded c3 \<Longrightarrow>
      sys_call static_key_fops start3 c3 (SysPread e3 f u a n off) = None"
  using c
  by (auto simp: on_file_def fops_simps chardev_read_def chardev2_read_def static_key_read_def msg_read_def
      char_at_def chardev_good_def chardev2_idle_def chardev2_good_def static_key_good_def
      chardev_BUF_LEN_def chardev2_BUF_LEN_def static_key_BUF_LEN_def)

text \<open>
  Nothing holds \<open>chardev.c\<close> below its file, and the flag starts again with a new load: then two files are open.
\<close>

lemma chardev_two_files:
  assumes g: "chardev_good start" and b: "\<not> chardev_busy start"
    and c: "cdev_reach chardev_fops start (careful chardev_fops chardev_ok) c"
    and f: "cm_files c f \<noteq> None" and h: "cm_files c h = None"
  shows "\<exists>c1 c2 c3. sys_call chardev_fops start c Rmmod = Some (0, c1) \<and>
    sys_call chardev_fops start c1 Insmod = Some (0, c2) \<and>
    sys_call chardev_fops start c2 (SysOpen () h) = Some (0, c3) \<and> {f, h} \<subseteq> dom (cm_files c3)"
proof -
  from chardev_open_free[of start] g b obtain s' where o: "chardev_open start = Some (0, s')" by blast
  note m = chardev_module[OF g b]
  have "\<not> fo_owner chardev_fops" by (simp add: fops_simps)
  with char_module.reach_loaded[OF m c f] char_module.reach_refcnt[OF m c]
  have "cm_loaded c" "cm_refcnt c = 0" by simp_all
  with o f h show ?thesis by (auto simp: fops_simps)
qed

section \<open>Examples\<close>

lemma chardev_load:
  "chardev_init \<lparr>ret_register_chrdev = 240, ret_class_create = 1, ret_device_create = 1\<rparr> chardev_zero =
    (0, chardev_zero\<lparr>cd_major := 240\<rparr>, [Acq (Chrdev 240), Acq DevClass, Acq (DevNode 240)])"
  by (simp add: chardev_init_def is_err_def)

lemma static_key_load:
  "static_key_init \<lparr>ret_register_chrdev = 240, ret_class_create = 1, ret_device_create = 1\<rparr> static_key_zero =
    (0, static_key_zero\<lparr>sk_major := 240\<rparr>, [Acq (Chrdev 240), Acq DevClass, Acq (DevNode 240)])"
  by (simp add: static_key_init_def is_err_def)

lemma chardev_opened:
  "\<exists>s. cdev_reach chardev_fops (chardev_zero\<lparr>cd_major := 240\<rparr>) (careful chardev_fops chardev_ok)
    (cdev_opened chardev_fops s 3)"
proof -
  from chardev_loaded[OF chardev_load] chardev_open_free obtain s where
    "chardev_open (chardev_zero\<lparr>cd_major := 240\<rparr>) = Some (0, s)" by blast
  then have "call_open chardev_fops () (chardev_zero\<lparr>cd_major := 240\<rparr>) 3 = Some (0, s)"
    by (simp add: fops_simps)
  from cdev_reach_opened[where ok = "careful chardev_fops chardev_ok", OF this] show ?thesis
    by (auto simp: careful_def chardev_ok_def)
qed

lemma static_key_opened:
  "\<exists>s. cdev_reach static_key_fops (static_key_zero\<lparr>sk_major := 240\<rparr>) (\<lambda>c. static_key_ok (cm_vars c))
    (cdev_opened static_key_fops s 3)"
proof -
  from static_key_loaded[OF static_key_load] static_key_open_free obtain s where
    "static_key_open (static_key_zero\<lparr>sk_major := 240\<rparr>) = Some (0, s)" by blast
  then have "call_open static_key_fops (bytewise, []) (static_key_zero\<lparr>sk_major := 240\<rparr>) 3 = Some (0, s)"
    by (simp add: fops_simps)
  from cdev_reach_opened[where ok = "\<lambda>c. static_key_ok (cm_vars c)", OF this] show ?thesis
    by (auto simp: static_key_ok_def)
qed

section \<open>Properties\<close>

text \<open>
  C22 (safety): after any successful load, whatever careful calls processes make of the devices \<open>chardev\<close> and
  \<open>static_key\<close>, and however often these are unloaded and loaded in between, there is at most one open
  file: while there is one, every open returns \<open>-EBUSY\<close> and changes nothing. Careful is: no \<open>pread\<close>
  beyond the message, no command to \<open>static_key\<close> that stays unterminated, and no unload of \<open>chardev\<close>
  below an open file, which \<open>rmmod\<close> would grant; of \<open>static_key\<close> it does not.
\<close>

theorem exclusive_across_calls:
  "(\<forall>e s t. chardev_init e chardev_zero = (0, s, t) \<longrightarrow> exclusive_file chardev_fops s chardev_ok) \<and>
   (\<forall>e s t. static_key_init e static_key_zero = (0, s, t) \<longrightarrow>
     exclusive_file static_key_fops s static_key_ok)"
proof (intro conjI allI impI)
  fix e s t
  assume "chardev_init e chardev_zero = (0, s, t)"
  from chardev_loaded[OF this] have "chardev_good s" "\<not> chardev_busy s" by simp_all
  from chardev_module[OF this] show "exclusive_file chardev_fops s chardev_ok"
    by (rule exclusive_fileI) (simp add: fops_simps chardev_open_busy)
next
  fix e s t
  assume "static_key_init e static_key_zero = (0, s, t)"
  from static_key_loaded[OF this] have "static_key_good s" "\<not> static_key_busy s" by simp_all
  from static_key_module[OF this] show "exclusive_file static_key_fops s static_key_ok"
    by (rule exclusive_fileI) (simp add: fops_simps static_key_dev.open_busy)
qed

theorem exclusive_across_calls_witness:
  "\<exists>s c. cm_files c 3 \<noteq> None \<and> sys_call chardev_fops s c (SysOpen () 7) = Some (- EBUSY, c)"
proof -
  let ?s = "chardev_zero\<lparr>cd_major := 240\<rparr>"
  have "exclusive_file chardev_fops ?s chardev_ok" using exclusive_across_calls chardev_load by blast
  with chardev_opened obtain s1 where
    "\<forall>e g. g \<noteq> 3 \<longrightarrow> sys_call chardev_fops ?s (cdev_opened chardev_fops s1 3) (SysOpen e g) =
      Some (- EBUSY, cdev_opened chardev_fops s1 3)"
    unfolding exclusive_file_def by (fastforce simp: cdev_opened_def)
  then show ?thesis by (intro exI[of _ ?s] exI[of _ "cdev_opened chardev_fops s1 3"]) (simp add: cdev_opened_def)
qed

text \<open>
  C20 (safety): \<open>static_key.c\<close>, \<open>dht11.c\<close>, \<open>ioctl.c\<close>, \<open>hello-debugfs-file.c\<close> and, before 6.4, \<open>led.c\<close> own their files: after any successful
  load \<open>rmmod\<close> unloads the module exactly when no file is open, and no call leaves an array or
  follows a bad pointer, if of \<open>static_key.c\<close> no \<open>pread\<close> starts beyond the message and no command stays
  unterminated, and of \<open>ioctl.c\<close> no \<open>IOCTL_VALGET_NUM\<close> is given a kernel address. Of the kernel it supposes
  that \<open>copy_from_user\<close> and the functions of libfs are as documented and \<open>kmalloc\<close> returns no object in use.
\<close>

theorem owned_modules_held:
  "(\<forall>e s t. static_key_init e static_key_zero = (0, s, t) \<longrightarrow>
     held_by_files static_key_fops s static_key_ok) \<and>
   (\<forall>e s t. dht11_init e dht11_zero = (0, s, t) \<longrightarrow> held_by_files dht11_fops s any_call) \<and>
   (\<forall>e s t. ioctl_init e ioctl_zero = (0, s, t) \<longrightarrow> held_by_files ioctl_fops s ioctl_ok) \<and>
   (\<forall>e s t. led_init e led_zero = (0, s, t) \<longrightarrow> held_by_files (led_fops True) s led_ok) \<and>
   (\<forall>e s t. hello_debugfs_file_init e debugfs_file_zero = (0, s, t) \<longrightarrow>
     held_by_files message_fops s message_ok)"
proof (intro conjI allI impI)
  fix e s t
  assume "static_key_init e static_key_zero = (0, s, t)"
  from static_key_loaded[OF this] have "static_key_good s" "\<not> static_key_busy s" by simp_all
  from char_module.held[OF static_key_module[OF this]]
  show "held_by_files static_key_fops s static_key_ok" by (simp add: fops_simps)
next
  fix e s t
  assume "dht11_init e dht11_zero = (0, s, t)"
  from char_module.held[OF dht11_module[OF dht11_loaded[OF this]]]
  show "held_by_files dht11_fops s any_call" by (simp add: fops_simps)
next
  fix e s t
  assume "ioctl_init e ioctl_zero = (0, s, t)"
  from ioctl_loaded[OF this] have "ioctl_inv s" "it_files s = Map.empty" by simp_all
  from char_module.held[OF ioctl_module[OF this]]
  show "held_by_files ioctl_fops s ioctl_ok" by (simp add: fops_simps)
next
  fix e s t
  assume "led_init e led_zero = (0, s, t)"
  from char_module.held[OF led_module[OF led_loaded[OF this], of True]]
  show "held_by_files (led_fops True) s led_ok" by (simp add: fops_simps)
next
  fix e s t
  assume "hello_debugfs_file_init e debugfs_file_zero = (0, s, t)"
  from char_module.held[OF message_module[OF debugfs_file_loaded[OF this]]]
  show "held_by_files message_fops s message_ok" by (simp add: fops_simps)
qed

theorem owned_modules_held_witness:
  "\<exists>s c r c'. cm_files c 3 \<noteq> None \<and> sys_call static_key_fops s c Rmmod = Some (r, c') \<and> r \<noteq> 0"
proof -
  let ?s = "static_key_zero\<lparr>sk_major := 240\<rparr>"
  have "held_by_files static_key_fops ?s static_key_ok" using owned_modules_held static_key_load by blast
  with static_key_opened obtain s1 r c' where
    "sys_call static_key_fops ?s (cdev_opened static_key_fops s1 3) Rmmod = Some (r, c')"
    "r = 0 \<longleftrightarrow> cm_files (cdev_opened static_key_fops s1 3) = Map.empty"
    unfolding held_by_files_def by (fastforce simp: cdev_opened_def)
  then show ?thesis
    by (intro exI[of _ ?s] exI[of _ "cdev_opened static_key_fops s1 3"] exI[of _ r] exI[of _ c'])
      (auto simp: cdev_opened_def)
qed

text \<open>
  C21 (safety): \<open>chardev.c\<close>, \<open>chardev2.c\<close> and, from 6.4 on, \<open>led.c\<close> do not own their files. No call leaves an array or jumps
  to an unloaded function as long as the modules are unloaded only when no file is open, no \<open>pread\<close> starts
  beyond the message of \<open>chardev.c\<close> or \<open>chardev2.c\<close>, and no argument of \<open>IOCTL_GET_NTH_BYTE\<close> is above 80;
  \<open>copy_from_user\<close> is as documented. But nothing keeps the modules from being unloaded below an open file, and
  then every call on that file jumps to where the module was, even after it is loaded again (only a \<open>pread\<close>
  or \<open>pwrite\<close> at a negative offset is refused before).
\<close>

theorem unowned_modules_dropped:
  "(\<forall>e s t. chardev_init e chardev_zero = (0, s, t) \<longrightarrow> dropped_by_rmmod chardev_fops s chardev_ok) \<and>
   (\<forall>e s t. chardev2_init e chardev2_zero = (0, s, t) \<longrightarrow>
     dropped_by_rmmod chardev2_fops s chardev2_ok) \<and>
   (\<forall>e s t. led_init e led_zero = (0, s, t) \<longrightarrow> dropped_by_rmmod (led_fops False) s led_ok)"
proof (intro conjI allI impI)
  fix e s t
  assume "chardev_init e chardev_zero = (0, s, t)"
  from chardev_loaded[OF this] have "chardev_good s" "\<not> chardev_busy s" by simp_all
  from char_module.dropped[OF chardev_module[OF this]]
  show "dropped_by_rmmod chardev_fops s chardev_ok" by (simp add: fops_simps)
next
  fix e s t
  assume "chardev2_init e chardev2_zero = (0, s, t)"
  from char_module.dropped[OF chardev2_module[OF chardev2_loaded[OF this]]]
  show "dropped_by_rmmod chardev2_fops s chardev2_ok" by (simp add: fops_simps)
next
  fix e s t
  assume "led_init e led_zero = (0, s, t)"
  from char_module.dropped[OF led_module[OF led_loaded[OF this], of False]]
  show "dropped_by_rmmod (led_fops False) s led_ok" by (simp add: fops_simps)
qed

theorem unowned_modules_dropped_witness:
  "\<exists>s c c'. cm_files c 3 \<noteq> None \<and> sys_call chardev_fops s c Rmmod = Some (0, c') \<and>
    sys_call chardev_fops s c' (SysClose 3) = None"
proof -
  let ?s = "chardev_zero\<lparr>cd_major := 240\<rparr>"
  have d: "dropped_by_rmmod chardev_fops ?s chardev_ok" using unowned_modules_dropped chardev_load by blast
  from chardev_opened obtain s1 where
    r: "cdev_reach chardev_fops ?s (careful chardev_fops chardev_ok) (cdev_opened chardev_fops s1 3)" by blast
  have f: "cm_files (cdev_opened chardev_fops s1 3) 3 \<noteq> None" by (simp add: cdev_opened_def)
  from d r f obtain c' where
    "sys_call chardev_fops ?s (cdev_opened chardev_fops s1 3) Rmmod = Some (0, c')"
    "\<forall>call. uses_file 3 call \<longrightarrow> sys_call chardev_fops ?s c' call = None"
    unfolding dropped_by_rmmod_def by blast
  moreover have "uses_file 3 (SysClose 3)" by (simp add: uses_file_def)
  ultimately show ?thesis using f by blast
qed

end
