(* ===== verification/Blkram_Smp.thy ===== *)
theory Blkram_Smp
  imports Blkram Interleaving
begin

text \<open>
  \<open>blkram.c\<close> with several requests at once: the block layer calls \<open>blkram_queue_rq\<close> for up to 64
  requests on all processors, and the driver takes no lock. The function is cut here into steps, down
  to the bytes of \<open>memcpy\<close>. Requests that do not get in each other's way, as the file systems
  above see to, are served as if they came one after the other.
\<close>

section \<open>Steps\<close>

text \<open>
  Where a call is: before the test for a passthrough request; before the next segment, with
  the segments to come; in \<open>memcpy\<close>, with the bytes copied so far, the segment and the segments to
  come; at its end, with the status and the segments that were left out.
\<close>

datatype blk_pc =
    BtQueue
  | BtNext "char list list"
  | BtCopy nat "char list" "char list list"
  | BtEnd blk_status "char list list"

record blk_task =
  bt_rq :: request
  bt_offset :: "64 word"
  bt_done :: "char list list"
  bt_pc :: blk_pc

definition blk_call :: "request \<Rightarrow> blk_task" where
  "blk_call rq = \<lparr>bt_rq = rq, bt_offset = 0, bt_done = [], bt_pc = BtQueue\<rparr>"

text \<open>\<open>None\<close> when \<open>memcpy\<close> leaves the array, or at the end.\<close>

fun blk_step :: "(unit, blkram, blk_task) thread_step" where
  "blk_step act dev t =
     (case bt_pc t of
        BtQueue \<Rightarrow>
          Some (dev,
            if rq_passthrough (bt_rq t) then t\<lparr>bt_pc := BtEnd BLK_STS_IOERR (rq_segs (bt_rq t))\<rparr>
            else t\<lparr>bt_offset := rq_pos (bt_rq t) * BLKRAM_SECTOR_SIZE, bt_pc := BtNext (rq_segs (bt_rq t))\<rparr>)
      | BtNext [] \<Rightarrow> Some (dev, t\<lparr>bt_pc := BtEnd BLK_STS_OK []\<rparr>)
      | BtNext (seg # segs) \<Rightarrow>
          Some (dev, t\<lparr>bt_pc :=
            if br_size dev < bt_offset t + of_nat (length seg) then BtEnd BLK_STS_IOERR (seg # segs)
            else BtCopy 0 seg segs\<rparr>)
      | BtCopy k seg segs \<Rightarrow>
          (let x = unat (bt_offset t) + k in
           if length seg \<le> k
           then Some (dev, t\<lparr>bt_done := bt_done t @ [seg],
                  bt_offset := bt_offset t + of_nat (length seg), bt_pc := BtNext segs\<rparr>)
           else if length (br_data dev) \<le> x then None
           else if rq_write (bt_rq t)
           then Some (dev\<lparr>br_data := (br_data dev)[x := seg ! k]\<rparr>, t\<lparr>bt_pc := BtCopy (Suc k) seg segs\<rparr>)
           else Some (dev, t\<lparr>bt_pc := BtCopy (Suc k) (seg[k := br_data dev ! x]) segs\<rparr>))
      | BtEnd st segs \<Rightarrow> None)"

declare blk_step.simps [simp del]

text \<open>What is left of a call, in one go: the status, the array and the segments.\<close>

definition blk_finish ::
    "64 word \<Rightarrow> blk_task \<Rightarrow> char list \<Rightarrow> (blk_status \<times> char list \<times> char list list) option" where
  "blk_finish sz t d =
     (let wr = rq_write (bt_rq t) in
      case bt_pc t of
        BtQueue \<Rightarrow>
          if rq_passthrough (bt_rq t) then Some (BLK_STS_IOERR, d, rq_segs (bt_rq t))
          else transfer_loop sz wr (rq_segs (bt_rq t)) (rq_pos (bt_rq t) * BLKRAM_SECTOR_SIZE) d
      | BtNext segs \<Rightarrow>
          do { (st, d, segs) \<leftarrow> transfer_loop sz wr segs (bt_offset t) d;
               Some (st, d, bt_done t @ segs) }
      | BtCopy k seg segs \<Rightarrow>
          do { d' \<leftarrow> (if wr then blk_store d (unat (bt_offset t) + k) (drop k seg) else Some d);
               bs \<leftarrow> (if wr then Some (drop k seg) else blk_load d (unat (bt_offset t) + k) (length seg - k));
               (st, d', segs) \<leftarrow> transfer_loop sz wr segs (bt_offset t + of_nat (length seg)) d';
               Some (st, d', bt_done t @ (take k seg @ bs) # segs) }
      | BtEnd st segs \<Rightarrow> Some (st, d, bt_done t @ segs))"

fun blk_finish_all ::
    "64 word \<Rightarrow> char list \<Rightarrow> blk_task list \<Rightarrow> (char list \<times> (blk_status \<times> char list list) list) option" where
  "blk_finish_all sz d [] = Some (d, [])"
| "blk_finish_all sz d (t # ts) =
     do { (st, d, segs) \<leftarrow> blk_finish sz t d;
          (d, rets) \<leftarrow> blk_finish_all sz d ts;
          Some (d, (st, segs) # rets) }"

section \<open>Where a call reads and writes\<close>

definition rq_start :: "request \<Rightarrow> nat" where
  "rq_start rq = unat (rq_pos rq) * 512"

definition rq_end :: "request \<Rightarrow> nat" where
  "rq_end rq = rq_start rq + length (concat (rq_segs rq))"

definition rq_touches :: "request \<Rightarrow> nat \<Rightarrow> bool" where
  "rq_touches rq x \<longleftrightarrow> rq_start rq \<le> x \<and> x < rq_end rq"

text \<open>Two requests keep out of each other's way: both only read, or they are about different bytes.\<close>

definition rq_apart :: "request \<Rightarrow> request \<Rightarrow> bool" where
  "rq_apart rq rq2 \<longleftrightarrow>
     \<not> rq_write rq \<and> \<not> rq_write rq2 \<or> rq_end rq \<le> rq_start rq2 \<or> rq_end rq2 \<le> rq_start rq"

lemma rq_apart_commute: "rq_apart rq rq2 = rq_apart rq2 rq"
  by (auto simp: rq_apart_def)

abbreviation small :: "char list list \<Rightarrow> bool" where
  "small \<equiv> list_all (\<lambda>seg. length seg < 2 ^ 32)"

text \<open>A call is inside its request, and a segment that is copied ends on the disk.\<close>

definition blk_task_ok :: "64 word \<Rightarrow> blk_task \<Rightarrow> bool" where
  "blk_task_ok sz t \<longleftrightarrow>
     unat sz \<le> 2 ^ 63 \<and>
     (case bt_pc t of
        BtQueue \<Rightarrow> bt_done t = [] \<and> rq_start (bt_rq t) \<le> unat sz \<and> small (rq_segs (bt_rq t))
      | BtNext segs \<Rightarrow>
          unat (bt_offset t) \<le> unat sz \<and> rq_start (bt_rq t) \<le> unat (bt_offset t) \<and>
          unat (bt_offset t) + length (concat segs) \<le> rq_end (bt_rq t) \<and> small segs
      | BtCopy k seg segs \<Rightarrow>
          unat (bt_offset t) + length seg \<le> unat sz \<and> rq_start (bt_rq t) \<le> unat (bt_offset t) \<and>
          unat (bt_offset t) + length (concat (seg # segs)) \<le> rq_end (bt_rq t) \<and>
          small (seg # segs) \<and> k \<le> length seg
      | BtEnd st segs \<Rightarrow> True)"

text \<open>The next segment begins where this one ends.\<close>

lemma offset_next:
  fixes off sz :: "64 word"
  assumes "unat off + length seg \<le> unat sz" and "unat sz \<le> 2 ^ 63" and "length seg < 2 ^ 32"
  shows "unat (off + of_nat (length seg)) = unat off + length seg"
  using assms by (intro offset_check(1)[of off sz]) auto

lemma blk_step_task_ok:
  assumes s: "blk_step act dev t = Some (dev', t')" and ok: "blk_task_ok (br_size dev) t"
  shows "blk_task_ok (br_size dev) t' \<and> bt_rq t' = bt_rq t \<and> br_size dev' = br_size dev \<and>
    length (br_data dev') = length (br_data dev)"
proof (cases "bt_pc t")
  case BtQueue
  from ok BtQueue have le: "unat (rq_pos (bt_rq t)) * 512 \<le> unat (br_size dev)"
    by (simp add: blk_task_ok_def rq_start_def)
  from sector_offset[OF le] s ok BtQueue show ?thesis
    by (auto simp: blk_step.simps blk_task_ok_def rq_start_def rq_end_def)
next
  case (BtNext segs)
  show ?thesis
  proof (cases segs)
    case Nil
    with s ok BtNext show ?thesis by (auto simp: blk_step.simps blk_task_ok_def)
  next
    case (Cons seg segs')
    from ok BtNext Cons have o: "unat (bt_offset t) \<le> unat (br_size dev)" "length seg < 2 ^ 32"
      "unat (br_size dev) \<le> 2 ^ 63" by (simp_all add: blk_task_ok_def)
    from offset_check(2)[OF o] s ok BtNext Cons show ?thesis
      by (auto simp: blk_step.simps blk_task_ok_def)
  qed
next
  case (BtCopy k seg segs)
  from ok BtCopy have o: "unat (bt_offset t) + length seg \<le> unat (br_size dev)"
    "unat (br_size dev) \<le> 2 ^ 63" "length seg < 2 ^ 32" by (simp_all add: blk_task_ok_def)
  from offset_next[OF o] s ok BtCopy show ?thesis
    by (auto simp: blk_step.simps blk_task_ok_def Let_def split: if_splits)
next
  case (BtEnd st segs)
  with s show ?thesis by (simp add: blk_step.simps)
qed

section \<open>Bytes that a call leaves alone\<close>

lemma stored_nth:
  assumes "off + length bs \<le> length d" and "i < length d"
  shows "(take off d @ bs @ drop (off + length bs) d) ! i =
    (if off \<le> i \<and> i < off + length bs then bs ! (i - off) else d ! i)"
proof -
  consider "i < off" | "off \<le> i" "i < off + length bs" | "off + length bs \<le> i" by linarith
  then show ?thesis using assms by cases (auto simp: nth_append)
qed

lemma blk_store_frame:
  assumes "blk_store d off bs = Some d'"
  shows "length d' = length d" and "x < off \<or> off + length bs \<le> x \<Longrightarrow> d' ! x = d ! x"
  using assms by (auto simp: blk_store_def nth_append nth_take split: if_splits)

lemma blk_store_update:
  assumes "x < off \<or> off + length bs \<le> x"
  shows "blk_store (d[x := b]) off bs = map_option (\<lambda>d. d[x := b]) (blk_store d off bs)"
proof (cases "off + length bs \<le> length d")
  case True
  have "take off (d[x := b]) @ bs @ drop (off + length bs) (d[x := b]) =
      (take off d @ bs @ drop (off + length bs) d)[x := b]"
  proof (rule nth_equalityI)
    fix i
    assume "i < length (take off (d[x := b]) @ bs @ drop (off + length bs) (d[x := b]))"
    then have i: "i < length d" using True by simp
    have l: "length (take off d @ bs @ drop (off + length bs) d) = length d" using True by simp
    show "(take off (d[x := b]) @ bs @ drop (off + length bs) (d[x := b])) ! i =
        (take off d @ bs @ drop (off + length bs) d)[x := b] ! i"
      using assms i True l by (cases "i = x") (simp_all only: stored_nth length_list_update nth_list_update_eq
        nth_list_update_neq, auto)
  qed (use True in simp)
  with True show ?thesis by (simp add: blk_store_def)
qed (simp add: blk_store_def)

lemma blk_load_update:
  assumes "x < off \<or> off + n \<le> x"
  shows "blk_load (d[x := b]) off n = blk_load d off n"
  using assms by (auto simp: blk_load_def drop_update_swap take_update_cancel)

text \<open>A byte outside the segments is neither looked at nor changed.\<close>

lemma transfer_loop_frame:
  assumes "unat off \<le> unat sz" and "unat sz \<le> 2 ^ 63" and "small segs"
    and "x < unat off \<or> unat off + length (concat segs) \<le> x"
  shows "transfer_loop sz wr segs off (d[x := b]) =
      map_option (\<lambda>(st, d, r). (st, d[x := b], r)) (transfer_loop sz wr segs off d)"
  using assms
proof (induction segs arbitrary: off d)
  case Nil
  then show ?case by simp
next
  case (Cons seg segs)
  from Cons.prems have o: "unat off \<le> unat sz" "length seg < 2 ^ 32" "unat sz \<le> 2 ^ 63" by simp_all
  note c = offset_check[OF o]
  have x: "x < unat off \<or> unat off + length seg \<le> x" using Cons.prems(4) by auto
  show ?case
  proof (cases "sz < off + of_nat (length seg)")
    case True
    then show ?thesis by (simp add: Let_def)
  next
    case False
    with c have le: "unat (off + of_nat (length seg)) \<le> unat sz" by simp
    from Cons.prems c(1) have rest: "small segs"
      "x < unat (off + of_nat (length seg)) \<or> unat (off + of_nat (length seg)) + length (concat segs) \<le> x"
      by auto
    note IH = Cons.IH[OF le Cons.prems(2) rest]
    show ?thesis
    proof (cases wr)
      case True
      then have "wr = True" by simp
      note IH = IH[unfolded this]
      from True False show ?thesis
        by (cases "blk_store d (unat off) seg")
          (simp_all add: blk_store_update[OF x] IH Let_def split: Option.bind_split)
    next
      case rd: False
      then have "wr = False" by simp
      note IH = IH[unfolded this]
      from rd False show ?thesis
        by (simp add: blk_load_update[OF x] IH Let_def split: Option.bind_split)
    qed
  qed
qed

lemma transfer_loop_data:
  assumes "transfer_loop sz wr segs off d = Some (st, d', r)"
    and "unat off \<le> unat sz" and "unat sz \<le> 2 ^ 63" and "small segs"
  shows "length d' = length d \<and> (\<not> wr \<longrightarrow> d' = d) \<and>
    (x < unat off \<or> unat off + length (concat segs) \<le> x \<longrightarrow> d' ! x = d ! x)"
  using assms
proof (induction segs arbitrary: off d r)
  case Nil
  then show ?case by simp
next
  case (Cons seg segs)
  from Cons.prems have o: "unat off \<le> unat sz" "length seg < 2 ^ 32" "unat sz \<le> 2 ^ 63" by simp_all
  note c = offset_check[OF o]
  show ?case
  proof (cases "sz < off + of_nat (length seg)")
    case True
    with Cons.prems(1) show ?thesis by (simp add: Let_def)
  next
    case False
    with c have le: "unat (off + of_nat (length seg)) \<le> unat sz" by simp
    show ?thesis
    proof (cases wr)
      case True
      with False Cons.prems(1) obtain d1 r1 where
        d1: "blk_store d (unat off) seg = Some d1"
        "transfer_loop sz wr segs (off + of_nat (length seg)) d1 = Some (st, d', r1)"
        by (auto simp: Let_def split: Option.bind_splits)
      from Cons.IH[OF d1(2) le Cons.prems(3)] Cons.prems(4) blk_store_frame[OF d1(1)] True c(1)
      show ?thesis by auto
    next
      case rd: False
      with False Cons.prems(1) obtain r1 where
        "transfer_loop sz wr segs (off + of_nat (length seg)) d = Some (st, d', r1)"
        by (auto simp: Let_def split: Option.bind_splits)
      from Cons.IH[OF this le Cons.prems(3)] Cons.prems(4) rd c(1) show ?thesis by auto
    qed
  qed
qed

lemma blk_finish_frame:
  assumes ok: "blk_task_ok sz t" and x: "\<not> rq_touches (bt_rq t) x"
  shows "blk_finish sz t (d[x := b]) = map_option (\<lambda>(st, d, r). (st, d[x := b], r)) (blk_finish sz t d)"
proof (cases "bt_pc t")
  case BtQueue
  from ok BtQueue have le: "unat (rq_pos (bt_rq t)) * 512 \<le> unat sz" and o: "unat sz \<le> 2 ^ 63"
    "small (rq_segs (bt_rq t))" by (simp_all add: blk_task_ok_def rq_start_def)
  note so = sector_offset[OF le]
  from x so have "x < unat (rq_pos (bt_rq t) * BLKRAM_SECTOR_SIZE) \<or>
      unat (rq_pos (bt_rq t) * BLKRAM_SECTOR_SIZE) + length (concat (rq_segs (bt_rq t))) \<le> x"
    by (auto simp: rq_touches_def rq_end_def rq_start_def)
  from transfer_loop_frame[OF _ o this] le so BtQueue show ?thesis by (simp add: blk_finish_def)
next
  case (BtNext segs)
  from ok BtNext have o: "unat (bt_offset t) \<le> unat sz" "unat sz \<le> 2 ^ 63" "small segs"
    by (simp_all add: blk_task_ok_def)
  have "x < unat (bt_offset t) \<or> unat (bt_offset t) + length (concat segs) \<le> x"
    using ok x BtNext by (auto simp: blk_task_ok_def rq_touches_def)
  from transfer_loop_frame[OF o this] BtNext show ?thesis
    by (auto simp: blk_finish_def split: Option.bind_split)
next
  case (BtCopy k seg segs)
  let ?o = "bt_offset t"
  from ok BtCopy have o: "unat ?o + length seg \<le> unat sz" "unat sz \<le> 2 ^ 63" "length seg < 2 ^ 32" "k \<le> length seg"
    "small segs" by (simp_all add: blk_task_ok_def)
  note n = offset_next[OF o(1-3)]
  have r: "x < unat ?o \<or> unat ?o + length seg + length (concat segs) \<le> x"
    using ok x BtCopy by (auto simp: blk_task_ok_def rq_touches_def)
  have k: "x < unat ?o + k \<or> unat ?o + k + length (drop k seg) \<le> x"
    "x < unat ?o + k \<or> unat ?o + k + (length seg - k) \<le> x" using r o(4) by auto
  have "unat (?o + of_nat (length seg)) \<le> unat sz" using n o(1) by simp
  from transfer_loop_frame[OF this o(2,5), of x] r n
  have "transfer_loop sz wr segs (?o + of_nat (length seg)) (d[x := b]) = map_option
      (\<lambda>(st, d, r). (st, d[x := b], r)) (transfer_loop sz wr segs (?o + of_nat (length seg)) d)" for wr d
    by auto
  with BtCopy show ?thesis
    by (cases "rq_write (bt_rq t)")
      (auto simp: blk_finish_def blk_store_update[OF k(1)] blk_load_update[OF k(2)] Let_def
        split: Option.bind_split)
next
  case (BtEnd st segs)
  then show ?thesis by (simp add: blk_finish_def)
qed

lemma blk_finish_data:
  assumes f: "blk_finish sz t d = Some (st, d', r)" and ok: "blk_task_ok sz t"
  shows "length d' = length d \<and> (\<not> rq_write (bt_rq t) \<longrightarrow> d' = d) \<and>
    (\<not> rq_touches (bt_rq t) x \<longrightarrow> d' ! x = d ! x)"
proof (cases "bt_pc t")
  case BtQueue
  show ?thesis
  proof (cases "rq_passthrough (bt_rq t)")
    case True
    with f BtQueue show ?thesis by (simp add: blk_finish_def)
  next
    case False
    from ok BtQueue have le: "unat (rq_pos (bt_rq t)) * 512 \<le> unat sz" and o: "unat sz \<le> 2 ^ 63"
      "small (rq_segs (bt_rq t))" by (simp_all add: blk_task_ok_def rq_start_def)
    note so = sector_offset[OF le]
    from False f BtQueue have t: "transfer_loop sz (rq_write (bt_rq t)) (rq_segs (bt_rq t))
        (rq_pos (bt_rq t) * BLKRAM_SECTOR_SIZE) d = Some (st, d', r)" by (simp add: blk_finish_def)
    from transfer_loop_data[OF t _ o, of x] le so show ?thesis
      by (auto simp: rq_touches_def rq_end_def rq_start_def)
  qed
next
  case (BtNext segs)
  from ok BtNext have o: "unat (bt_offset t) \<le> unat sz" "unat sz \<le> 2 ^ 63" "small segs"
    by (simp_all add: blk_task_ok_def)
  from f BtNext obtain r' where
    t: "transfer_loop sz (rq_write (bt_rq t)) segs (bt_offset t) d = Some (st, d', r')"
    by (auto simp: blk_finish_def Let_def split: Option.bind_splits)
  from transfer_loop_data[OF t o, of x] ok BtNext show ?thesis
    by (auto simp: blk_task_ok_def rq_touches_def)
next
  case (BtCopy k seg segs)
  let ?o = "bt_offset t"
  from ok BtCopy have o: "unat ?o + length seg \<le> unat sz" "unat sz \<le> 2 ^ 63" "length seg < 2 ^ 32" "k \<le> length seg"
    "small segs" by (simp_all add: blk_task_ok_def)
  note n = offset_next[OF o(1-3)]
  have le: "unat (?o + of_nat (length seg)) \<le> unat sz" using n o(1) by simp
  from f BtCopy obtain d1 r' where
    d1: "if rq_write (bt_rq t) then blk_store d (unat ?o + k) (drop k seg) = Some d1 else d1 = d"
    and t: "transfer_loop sz (rq_write (bt_rq t)) segs (?o + of_nat (length seg)) d1 = Some (st, d', r')"
    by (auto simp: blk_finish_def Let_def split: Option.bind_splits if_splits)
  have r: "x < unat ?o \<or> unat ?o + length seg + length (concat segs) \<le> x" if "\<not> rq_touches (bt_rq t) x"
    using ok that BtCopy by (auto simp: blk_task_ok_def rq_touches_def)
  have d: "length d1 = length d \<and> (\<not> rq_touches (bt_rq t) x \<longrightarrow> d1 ! x = d ! x)"
  proof (cases "rq_write (bt_rq t)")
    case True
    with d1 have "blk_store d (unat ?o + k) (drop k seg) = Some d1" by simp
    from blk_store_frame(1)[OF this] blk_store_frame(2)[OF this, of x] r o(4) show ?thesis by auto
  qed (use d1 in simp)
  from transfer_loop_data[OF t le o(2,5), of x] d d1 r n show ?thesis by (auto split: if_splits)
next
  case (BtEnd st segs)
  with f show ?thesis by (simp add: blk_finish_def)
qed

section \<open>Steps and the rest of a call\<close>

lemma blk_store_step:
  assumes "k < length seg" and "off + k < length d"
  shows "blk_store (d[off + k := seg ! k]) (Suc (off + k)) (drop (Suc k) seg) =
    blk_store d (off + k) (drop k seg)"
proof -
  have "drop k seg = seg ! k # drop (Suc k) seg" using assms(1) by (simp add: Cons_nth_drop_Suc)
  with assms show ?thesis
    by (auto simp: blk_store_def take_Suc_conv_app_nth)
qed

lemma blk_load_step:
  assumes "k < length seg" and "off + k < length d"
  shows "do { bs \<leftarrow> blk_load d (Suc (off + k)) (length seg - Suc k); Some (take (Suc k) (seg[k := d ! (off + k)]) @ bs) } =
    do { bs \<leftarrow> blk_load d (off + k) (length seg - k); Some (take k seg @ bs) }"
proof -
  obtain m where m: "length seg - k = Suc m" "length seg - Suc k = m"
    using assms(1) by (metis Suc_diff_Suc)
  have "drop (off + k) d = d ! (off + k) # drop (Suc (off + k)) d"
    using assms(2) by (simp add: Cons_nth_drop_Suc)
  with assms m show ?thesis
    by (auto simp: blk_load_def take_Suc_conv_app_nth)
qed

text \<open>A step leaves what the call will have done in the end.\<close>

lemma blk_step_finish:
  assumes s: "blk_step act dev t = Some (dev', t')" and ok: "blk_task_ok (br_size dev) t"
    and l: "length (br_data dev) = unat (br_size dev)"
  shows "blk_finish (br_size dev) t' (br_data dev') = blk_finish (br_size dev) t (br_data dev)"
proof (cases "bt_pc t")
  case BtQueue
  with s ok show ?thesis
    by (auto simp: blk_step.simps blk_finish_def blk_task_ok_def Let_def split: Option.bind_split)
next
  case (BtNext segs)
  with s show ?thesis
    by (cases segs) (auto simp: blk_step.simps blk_finish_def Let_def split: Option.bind_split if_splits)
next
  case (BtCopy k seg segs)
  let ?o = "unat (bt_offset t)" and ?d = "br_data dev"
  from ok BtCopy l have b: "?o + length seg \<le> length ?d" "k \<le> length seg" by (simp_all add: blk_task_ok_def)
  show ?thesis
  proof (cases "k = length seg")
    case True
    with b s BtCopy show ?thesis
      by (cases "rq_write (bt_rq t)")
        (auto simp: blk_step.simps blk_finish_def blk_store_def blk_load_def Let_def split: Option.bind_split)
  next
    case False
    with b have k: "k < length seg" "?o + k < length ?d" by simp_all
    show ?thesis
    proof (cases "rq_write (bt_rq t)")
      case True
      with s BtCopy k have "dev' = dev\<lparr>br_data := ?d[?o + k := seg ! k]\<rparr>" "t' = t\<lparr>bt_pc := BtCopy (Suc k) seg segs\<rparr>"
        by (auto simp: blk_step.simps Let_def)
      with True BtCopy k blk_store_step[OF k] show ?thesis by (simp add: blk_finish_def)
    next
      case rd: False
      let ?k = "\<lambda>seg'. do { (st, d', segs) \<leftarrow> transfer_loop (br_size dev) False segs
          (bt_offset t + of_nat (length seg)) ?d; Some (st, d', bt_done t @ seg' # segs) }"
      from rd s BtCopy k have t': "dev' = dev" "t' = t\<lparr>bt_pc := BtCopy (Suc k) (seg[k := ?d ! (?o + k)]) segs\<rparr>"
        by (auto simp: blk_step.simps Let_def)
      have "do { seg' \<leftarrow> do { bs \<leftarrow> blk_load ?d (Suc (?o + k)) (length seg - Suc k);
            Some (take (Suc k) (seg[k := ?d ! (?o + k)]) @ bs) }; ?k seg' } =
          do { seg' \<leftarrow> do { bs \<leftarrow> blk_load ?d (?o + k) (length seg - k); Some (take k seg @ bs) }; ?k seg' }"
        by (simp only: blk_load_step[OF k])
      with rd BtCopy t' show ?thesis by (simp add: blk_finish_def Let_def)
    qed
  qed
next
  case (BtEnd st segs)
  with s show ?thesis by (simp add: blk_step.simps)
qed

text \<open>A step looks at bytes of its request only: on another array that agrees on them it does the same.\<close>

lemma blk_step_local:
  assumes s: "blk_step act dev t = Some (dev', t')" and ok: "blk_task_ok (br_size dev) t"
    and l: "length d = length (br_data dev)"
    and same: "\<And>x. rq_touches (bt_rq t) x \<Longrightarrow> d ! x = br_data dev ! x"
  shows "dev' = dev \<and> blk_step act (dev\<lparr>br_data := d\<rparr>) t = Some (dev\<lparr>br_data := d\<rparr>, t') \<or>
    (\<exists>x b. rq_write (bt_rq t) \<and> rq_touches (bt_rq t) x \<and>
      dev' = dev\<lparr>br_data := (br_data dev)[x := b]\<rparr> \<and>
      blk_step act (dev\<lparr>br_data := d\<rparr>) t = Some (dev\<lparr>br_data := d[x := b]\<rparr>, t'))"
proof (cases "\<exists>k seg segs. bt_pc t = BtCopy k seg segs \<and> k < length seg")
  case True
  then obtain k seg segs where c: "bt_pc t = BtCopy k seg segs" "k < length seg" by blast
  let ?x = "unat (bt_offset t) + k"
  have t: "rq_touches (bt_rq t) ?x" using ok c by (auto simp: blk_task_ok_def rq_touches_def)
  from s c have x: "?x < length (br_data dev)" by (auto simp: blk_step.simps Let_def split: if_splits)
  show ?thesis
  proof (cases "rq_write (bt_rq t)")
    case True
    with s c x t l show ?thesis
      by (intro disjI2 exI[of _ ?x] exI[of _ "seg ! k"]) (auto simp: blk_step.simps Let_def)
  next
    case False
    with s c x l same[OF t] show ?thesis by (auto simp: blk_step.simps Let_def)
  qed
next
  case False
  with s show ?thesis
    by (cases "bt_pc t") (auto simp: blk_step.simps Let_def split: list.splits if_splits)
qed

text \<open>So a step of any call of several leaves what they will have done one after the other.\<close>

lemma blk_finish_all_step:
  assumes "i < length ts" and "blk_step act dev (ts ! i) = Some (dev', t')"
    and "\<forall>t \<in> set ts. blk_task_ok (br_size dev) t"
    and "\<forall>j < length ts. j \<noteq> i \<longrightarrow> rq_apart (bt_rq (ts ! j)) (bt_rq (ts ! i))"
    and "length (br_data dev) = unat (br_size dev)"
    and "blk_finish_all (br_size dev) (br_data dev) ts = Some r"
  shows "blk_finish_all (br_size dev) (br_data dev') (ts[i := t']) = Some r"
  using assms
proof (induction ts arbitrary: i dev dev' r)
  case Nil
  then show ?case by simp
next
  case (Cons t ts)
  show ?case
  proof (cases i)
    case 0
    with Cons.prems blk_step_finish[of act dev t dev' t'] show ?thesis by auto
  next
    case (Suc m)
    let ?u = "ts ! m" and ?sz = "br_size dev"
    from Cons.prems Suc have m: "m < length ts" and s: "blk_step act dev ?u = Some (dev', t')"
      and ap: "rq_apart (bt_rq t) (bt_rq ?u)" and ok: "blk_task_ok ?sz t" "blk_task_ok ?sz ?u" by auto
    from Cons.prems(6) obtain st d1 r1 d2 r2 where f: "blk_finish ?sz t (br_data dev) = Some (st, d1, r1)"
      and rest: "blk_finish_all ?sz d1 ts = Some (d2, r2)" and r: "r = (d2, (st, r1) # r2)"
      by (auto split: Option.bind_splits)
    note d = blk_finish_data[OF f ok(1)]
    have same: "d1 ! x = br_data dev ! x" if "rq_touches (bt_rq ?u) x" for x
      using ap that d[of x] by (auto simp: rq_apart_def rq_touches_def)
    have l: "length d1 = length (br_data dev)" using d by blast
    let ?dev = "dev\<lparr>br_data := d1\<rparr>"
    have ap': "\<forall>j < length ts. j \<noteq> m \<longrightarrow> rq_apart (bt_rq (ts ! j)) (bt_rq ?u)"
      using Cons.prems(4) Suc by fastforce
    have IH: "blk_finish_all ?sz (br_data dev2) (ts[m := t']) = Some (d2, r2)"
      if "blk_step act ?dev ?u = Some (dev2, t')" for dev2
      using Cons.IH[OF m that] ap' Cons.prems(3,5) l rest by simp
    have "dev' = dev \<and> blk_step act ?dev ?u = Some (?dev, t') \<or>
        (\<exists>x b. rq_write (bt_rq ?u) \<and> rq_touches (bt_rq ?u) x \<and>
          dev' = dev\<lparr>br_data := (br_data dev)[x := b]\<rparr> \<and>
          blk_step act ?dev ?u = Some (dev\<lparr>br_data := d1[x := b]\<rparr>, t'))"
      by (rule blk_step_local[OF s ok(2) l]) (rule same)
    then show ?thesis
    proof (elim disjE exE conjE)
      assume "dev' = dev" "blk_step act ?dev ?u = Some (?dev, t')"
      with IH f r Suc show ?thesis by auto
    next
      fix x b
      assume x: "rq_write (bt_rq ?u)" "rq_touches (bt_rq ?u) x" "dev' = dev\<lparr>br_data := (br_data dev)[x := b]\<rparr>"
        "blk_step act ?dev ?u = Some (dev\<lparr>br_data := d1[x := b]\<rparr>, t')"
      have "\<not> rq_touches (bt_rq t) x" using ap x(1,2) by (auto simp: rq_apart_def rq_touches_def)
      from blk_finish_frame[OF ok(1) this, of "br_data dev" b] f IH[OF x(4)] x(3) r Suc show ?thesis by simp
    qed
  qed
qed

section \<open>Runs\<close>

text \<open>The calls, one for each request that the block layer hands out; the other threads have none.\<close>

definition blk_boot :: "blkram \<Rightarrow> request list \<Rightarrow> (blkram, blk_task) threads" where
  "blk_boot s rqs = \<lparr>th_shared = s,
     th_local = (\<lambda>i. if i < length rqs then blk_call (rqs ! i)
       else \<lparr>bt_rq = \<lparr>rq_pos = 0, rq_write = False, rq_passthrough = False, rq_segs = []\<rparr>, bt_offset = 0,
         bt_done = [], bt_pc = BtEnd BLK_STS_OK []\<rparr>)\<rparr>"

text \<open>How a call ended: the status and the segments with what was read into them.\<close>

definition blk_result :: "blk_task \<Rightarrow> (blk_status \<times> char list list) option" where
  "blk_result t = (case bt_pc t of BtEnd st segs \<Rightarrow> Some (st, bt_done t @ segs) | _ \<Rightarrow> None)"

text \<open>The requests one after the other.\<close>

fun blkram_serve ::
    "blkram \<Rightarrow> request list \<Rightarrow> (blkram \<times> (blk_status \<times> char list list) list) option" where
  "blkram_serve s [] = Some (s, [])"
| "blkram_serve s (rq # rqs) =
     do { (_, st, s, rq) \<leftarrow> blkram_queue_rq s rq;
          (s, rets) \<leftarrow> blkram_serve s rqs;
          Some (s, (st, rq_segs rq) # rets) }"

text \<open>The steps that a call has before it at most.\<close>

definition segs_work :: "char list list \<Rightarrow> nat" where
  "segs_work segs = sum_list (map (\<lambda>seg. length seg + 2) segs)"

definition blk_work :: "blk_task \<Rightarrow> nat" where
  "blk_work t =
     (case bt_pc t of
        BtQueue \<Rightarrow> 2 + segs_work (rq_segs (bt_rq t))
      | BtNext segs \<Rightarrow> 1 + segs_work segs
      | BtCopy k seg segs \<Rightarrow> 2 + (length seg - k) + segs_work segs
      | BtEnd st segs \<Rightarrow> 0)"

definition blk_own :: "blkram \<Rightarrow> blk_task \<Rightarrow> bool" where
  "blk_own dev t \<longleftrightarrow> length (br_data dev) = unat (br_size dev) \<and> blk_task_ok (br_size dev) t"

lemma blk_step_work: "blk_step act dev t = Some (dev', t') \<Longrightarrow> blk_work t' < blk_work t"
  by (cases "bt_pc t")
    (auto simp: blk_step.simps blk_work_def segs_work_def Let_def split: list.splits if_splits)

interpretation blk_calls: wait_free blk_step "\<lambda>_. True" blk_own "\<lambda>_ _. True" "\<lambda>_. True" blk_work
proof
  fix a g l g' l'
  assume s: "blk_step a g l = Some (g', l')"
  show "blk_work l' < blk_work l" by (rule blk_step_work[OF s])
  assume "blk_own g l"
  with blk_step_task_ok[OF s] show "blk_own g' l'" by (simp add: blk_own_def)
  show "blk_own g' m \<and> True" if "blk_own g m" for m
    using blk_step_task_ok[OF s] \<open>blk_own g l\<close> that by (simp add: blk_own_def)
qed simp

lemma blk_step_possible: "blk_own dev t \<Longrightarrow> blk_result t = None \<Longrightarrow> blk_step act dev t \<noteq> None"
  by (cases "bt_pc t")
    (auto simp: blk_step.simps blk_own_def blk_task_ok_def blk_result_def Let_def split: list.split)

lemma blk_boot_own:
  assumes "blkram_good s" and "\<forall>rq \<in> set rqs. request_ok s rq" and "unat (br_size s) \<le> 2 ^ 63"
  shows "blk_calls.all_own (blk_boot s rqs)"
  using assms
  by (auto simp: blk_calls.all_own_def blk_boot_def blk_own_def blk_call_def blk_task_ok_def blkram_good_def
      request_ok_def rq_start_def)

section \<open>One after the other\<close>

lemma blkram_queue_rq_finish:
  "blkram_queue_rq s rq = map_option
    (\<lambda>(st, d, segs). (BLK_STS_OK, st, s\<lparr>br_data := d\<rparr>, rq\<lparr>rq_segs := segs\<rparr>))
    (blk_finish (br_size s) (blk_call rq) (br_data s))"
  by (auto simp: blkram_queue_rq_def blkram_transfer_def blk_finish_def blk_call_def Let_def
      split: Option.bind_split)

lemma blkram_serve_finish:
  "blkram_serve s rqs = map_option (\<lambda>(d, rets). (s\<lparr>br_data := d\<rparr>, rets))
    (blk_finish_all (br_size s) (br_data s) (map blk_call rqs))"
proof (induction rqs arbitrary: s)
  case Nil
  then show ?case by simp
next
  case (Cons rq rqs)
  show ?case
  proof (cases "blk_finish (br_size s) (blk_call rq) (br_data s)")
    case None
    then show ?thesis by (simp add: blkram_queue_rq_finish)
  next
    case (Some x)
    obtain st d segs where x: "x = (st, d, segs)" by (cases x)
    from Cons.IH[of "s\<lparr>br_data := d\<rparr>"] show ?thesis
      by (auto simp: blkram_queue_rq_finish Some x split: Option.bind_split)
  qed
qed

lemma blkram_queue_rq_total:
  assumes g: "blkram_good s" and ok: "request_ok s rq"
  shows "\<exists>st s' rq'. blkram_queue_rq s rq = Some (BLK_STS_OK, st, s', rq') \<and> blkram_good s' \<and>
    br_size s' = br_size s"
proof (cases "rq_passthrough rq")
  case True
  with g show ?thesis by (simp add: blkram_queue_rq_def)
next
  case False
  from ok have le: "unat (rq_pos rq) * 512 \<le> unat (br_size s)" and o: "unat (br_size s) \<le> 2 ^ 63"
    "small (rq_segs rq)" by (simp_all add: request_ok_def)
  have le': "unat (rq_pos rq * BLKRAM_SECTOR_SIZE) \<le> unat (br_size s)" using le sector_offset[OF le] by simp
  have d: "length (br_data s) = unat (br_size s)" using g by (simp add: blkram_good_def)
  obtain st d' segs where t: "transfer_loop (br_size s) (rq_write rq) (rq_segs rq)
      (rq_pos rq * BLKRAM_SECTOR_SIZE) (br_data s) = Some (st, d', segs)"
    using transfer_write[OF le' o(1) d o(2)] transfer_read[OF le' o(1) d o(2)] by (cases "rq_write rq") auto
  from transfer_loop_data[OF t le' o] g False t show ?thesis
    by (simp add: blkram_queue_rq_def blkram_transfer_def blkram_good_def Let_def)
qed

lemma blkram_serve_total:
  assumes "blkram_good s" and "\<forall>rq \<in> set rqs. request_ok s rq"
  shows "blkram_serve s rqs \<noteq> None"
  using assms
proof (induction rqs arbitrary: s)
  case Nil
  then show ?case by simp
next
  case (Cons rq rqs)
  then obtain st s' rq' where q: "blkram_queue_rq s rq = Some (BLK_STS_OK, st, s', rq')" "blkram_good s'"
    "br_size s' = br_size s" using blkram_queue_rq_total[of s rq] by fastforce
  with Cons.prems have "\<forall>rq \<in> set rqs. request_ok s' rq" by (simp add: request_ok_def)
  from Cons.IH[OF q(2) this] q(1) show ?case by (auto split: Option.bind_split)
qed

text \<open>What a run keeps: the requests, and what the calls will have done one after the other.\<close>

definition blk_tasks :: "nat \<Rightarrow> (blkram, blk_task) threads \<Rightarrow> blk_task list" where
  "blk_tasks n c = map (th_local c) [0..<n]"

definition blk_inv ::
    "blkram \<Rightarrow> request list \<Rightarrow> char list \<times> (blk_status \<times> char list list) list \<Rightarrow>
      (blkram, blk_task) threads \<Rightarrow> bool" where
  "blk_inv s rqs r c \<longleftrightarrow>
     blk_calls.all_own c \<and> (\<exists>d. th_shared c = s\<lparr>br_data := d\<rparr>) \<and>
     map bt_rq (blk_tasks (length rqs) c) = rqs \<and>
     (\<forall>i. length rqs \<le> i \<longrightarrow> blk_result (th_local c i) \<noteq> None) \<and>
     blk_finish_all (br_size s) (br_data (th_shared c)) (blk_tasks (length rqs) c) = Some r"

lemma blk_step_shared: "blk_step act dev t = Some (dev', t') \<Longrightarrow> \<exists>d. dev' = dev\<lparr>br_data := d\<rparr>"
  by (cases "bt_pc t") (auto simp: blk_step.simps Let_def split: list.splits if_splits intro: exI[of _ "br_data dev"])

lemma blk_step_none: "blk_result t \<noteq> None \<Longrightarrow> blk_step act dev t = None"
  by (cases "bt_pc t") (auto simp: blk_step.simps blk_result_def)

lemma blk_tasks_upd:
  "i < n \<Longrightarrow>
    blk_tasks n \<lparr>th_shared = g, th_local = (th_local c)(i := t)\<rparr> = (blk_tasks n c)[i := t]"
  by (intro nth_equalityI) (auto simp: blk_tasks_def nth_list_update)

lemma blk_inv_step:
  assumes c: "blk_inv s rqs r c" and s: "blk_step act (th_shared c) (th_local c i) = Some (g, l)"
    and apart: "\<And>i j. i < j \<Longrightarrow> j < length rqs \<Longrightarrow> rq_apart (rqs ! i) (rqs ! j)"
  shows "blk_inv s rqs r \<lparr>th_shared = g, th_local = (th_local c)(i := l)\<rparr>"
proof -
  let ?n = "length rqs" and ?c = "\<lparr>th_shared = g, th_local = (th_local c)(i := l)\<rparr>"
  from c blk_step_none s have i: "i < ?n" by (metis blk_inv_def leI option.distinct(1))
  from c have own: "blk_calls.all_own c" and rq: "map bt_rq (blk_tasks ?n c) = rqs"
    and f: "blk_finish_all (br_size s) (br_data (th_shared c)) (blk_tasks ?n c) = Some r"
    and sz: "br_size (th_shared c) = br_size s" by (auto simp: blk_inv_def)
  have o: "blk_own (th_shared c) (th_local c j)" for j using own by (simp add: blk_calls.all_own_def)
  have ti: "blk_tasks ?n c ! i = th_local c i" using i by (simp add: blk_tasks_def)
  have ts: "blk_tasks ?n ?c = (blk_tasks ?n c)[i := l]"
    by (rule blk_tasks_upd[OF i])
  have rqi: "bt_rq (blk_tasks ?n c ! j) = rqs ! j" if "j < ?n" for j
    using that rq by (metis length_map nth_map)
  from blk_step_task_ok[OF s] o[of i] have rql: "bt_rq l = bt_rq (th_local c i)" by (simp add: blk_own_def)
  have "blk_finish_all (br_size (th_shared c)) (br_data g) ((blk_tasks ?n c)[i := l]) = Some r"
  proof (rule blk_finish_all_step[where act = act])
    show "i < length (blk_tasks ?n c)" using i by (simp add: blk_tasks_def)
    show "blk_step act (th_shared c) (blk_tasks ?n c ! i) = Some (g, l)" using s ti by simp
    show "\<forall>t \<in> set (blk_tasks ?n c). blk_task_ok (br_size (th_shared c)) t"
      using o by (auto simp: blk_tasks_def blk_own_def)
    show "length (br_data (th_shared c)) = unat (br_size (th_shared c))" using o by (simp add: blk_own_def)
    show "blk_finish_all (br_size (th_shared c)) (br_data (th_shared c)) (blk_tasks ?n c) = Some r"
      using f sz by simp
    show "\<forall>j < length (blk_tasks ?n c). j \<noteq> i \<longrightarrow>
        rq_apart (bt_rq (blk_tasks ?n c ! j)) (bt_rq (blk_tasks ?n c ! i))"
    proof (intro allI impI)
      fix j
      assume "j < length (blk_tasks ?n c)" and ne: "j \<noteq> i"
      then have j: "j < ?n" by (simp add: blk_tasks_def)
      from ne have "rq_apart (rqs ! j) (rqs ! i)"
        using apart[of i j] apart[of j i] i j rq_apart_commute[of "rqs ! i" "rqs ! j"] by (meson neqE)
      then show "rq_apart (bt_rq (blk_tasks ?n c ! j)) (bt_rq (blk_tasks ?n c ! i))"
        by (simp add: rqi i j)
    qed
  qed
  moreover have "map bt_rq ((blk_tasks ?n c)[i := l]) = rqs"
    using rq rql rqi[OF i] ti by (simp add: map_update)
  moreover obtain d where "g = (th_shared c)\<lparr>br_data := d\<rparr>" using blk_step_shared[OF s] by blast
  ultimately show ?thesis using c blk_calls.all_own_step[OF own _ s] ts i sz
    by (auto simp: blk_inv_def)
qed

lemma blk_inv_boot:
  assumes own: "blk_calls.all_own (blk_boot s rqs)"
    and f: "blk_finish_all (br_size s) (br_data s) (map blk_call rqs) = Some r"
  shows "blk_inv s rqs r (blk_boot s rqs)"
proof -
  have t: "blk_tasks (length rqs) (blk_boot s rqs) = map blk_call rqs"
    by (intro nth_equalityI) (simp_all add: blk_tasks_def blk_boot_def)
  have "map bt_rq (map blk_call rqs) = rqs" by (induction rqs) (simp_all add: blk_call_def)
  moreover have "\<exists>d. th_shared (blk_boot s rqs) = s\<lparr>br_data := d\<rparr>"
    by (intro exI[of _ "br_data s"]) (simp add: blk_boot_def)
  moreover have "th_shared (blk_boot s rqs) = s" by (simp add: blk_boot_def)
  moreover have "blk_result (th_local (blk_boot s rqs) i) \<noteq> None" if "length rqs \<le> i" for i
    using that by (simp add: blk_boot_def blk_result_def)
  ultimately show ?thesis using own f t by (simp add: blk_inv_def)
qed

lemma blk_finish_all_ended:
  "\<forall>t \<in> set ts. blk_result t \<noteq> None \<Longrightarrow>
    \<exists>rets. map blk_result ts = map Some rets \<and> blk_finish_all sz d ts = Some (d, rets)"
proof (induction ts)
  case Nil
  then show ?case by simp
next
  case (Cons t ts)
  then obtain rets where r: "map blk_result ts = map Some rets" "blk_finish_all sz d ts = Some (d, rets)"
    by auto
  from Cons.prems obtain st segs where "bt_pc t = BtEnd st segs"
    by (cases "bt_pc t") (auto simp: blk_result_def)
  then have "blk_result t = Some (st, bt_done t @ segs)" "blk_finish sz t d = Some (st, d, bt_done t @ segs)"
    by (simp_all add: blk_result_def blk_finish_def)
  with r show ?case by (intro exI[of _ "(st, bt_done t @ segs) # rets"]) simp
qed

lemma blk_inv_ended:
  assumes c: "blk_inv s rqs r c" and all: "\<forall>i < length rqs. blk_result (th_local c i) \<noteq> None"
  shows "\<exists>rets. map (\<lambda>i. blk_result (th_local c i)) [0..<length rqs] = map Some rets \<and>
    th_shared c = s\<lparr>br_data := fst r\<rparr> \<and> snd r = rets"
proof -
  have "\<forall>t \<in> set (blk_tasks (length rqs) c). blk_result t \<noteq> None" using all by (auto simp: blk_tasks_def)
  from blk_finish_all_ended[OF this, of "br_size s" "br_data (th_shared c)"] c show ?thesis
    by (auto simp: blk_inv_def blk_tasks_def comp_def)
qed

section \<open>Properties\<close>

definition two_requests :: "request list" where
  "two_requests =
     [\<lparr>rq_pos = 1, rq_write = True, rq_passthrough = False, rq_segs = [''ab'']\<rparr>,
      \<lparr>rq_pos = 0, rq_write = False, rq_passthrough = False, rq_segs = [''xy'']\<rparr>]"

definition two_runs :: "(nat \<times> unit) list" where
  "two_runs = map (\<lambda>i. (i, ())) [0, 1, 0, 1, 0, 1, 1, 0, 1, 0, 1, 0]"

text \<open>
  C7 (refinement): requests that keep out of each other's way, in any number at once and in any
  interleaving down to the bytes: each takes a bounded number of its own steps, at any time a call
  that has not ended can take its next step, inside the array, and when all have ended the disk, every status
  and every byte read are those of the requests one after the other.
\<close>

theorem blkram_batch_serial:
  assumes good: "blkram_good s" "unat (br_size s) \<le> 2 ^ 63" and ok: "\<forall>rq \<in> set rqs. request_ok s rq"
    and apart: "\<forall>i j. i < j \<and> j < length rqs \<longrightarrow> rq_apart (rqs ! i) (rqs ! j)"
    and run: "threads_run blk_step (blk_boot s rqs) acts = Some c"
  shows "(\<forall>i < length rqs. length (filter (\<lambda>act. fst act = i) acts) \<le> 2 + segs_work (rq_segs (rqs ! i)) \<and>
      (blk_result (th_local c i) = None \<longrightarrow> threads_exec blk_step c (i, ()) \<noteq> None)) \<and>
    ((\<forall>i < length rqs. blk_result (th_local c i) \<noteq> None) \<longrightarrow>
      (\<exists>rets. map (\<lambda>i. blk_result (th_local c i)) [0..<length rqs] = map Some rets \<and>
        blkram_serve s rqs = Some (th_shared c, rets)))"
proof -
  have own: "blk_calls.all_own (blk_boot s rqs)" by (rule blk_boot_own[OF good(1) ok good(2)])
  obtain r where f: "blk_finish_all (br_size s) (br_data s) (map blk_call rqs) = Some r"
    using blkram_serve_total[OF good(1) ok] by (auto simp: blkram_serve_finish)
  have "blk_inv s rqs r c"
    by (rule threads_run_induct[where P = "blk_inv s rqs r" and ok = "\<lambda>_. True",
          OF run _ blk_inv_boot[OF own f]])
      (use apart in \<open>auto intro: blk_inv_step simp: list_all_iff\<close>)
  then have inv: "blk_inv s rqs r c" "blk_calls.all_own c" by (simp_all add: blk_inv_def)
  have "blk_work (th_local (blk_boot s rqs) i) = 2 + segs_work (rq_segs (rqs ! i))" if "i < length rqs" for i
    using that by (simp add: blk_boot_def blk_call_def blk_work_def)
  then have "length (filter (\<lambda>act. fst act = i) acts) \<le> 2 + segs_work (rq_segs (rqs ! i))"
    if "i < length rqs" for i
    using blk_calls.steps_bounded[OF run _ own, of i] that by (simp add: list_all_iff)
  moreover have "threads_exec blk_step c (i, ()) \<noteq> None" if "blk_result (th_local c i) = None" for i
    using blk_step_possible[OF _ that, of "th_shared c" "()"] inv(2)
    by (auto simp: blk_calls.all_own_def threads_exec_def split: option.split)
  moreover have "blkram_serve s rqs = Some (s\<lparr>br_data := fst r\<rparr>, snd r)"
    by (simp add: blkram_serve_finish f split_beta)
  ultimately show ?thesis using blk_inv_ended[OF inv(1)] by auto
qed

theorem blkram_batch_serial_witness:
  "\<exists>c rets. threads_run blk_step (blk_boot blkram_small two_requests) two_runs = Some c \<and>
    blkram_serve blkram_small two_requests = Some (th_shared c, rets) \<and>
    rets = [(BLK_STS_OK, [''ab'']), (BLK_STS_OK, [[NUL, NUL]])]"
proof -
  have ok: "\<forall>rq \<in> set two_requests. request_ok blkram_small rq" "unat (br_size blkram_small) \<le> 2 ^ 63"
    by (simp_all add: two_requests_def request_ok_def blkram_small_def)
  have "\<forall>i j. i < j \<and> j < length two_requests \<longrightarrow> rq_apart (two_requests ! i) (two_requests ! j)"
    by (auto simp: two_requests_def less_Suc_eq rq_apart_def rq_start_def rq_end_def)
  note t = blkram_batch_serial[OF blkram_small_good ok(2,1) this]
  obtain c where c: "threads_run blk_step (blk_boot blkram_small two_requests) two_runs = Some c"
    "blk_result (th_local c 0) = Some (BLK_STS_OK, [''ab''])"
    "blk_result (th_local c 1) = Some (BLK_STS_OK, [[NUL, NUL]])"
    by (simp add: two_runs_def two_requests_def blk_boot_def blk_call_def blkram_small_def threads_exec_def
        blk_step.simps blk_result_def BLKRAM_SECTOR_SIZE_def)
  have "\<forall>i < length two_requests. blk_result (th_local c i) \<noteq> None"
    using c by (auto simp: two_requests_def less_Suc_eq)
  with t[OF c(1)] c show ?thesis by (auto simp: two_requests_def upt_rec)
qed

end
