(* ===== verification/Debugfs_Smp.thy ===== *)
theory Debugfs_Smp
  imports Debugfs_File Interleaving
begin

text \<open>
  \<open>hello-debugfs-file.c\<close> with any number of processes in its functions at the same time. The
  functions of \<open>Debugfs_File\<close> are cut here into steps, one for each statement that touches
  \<open>message_lock\<close>, \<open>message\<close> or \<open>message_len\<close>. A process that finds the mutex taken has no step until it is
  free. A call of \<open>simple_read_from_buffer\<close> or \<open>simple_write_to_buffer\<close>, which are parameters, is one
  step.
\<close>

section \<open>Steps\<close>

text \<open>A system call: the user memory, the address and the length of the buffer, the file offset.\<close>

datatype df_call = DfRead umem nat nat int | DfWrite umem nat nat int

text \<open>
  Where a process is: in user mode; in \<open>message_read\<close> before \<open>mutex_lock\<close>, before
  \<open>simple_read_from_buffer\<close> and before \<open>mutex_unlock\<close> (\<open>ret\<close>); in \<open>message_write\<close> before the test of the
  offset, before \<open>mutex_lock\<close>, before \<open>simple_write_to_buffer\<close>, before the test of \<open>copied\<close> and the
  assignment to \<open>message_len\<close>, before the assignment to \<open>message[message_len]\<close>, and before
  \<open>mutex_unlock\<close>. In \<open>DfOops\<close> it has left the array, and the kernel has killed it.
\<close>

datatype df_pc =
    DfUser
  | ReadLock nat nat
  | ReadBuffer nat nat
  | ReadUnlock int
  | WriteTest nat nat
  | WriteLock nat nat
  | WriteBuffer nat nat
  | WriteLen int
  | WriteNul int
  | WriteUnlock int
  | DfOops

record df_proc =
  dp_pc :: df_pc
  dp_mem :: umem
  dp_ppos :: int
  dp_ret :: int

record df_shared =
  ds_file :: debugfs_file
  ds_lock :: bool

fun df_message_read ::
    "simple_read \<Rightarrow> df_shared \<Rightarrow> df_proc \<Rightarrow> df_pc \<Rightarrow> (df_shared \<times> df_proc) option" where
  "df_message_read srb s p (ReadLock buffer len) =
     (if ds_lock s then None
      else Some (s\<lparr>ds_lock := True\<rparr>, p\<lparr>dp_pc := ReadBuffer buffer len\<rparr>))"
| "df_message_read srb s p (ReadBuffer buffer len) =
     Some (s,
       if df_message_len (ds_file s) \<le> length (df_message (ds_file s))
       then (case srb (dp_mem p) buffer len (dp_ppos p)
                    (take (df_message_len (ds_file s)) (df_message (ds_file s))) of
               (ret, ppos, u) \<Rightarrow> p\<lparr>dp_mem := u, dp_ppos := ppos, dp_pc := ReadUnlock ret\<rparr>)
       else p\<lparr>dp_pc := DfOops\<rparr>)"
| "df_message_read srb s p (ReadUnlock ret) =
     Some (s\<lparr>ds_lock := False\<rparr>, p\<lparr>dp_pc := DfUser, dp_ret := ret\<rparr>)"
| "df_message_read srb s p _ = None"

fun df_message_write ::
    "simple_write \<Rightarrow> df_shared \<Rightarrow> df_proc \<Rightarrow> df_pc \<Rightarrow> (df_shared \<times> df_proc) option" where
  "df_message_write swb s p (WriteTest buffer len) =
     Some (s, if dp_ppos p \<noteq> 0 then p\<lparr>dp_pc := DfUser, dp_ret := - EINVAL\<rparr>
              else p\<lparr>dp_pc := WriteLock buffer len\<rparr>)"
| "df_message_write swb s p (WriteLock buffer len) =
     (if ds_lock s then None
      else Some (s\<lparr>ds_lock := True\<rparr>, p\<lparr>dp_pc := WriteBuffer buffer len\<rparr>))"
| "df_message_write swb s p (WriteBuffer buffer len) =
     (case swb (df_message (ds_file s)) (length (df_message (ds_file s)) - 1) (dp_ppos p)
             (dp_mem p) buffer len of
        (copied, ppos, m) \<Rightarrow>
          Some (s\<lparr>ds_file := (ds_file s)\<lparr>df_message := m\<rparr>\<rparr>,
                p\<lparr>dp_ppos := ppos, dp_pc := WriteLen copied\<rparr>))"
| "df_message_write swb s p (WriteLen copied) =
     (if copied > 0
      then Some (s\<lparr>ds_file := (ds_file s)\<lparr>df_message_len := nat (dp_ppos p)\<rparr>\<rparr>,
                 p\<lparr>dp_pc := WriteNul copied\<rparr>)
      else Some (s, p\<lparr>dp_pc := WriteUnlock copied\<rparr>))"
| "df_message_write swb s p (WriteNul copied) =
     (let f = ds_file s in
      if df_message_len f < length (df_message f)
      then Some (s\<lparr>ds_file := f\<lparr>df_message := (df_message f)[df_message_len f := NUL]\<rparr>\<rparr>,
                 p\<lparr>dp_pc := WriteUnlock copied\<rparr>)
      else Some (s, p\<lparr>dp_pc := DfOops\<rparr>))"
| "df_message_write swb s p (WriteUnlock copied) =
     Some (s\<lparr>ds_lock := False\<rparr>, p\<lparr>dp_pc := DfUser, dp_ret := copied\<rparr>)"
| "df_message_write swb s p _ = None"

text \<open>The table \<open>message_fops\<close>: where a system call begins.\<close>

definition df_fops :: "df_call \<Rightarrow> df_proc \<Rightarrow> df_proc" where
  "df_fops call p =
     (case call of
        DfRead u a n off \<Rightarrow> p\<lparr>dp_mem := u, dp_ppos := off, dp_pc := ReadLock a n\<rparr>
      | DfWrite u a n off \<Rightarrow> p\<lparr>dp_mem := u, dp_ppos := off, dp_pc := WriteTest a n\<rparr>)"

text \<open>A process calls, or takes a step in its call, during which its memory is its own.\<close>

datatype df_action = DfCall df_call | DfStep

fun df_step ::
    "simple_read \<Rightarrow> simple_write \<Rightarrow> (df_action, df_shared, df_proc) thread_step" where
  "df_step srb swb (DfCall call) s p = (if dp_pc p = DfUser then Some (s, df_fops call p) else None)"
| "df_step srb swb DfStep s p =
     (case dp_pc p of
        ReadLock _ _ \<Rightarrow> df_message_read srb s p (dp_pc p)
      | ReadBuffer _ _ \<Rightarrow> df_message_read srb s p (dp_pc p)
      | ReadUnlock _ \<Rightarrow> df_message_read srb s p (dp_pc p)
      | _ \<Rightarrow> df_message_write swb s p (dp_pc p))"

type_synonym df_conf = "(df_shared, df_proc) threads"

definition df_boot :: "(nat \<Rightarrow> umem) \<Rightarrow> df_conf" where
  "df_boot us = \<lparr>th_shared = \<lparr>ds_file = debugfs_file_zero, ds_lock = False\<rparr>,
     th_local = (\<lambda>i. \<lparr>dp_pc = DfUser, dp_mem = us i, dp_ppos = 0, dp_ret = 0\<rparr>)\<rparr>"

section \<open>Calls are atomic\<close>

text \<open>A process is inside when it has the mutex.\<close>

fun df_inside :: "df_pc \<Rightarrow> bool" where
  "df_inside DfUser \<longleftrightarrow> False"
| "df_inside (ReadLock a n) \<longleftrightarrow> False"
| "df_inside (WriteTest a n) \<longleftrightarrow> False"
| "df_inside (WriteLock a n) \<longleftrightarrow> False"
| "df_inside _ \<longleftrightarrow> True"

text \<open>Past its first test, a write is at the beginning of the file.\<close>

definition df_own :: "df_shared \<Rightarrow> df_proc \<Rightarrow> bool" where
  "df_own s p \<longleftrightarrow>
     (case dp_pc p of WriteLock a n \<Rightarrow> dp_ppos p = 0 | WriteBuffer a n \<Rightarrow> dp_ppos p = 0 | _ \<Rightarrow> True)"

text \<open>A call in one go, by the functions of \<open>Debugfs_File\<close>: what it returns, the offset, the memory.\<close>

definition df_whole ::
    "simple_read \<Rightarrow> simple_write \<Rightarrow> df_call \<Rightarrow> debugfs_file \<Rightarrow> ((int \<times> int \<times> umem) \<times> debugfs_file) option" where
  "df_whole srb swb call f =
     (case call of
        DfRead u a n off \<Rightarrow> map_option (\<lambda>x. (x, f)) (message_read srb f u a n off)
      | DfWrite u a n off \<Rightarrow> map_option (\<lambda>(r, off, f). ((r, off, u), f)) (message_write swb f u a n off))"

text \<open>What a process that has the mutex still does.\<close>

definition df_end :: "debugfs_file \<Rightarrow> df_proc \<Rightarrow> int \<Rightarrow> ((int \<times> int \<times> umem) \<times> debugfs_file) option" where
  "df_end f p ret = Some ((ret, dp_ppos p, dp_mem p), f)"

definition df_nul :: "debugfs_file \<Rightarrow> df_proc \<Rightarrow> int \<Rightarrow> ((int \<times> int \<times> umem) \<times> debugfs_file) option" where
  "df_nul f p ret =
     (if df_message_len f < length (df_message f)
      then df_end (f\<lparr>df_message := (df_message f)[df_message_len f := NUL]\<rparr>) p ret else None)"

definition df_rest ::
    "simple_read \<Rightarrow> simple_write \<Rightarrow> df_shared \<Rightarrow> df_proc \<Rightarrow> ((int \<times> int \<times> umem) \<times> debugfs_file) option" where
  "df_rest srb swb s p =
     (let f = ds_file s in
      case dp_pc p of
        ReadBuffer a n \<Rightarrow> df_whole srb swb (DfRead (dp_mem p) a n (dp_ppos p)) f
      | ReadUnlock ret \<Rightarrow> df_end f p ret
      | WriteBuffer a n \<Rightarrow> df_whole srb swb (DfWrite (dp_mem p) a n (dp_ppos p)) f
      | WriteLen copied \<Rightarrow>
          (if copied > 0 then df_nul (f\<lparr>df_message_len := nat (dp_ppos p)\<rparr>) p copied
           else df_end f p copied)
      | WriteNul copied \<Rightarrow> df_nul f p copied
      | WriteUnlock copied \<Rightarrow> df_end f p copied
      | _ \<Rightarrow> None)"

definition df_call_of :: "df_proc \<Rightarrow> df_call" where
  "df_call_of p =
     (case dp_pc p of
        ReadLock a n \<Rightarrow> DfRead (dp_mem p) a n (dp_ppos p)
      | WriteLock a n \<Rightarrow> DfWrite (dp_mem p) a n (dp_ppos p)
      | _ \<Rightarrow> DfRead (dp_mem p) 0 0 0)"

definition df_result_of :: "df_proc \<Rightarrow> int \<times> int \<times> umem" where
  "df_result_of p = (dp_ret p, dp_ppos p, dp_mem p)"

lemmas df_simps = df_fops_def df_own_def df_whole_def df_end_def df_nul_def df_rest_def df_call_of_def
  df_result_of_def

lemma df_Call:
  assumes "df_step srb swb (DfCall call) s p = Some (s', p')"
  shows "s' = s \<and> \<not> df_inside (dp_pc p) \<and> \<not> df_inside (dp_pc p') \<and> df_own s p'"
  using assms by (cases call) (auto simp: df_simps split: if_splits)

lemma df_flag_step:
  assumes "df_step srb swb act s p = Some (s', p')"
  shows "(\<not> df_inside (dp_pc p) \<longrightarrow> df_inside (dp_pc p') \<longrightarrow> \<not> ds_lock s \<and> ds_lock s') \<and>
    (df_inside (dp_pc p) \<longrightarrow> \<not> df_inside (dp_pc p') \<longrightarrow> \<not> ds_lock s') \<and>
    (df_inside (dp_pc p) = df_inside (dp_pc p') \<longrightarrow> ds_lock s' = ds_lock s)"
proof (cases act)
  case (DfCall call)
  with assms df_Call[of srb swb call s p s' p'] show ?thesis by simp
next
  case DfStep
  with assms show ?thesis by (cases "dp_pc p") (auto simp: Let_def split: if_splits prod.splits)
qed

lemma df_step_own:
  assumes "df_step srb swb act s p = Some (s', p')" and "df_own s p"
  shows "df_own s' p'"
proof (cases act)
  case (DfCall call)
  with assms df_Call[of srb swb call s p s' p'] show ?thesis by (simp add: df_own_def)
next
  case DfStep
  with assms show ?thesis
    by (cases "dp_pc p") (auto simp: df_own_def Let_def split: if_splits prod.splits)
qed

lemma df_step_enter:
  assumes "df_step srb swb DfStep s p = Some (s', p')" and "df_own s p"
    and "\<not> df_inside (dp_pc p)" and "df_inside (dp_pc p')"
  shows "df_rest srb swb s' p' = df_whole srb swb (df_call_of p) (ds_file s)"
  using assms by (cases "dp_pc p") (auto simp: df_rest_def df_call_of_def split: if_splits)

lemma df_step_rest:
  assumes "df_step srb swb DfStep s p = Some (s', p')" and "df_own s p"
    and "df_inside (dp_pc p)" and "df_inside (dp_pc p')"
  shows "df_rest srb swb s' p' = df_rest srb swb s p"
  using assms
  by (cases "dp_pc p")
    (auto simp: df_simps message_read_def message_write_def Let_def split: if_splits prod.splits)

lemma df_step_leave:
  assumes "df_step srb swb DfStep s p = Some (s', p')"
    and "df_inside (dp_pc p)" and "\<not> df_inside (dp_pc p')"
  shows "df_rest srb swb s p = Some (df_result_of p', ds_file s')"
  using assms by (cases "dp_pc p") (auto simp: df_simps Let_def split: if_splits prod.splits)

interpretation df_mutex: critical_section "df_step srb swb" "\<lambda>_. True" df_own ds_lock
    "\<lambda>p. df_inside (dp_pc p)" ds_file df_call_of df_result_of "df_whole srb swb" "df_rest srb swb"
  for srb swb
proof
  fix act s p s' p'
  assume s: "df_step srb swb act s p = Some (s', p')"
  note flag = df_flag_step[OF s]
  show "\<not> df_inside (dp_pc p) \<Longrightarrow> df_inside (dp_pc p') \<Longrightarrow> \<not> ds_lock s \<and> ds_lock s'"
    "df_inside (dp_pc p) \<Longrightarrow> \<not> df_inside (dp_pc p') \<Longrightarrow> \<not> ds_lock s'"
    "df_inside (dp_pc p) = df_inside (dp_pc p') \<Longrightarrow> ds_lock s' = ds_lock s" using flag by blast+
  {
    assume own: "df_own s p"
    from df_step_own[OF s own] show "df_own s' p'" .
    show "df_own s' m \<and> True" if "df_own s m" for m using that by (simp add: df_own_def)
    assume out: "\<not> df_inside (dp_pc p)" "\<not> df_inside (dp_pc p')"
    with s df_Call[of srb swb _ s p s' p'] show "s' = s"
      by (cases act; cases "dp_pc p") (auto split: if_splits)
  next
    assume own: "df_own s p" and en: "\<not> df_inside (dp_pc p)" "df_inside (dp_pc p')"
    with s df_Call[of srb swb _ s p s' p'] have "act = DfStep" by (cases act) auto
    with df_step_enter s own en show "df_rest srb swb s' p' = df_whole srb swb (df_call_of p) (ds_file s)"
      by simp
  next
    assume own: "df_own s p" and st: "df_inside (dp_pc p)" "df_inside (dp_pc p')"
    with s df_Call[of srb swb _ s p s' p'] have "act = DfStep" by (cases act) auto
    with df_step_rest s own st show "df_rest srb swb s' p' = df_rest srb swb s p" by simp
  next
    assume le: "df_inside (dp_pc p)" "\<not> df_inside (dp_pc p')"
    with s df_Call[of srb swb _ s p s' p'] have "act = DfStep" by (cases act) auto
    with df_step_leave s le show "df_rest srb swb s p = Some (df_result_of p', ds_file s')" by simp
  }
qed simp

text \<open>In a run, the calls that got the mutex, in that order, and what those returned that gave it back.\<close>

definition df_history ::
    "simple_read \<Rightarrow> simple_write \<Rightarrow> df_conf \<Rightarrow> (nat \<times> df_action) list \<Rightarrow>
      df_call list \<times> (int \<times> int \<times> umem) list" where
  "df_history srb swb =
     section_history (df_step srb swb) (\<lambda>p. df_inside (dp_pc p)) df_call_of df_result_of"

lemma df_boot_simps [simp]: "th_shared (df_boot us) = \<lparr>ds_file = debugfs_file_zero, ds_lock = False\<rparr>"
  "dp_pc (th_local (df_boot us) i) = DfUser"
  by (simp_all add: df_boot_def)

lemma df_boot_own: "df_mutex.all_own (df_boot us)"
  by (simp add: df_mutex.all_own_def df_own_def)

lemma df_boot_one_inside: "df_mutex.one_inside (df_boot us)"
  by (simp add: df_mutex.one_inside_def)

section \<open>The array, and who can go on\<close>

text \<open>Under the contract of the two functions of the kernel, no step leaves the array.\<close>

definition df_safe :: "df_shared \<Rightarrow> df_proc \<Rightarrow> bool" where
  "df_safe s p \<longleftrightarrow> debugfs_good (ds_file s) \<and> df_own s p \<and>
     (case dp_pc p of
        WriteLen copied \<Rightarrow> 0 < copied \<longrightarrow> dp_ppos p = copied \<and> copied \<le> 127
      | DfOops \<Rightarrow> False
      | _ \<Rightarrow> True)"

context simple_buffer begin

lemma df_step_safe:
  assumes s: "df_step srb swb act s p = Some (s', p')" and safe: "df_safe s p"
  shows "df_safe s' p'"
proof (cases act)
  case (DfCall call)
  with s safe df_Call[of srb swb call s p s' p'] show ?thesis
    by (cases "dp_pc p'") (auto simp: df_safe_def)
next
  case DfStep
  have own: "df_own s' p'" using df_step_own[OF s] safe by (simp add: df_safe_def)
  show ?thesis
  proof (cases "dp_pc p")
    case (WriteBuffer a n)
    obtain copied ppos m where w: "swb (df_message (ds_file s)) 127 0 (dp_mem p) a n = (copied, ppos, m)"
      by (cases "swb (df_message (ds_file s)) 127 0 (dp_mem p) a n") auto
    with swb_bounds[OF w] s safe own DfStep WriteBuffer show ?thesis
      by (auto simp: df_safe_def df_own_def debugfs_good_def MESSAGE_MAX_LEN_def)
  qed (use s safe own DfStep in
    \<open>auto simp: df_safe_def debugfs_good_def MESSAGE_MAX_LEN_def Let_def split: if_splits prod.splits\<close>)
qed

lemma df_safe_free: "interference_free (df_step srb swb) (\<lambda>_. True) df_safe (\<lambda>_ _. True)"
proof
  fix act s p s' p'
  assume s: "df_step srb swb act s p = Some (s', p')" and safe: "df_safe s p"
  from df_step_safe[OF s safe] show "df_safe s' p'" .
  show "df_safe s' m \<and> True" if "df_safe s m" for m
    using that df_step_safe[OF s safe] by (simp add: df_safe_def df_own_def)
qed simp

end

sublocale simple_buffer \<subseteq> df_array: interference_free "df_step srb swb" "\<lambda>_. True" df_safe "\<lambda>_ _. True"
  by (rule df_safe_free)

context simple_buffer begin

lemma df_run_safe:
  assumes "threads_run (df_step srb swb) (df_boot us) acts = Some c"
  shows "df_safe (th_shared c) (th_local c i)"
proof -
  have "df_array.all_own (df_boot us)"
    by (simp add: df_array.all_own_def df_safe_def df_own_def debugfs_file_zero_good)
  from df_array.run_all_own[OF assms _ this] show ?thesis
    by (simp add: df_array.all_own_def list_all_def)
qed

end

text \<open>Only \<open>mutex_lock\<close> waits.\<close>

fun df_waits :: "df_pc \<Rightarrow> bool" where
  "df_waits (ReadLock a n) \<longleftrightarrow> True"
| "df_waits (WriteLock a n) \<longleftrightarrow> True"
| "df_waits _ \<longleftrightarrow> False"

lemma df_step_possible:
  assumes "df_safe s p" and "dp_pc p \<noteq> DfUser" and "df_waits (dp_pc p) \<longrightarrow> \<not> ds_lock s"
  shows "df_step srb swb DfStep s p \<noteq> None"
  using assms
  by (cases "dp_pc p")
    (auto simp: df_safe_def debugfs_good_def MESSAGE_MAX_LEN_def Let_def split: prod.split)

text \<open>The steps to the end of a call, the wait apart.\<close>

fun df_work :: "df_pc \<Rightarrow> nat" where
  "df_work DfUser = 0"
| "df_work DfOops = 0"
| "df_work (ReadUnlock r) = 1"
| "df_work (WriteUnlock r) = 1"
| "df_work (WriteNul r) = 2"
| "df_work (WriteLen r) = 3"
| "df_work (ReadBuffer a n) = 2"
| "df_work (WriteBuffer a n) = 4"
| "df_work (ReadLock a n) = 3"
| "df_work (WriteLock a n) = 5"
| "df_work (WriteTest a n) = 6"

section \<open>Whole messages\<close>

text \<open>
  What a call writes; a write that puts a message there; a call that does not make a write fault; a
  read from the beginning with a buffer that has room for any message.
\<close>

fun df_written :: "df_call \<Rightarrow> char list" where
  "df_written (DfWrite u a n off) = get_bytes u a (min n 127)"
| "df_written (DfRead u a n off) = []"

fun df_writes :: "df_call \<Rightarrow> bool" where
  "df_writes (DfWrite u a n off) \<longleftrightarrow> 0 < n \<and> off = 0"
| "df_writes (DfRead u a n off) \<longleftrightarrow> False"

fun df_no_fault :: "df_call \<Rightarrow> bool" where
  "df_no_fault (DfWrite u a n off) \<longleftrightarrow> off = 0 \<longrightarrow> mapped u a (min n 127)"
| "df_no_fault (DfRead u a n off) \<longleftrightarrow> True"

fun df_reads_all :: "df_call \<Rightarrow> bool" where
  "df_reads_all (DfWrite u a n off) \<longleftrightarrow> False"
| "df_reads_all (DfRead u a n off) \<longleftrightarrow> 127 \<le> n \<and> off = 0 \<and> mapped u a 127"

fun df_got :: "df_call \<times> int \<times> int \<times> umem \<Rightarrow> char list" where
  "df_got (DfRead u a n off, r, off', v) = get_bytes v a (nat r)"
| "df_got (DfWrite u a n off, r, off', v) = []"

context simple_buffer begin

lemma df_read_keeps: "df_whole srb swb (DfRead u a n off) f = Some (res, f') \<Longrightarrow> f' = f"
  by (auto simp: df_whole_def)

lemma df_read_all:
  assumes g: "debugfs_good f" and p: "df_reads_all (DfRead u a n off)"
    and w: "df_whole srb swb (DfRead u a n off) f = Some (res, f')"
  shows "df_got (DfRead u a n off, res) = debugfs_content f"
proof -
  have l: "length (debugfs_content f) \<le> 127" using g
    by (auto simp: debugfs_good_def debugfs_content_def MESSAGE_MAX_LEN_def)
  with p have n: "min n (length (debugfs_content f)) = length (debugfs_content f)" by simp
  have "mapped u a (min n (length (debugfs_content f) - 0))"
    by (rule mapped_mono[of u a 127]) (use p l n in auto)
  from srb_ok[of 0, OF _ this] n l p g w have
    "res = (int (length (debugfs_content f)), int (length (debugfs_content f)), put_bytes u a (debugfs_content f))"
    by (auto simp: df_whole_def message_read_def debugfs_good_def simp flip: debugfs_content_def)
  moreover have "mapped u a (length (debugfs_content f))" by (rule mapped_mono[of u a 127]) (use p l in auto)
  ultimately show ?thesis by (simp add: get_bytes_put_bytes)
qed

lemma df_write_content:
  assumes g: "debugfs_good f" and p: "df_no_fault (DfWrite u a n off)"
    and w: "df_whole srb swb (DfWrite u a n off) f = Some (res, f')"
  shows "debugfs_good f' \<and>
    debugfs_content f' = (if df_writes (DfWrite u a n off) then df_written (DfWrite u a n off) else debugfs_content f)"
proof (cases "df_writes (DfWrite u a n off)")
  case True
  with message_write_ok[OF g, of u a n] p w show ?thesis by (auto simp: df_whole_def)
next
  case False
  have lm: "length (df_message f) = 128" using g by (simp add: debugfs_good_def MESSAGE_MAX_LEN_def)
  have "swb (df_message f) 127 (int 0) u a 0 =
      (int 0, int (0 + 0), take 0 (df_message f) @ get_bytes u a 0 @ drop (0 + 0) (df_message f))"
    by (rule swb_ok) (simp_all add: lm mapped_iff)
  with False g w lm show ?thesis by (auto simp: df_whole_def message_write_def split: if_splits)
qed

lemma serve_whole_messages:
  assumes "serve (df_whole srb swb) f calls = Some (f', rets)" and "debugfs_good f"
    and "list_all df_no_fault calls" and "(call, ret) \<in> set (zip calls rets)" and "df_reads_all call"
  shows "df_got (call, ret) \<in> insert (debugfs_content f) (df_written ` {w \<in> set calls. df_writes w})"
  using assms
proof (induction calls arbitrary: f rets)
  case Nil
  then show ?case by simp
next
  case (Cons first calls)
  from Cons.prems(1) obtain res d rs where w: "df_whole srb swb first f = Some (res, d)"
    and r: "serve (df_whole srb swb) d calls = Some (f', rs)" "rets = res # rs"
    by (auto split: option.splits)
  have p: "df_no_fault first" "list_all df_no_fault calls" using Cons.prems(3) by simp_all
  show ?case
  proof (cases first)
    case (DfRead u a n off)
    from df_read_keeps[OF w[unfolded DfRead]] have d: "d = f" .
    have "df_got (first, res) = debugfs_content f" if "first = call"
      using that DfRead Cons.prems(5) df_read_all[OF Cons.prems(2) _ w[unfolded DfRead]] by blast
    with Cons.IH[OF r(1) _ p(2) _ Cons.prems(5)] Cons.prems(2,4) d r(2) show ?thesis by auto
  next
    case (DfWrite u a n off)
    from df_write_content[OF Cons.prems(2) p(1)[unfolded DfWrite] w[unfolded DfWrite]]
    have d: "debugfs_good d"
      "debugfs_content d = (if df_writes first then df_written first else debugfs_content f)"
      by (simp_all add: DfWrite)
    from Cons.prems(4,5) r(2) DfWrite have "(call, ret) \<in> set (zip calls rs)" by auto
    from Cons.IH[OF r(1) d(1) p(2) this Cons.prems(5)] d(2) show ?thesis by (auto split: if_splits)
  qed
qed

end

text \<open>The process that has the mutex gives it back by itself.\<close>

lemma df_holder_returns:
  assumes sb: "simple_buffer srb swb"
    and "df_safe (th_shared c) (th_local c i)" and "df_inside (dp_pc (th_local c i))"
  shows "\<exists>k c'. k \<le> df_work (dp_pc (th_local c i)) \<and>
    threads_run (df_step srb swb) c (replicate k (i, DfStep)) = Some c' \<and>
    \<not> ds_lock (th_shared c') \<and> dp_pc (th_local c' i) = DfUser"
  using assms(2,3)
proof (induction "df_work (dp_pc (th_local c i))" arbitrary: c rule: less_induct)
  case less
  let ?s = "th_shared c" and ?p = "th_local c i"
  have "dp_pc ?p \<noteq> DfUser" "\<not> df_waits (dp_pc ?p)" using less.prems(2) by (cases "dp_pc ?p"; simp)+
  with df_step_possible[OF less.prems(1), of srb swb] obtain s p where
    s: "df_step srb swb DfStep ?s ?p = Some (s, p)" by fastforce
  let ?d = "\<lparr>th_shared = s, th_local = (th_local c)(i := p)\<rparr>"
  have ex: "threads_exec (df_step srb swb) c (i, DfStep) = Some ?d" using s by (simp add: threads_exec_Some)
  show ?case
  proof (cases "df_inside (dp_pc p)")
    case True
    have w: "df_work (dp_pc p) < df_work (dp_pc ?p)"
      using s less.prems(2) True by (cases "dp_pc ?p") (auto simp: Let_def split: if_splits prod.splits)
    from less.hyps[of ?d] w True simple_buffer.df_step_safe[OF sb s less.prems(1)]
    obtain k c' where k: "k \<le> df_work (dp_pc p)" "\<not> ds_lock (th_shared c')" "dp_pc (th_local c' i) = DfUser"
      "threads_run (df_step srb swb) ?d (replicate k (i, DfStep)) = Some c'" by auto
    with ex have "threads_run (df_step srb swb) c (replicate (Suc k) (i, DfStep)) = Some c'" by simp
    moreover have "Suc k \<le> df_work (dp_pc ?p)" using k(1) w by simp
    ultimately show ?thesis using k by blast
  next
    case False
    from s less.prems(2) False have "dp_pc p = DfUser \<and> 1 \<le> df_work (dp_pc ?p)"
      by (cases "dp_pc ?p") (auto simp: Let_def split: if_splits prod.splits)
    moreover have "\<not> ds_lock s" using df_flag_step[OF s] less.prems(2) False by simp
    moreover have "threads_run (df_step srb swb) c (replicate 1 (i, DfStep)) = Some ?d" using ex by simp
    ultimately show ?thesis by (metis fun_upd_same threads.select_convs)
  qed
qed

section \<open>Properties\<close>

text \<open>
  C4 (refinement): the mutex makes reads and writes atomic: however any number of processes interleave, when
  none has it any more, the message and everything that the calls returned is as if those that
  got the mutex had run one after the other, in that order. This holds for any two functions of the
  kernel.
\<close>

theorem debugfs_calls_atomic:
  assumes run: "threads_run (df_step srb swb) (df_boot us) acts = Some c"
    and free: "\<not> ds_lock (th_shared c)"
  shows "serve (df_whole srb swb) debugfs_file_zero (fst (df_history srb swb (df_boot us) acts)) =
    Some (ds_file (th_shared c), snd (df_history srb swb (df_boot us) acts))"
proof -
  have "list_all (\<lambda>act. True) acts" by (simp add: list_all_def)
  from df_mutex.run_atomic[OF run this df_boot_own df_boot_one_inside _ free prod.collapse[symmetric]]
  show ?thesis by (simp add: df_history_def)
qed

text \<open>A write whose process is held up, with the mutex, by a reader.\<close>

definition df_two :: "(nat \<times> df_action) list" where
  "df_two =
     [(0, DfCall (DfWrite (umem_with 8 ''hello'') 8 5 0)), (0, DfStep), (0, DfStep),
      (1, DfCall (DfRead (umem_with 0 []) 1 127 0)), (0, DfStep), (0, DfStep), (0, DfStep),
      (0, DfStep), (1, DfStep), (1, DfStep), (1, DfStep)]"

lemma df_two_run:
  assumes sb: "simple_buffer srb swb"
  shows "\<exists>c. threads_run (df_step srb swb) (df_boot us) df_two = Some c \<and> \<not> ds_lock (th_shared c) \<and>
    df_history srb swb (df_boot us) df_two =
      ([DfWrite (umem_with 8 ''hello'') 8 5 0, DfRead (umem_with 0 []) 1 127 0],
       [(5, 5, umem_with 8 ''hello''), (5, 5, put_bytes (umem_with 0 []) 1 ''hello'')])"
proof -
  let ?m = "df_message debugfs_file_zero"
  have l: "length ?m = 128" by (simp add: debugfs_file_zero_def debugfs_hello_def MESSAGE_MAX_LEN_def)
  have g: "get_bytes (umem_with 8 ''hello'') 8 5 = ''hello''"
    using get_bytes_umem_with[of 5 "''hello''" 8] by simp
  obtain m where w: "swb ?m 127 0 (umem_with 8 ''hello'') 8 5 = (5, 5, m)"
    and m: "length m = 128" "take 5 (m[5 := NUL]) = ''hello''"
    using simple_buffer.swb_ok[OF sb, of 0 5 ?m 5 127 "umem_with 8 ''hello''" 8] g l by simp
  have r: "srb (umem_with 0 []) 1 127 0 ''hello'' = (5, 5, put_bytes (umem_with 0 []) 1 ''hello'')"
    using simple_buffer.srb_ok[OF sb, of 0 "''hello''" "umem_with 0 []" 1 127] by simp
  show ?thesis
    by (simp add: df_two_def df_boot_def df_fops_def threads_exec_def df_history_def df_call_of_def
      df_result_of_def l w m r Let_def del: One_nat_def)
qed

theorem debugfs_calls_atomic_witness:
  "\<exists>f. serve (df_whole (libfs_read bytewise) (libfs_write bytewise)) debugfs_file_zero
      [DfWrite (umem_with 8 ''hello'') 8 5 0, DfRead (umem_with 0 []) 1 127 0] =
    Some (f, [(5, 5, umem_with 8 ''hello''), (5, 5, put_bytes (umem_with 0 []) 1 ''hello'')])"
proof -
  obtain c where c: "threads_run (df_step (libfs_read bytewise) (libfs_write bytewise))
      (df_boot (\<lambda>_. umem_with 0 [])) df_two = Some c" "\<not> ds_lock (th_shared c)"
    "df_history (libfs_read bytewise) (libfs_write bytewise) (df_boot (\<lambda>_. umem_with 0 [])) df_two =
      ([DfWrite (umem_with 8 ''hello'') 8 5 0, DfRead (umem_with 0 []) 1 127 0],
       [(5, 5, umem_with 8 ''hello''), (5, 5, put_bytes (umem_with 0 []) 1 ''hello'')])"
    using df_two_run[OF libfs.simple_buffer_axioms] by blast
  from debugfs_calls_atomic[OF c(1,2)] c(3) show ?thesis by auto
qed

text \<open>
  C11 (functional): as long as no write has a source that faults, no reader ever gets a torn message:
  whoever reads the file from the beginning into accessible memory with room for 127 bytes gets what the
  module was loaded with or what one write wrote, whatever else other processes read and write
  meanwhile. (A write that faults leaves zeros in the message: \<open>message_write_fault\<close>.)
\<close>

theorem debugfs_messages_whole:
  assumes sb: "simple_buffer srb swb"
    and run: "threads_run (df_step srb swb) (df_boot us) acts = Some c" "\<not> ds_lock (th_shared c)"
    and h: "df_history srb swb (df_boot us) acts = (calls, rets)" "list_all df_no_fault calls"
    and read: "(call, ret) \<in> set (zip calls rets)" "df_reads_all call"
  shows "df_got (call, ret) \<in>
    insert (''debugfs says hello'' @ [NL]) (df_written ` {w \<in> set calls. df_writes w})"
proof -
  have "list_all (\<lambda>act. True) acts" by (simp add: list_all_def)
  from df_mutex.run_atomic[OF run(1) this df_boot_own df_boot_one_inside _ run(2), of calls rets] h(1)
  have "serve (df_whole srb swb) debugfs_file_zero calls = Some (ds_file (th_shared c), rets)"
    by (simp add: df_history_def)
  from simple_buffer.serve_whole_messages[OF sb this debugfs_file_zero_good h(2) read]
  show ?thesis by (simp add: debugfs_content_def debugfs_file_zero_def debugfs_hello_def put_front_def)
qed

theorem debugfs_messages_whole_witness:
  "df_got (DfRead (umem_with 0 []) 1 127 0, 5, 5, put_bytes (umem_with 0 []) 1 ''hello'') \<in>
    insert (''debugfs says hello'' @ [NL]) (df_written `
      {w \<in> set [DfWrite (umem_with 8 ''hello'') 8 5 0, DfRead (umem_with 0 []) 1 127 0]. df_writes w})"
proof -
  obtain c where c: "threads_run (df_step (libfs_read bytewise) (libfs_write bytewise))
      (df_boot (\<lambda>_. umem_with 0 [])) df_two = Some c" "\<not> ds_lock (th_shared c)"
    "df_history (libfs_read bytewise) (libfs_write bytewise) (df_boot (\<lambda>_. umem_with 0 [])) df_two =
      ([DfWrite (umem_with 8 ''hello'') 8 5 0, DfRead (umem_with 0 []) 1 127 0],
       [(5, 5, umem_with 8 ''hello''), (5, 5, put_bytes (umem_with 0 []) 1 ''hello'')])"
    using df_two_run[OF libfs.simple_buffer_axioms] by blast
  show ?thesis by (rule debugfs_messages_whole[OF libfs.simple_buffer_axioms c]) simp_all
qed

text \<open>
  C12 (liveness): the mutex keeps nobody out for ever: no process is killed with it, at most one has it,
  who has it can give it back in at most 4 steps of its own, whatever the others are at,
  and of the processes that are in a call one can always go on: it, or the one that has the mutex.
\<close>

theorem debugfs_mutex_comes_free:
  assumes sb: "simple_buffer srb swb" and run: "threads_run (df_step srb swb) (df_boot us) acts = Some c"
  shows "dp_pc (th_local c i) \<noteq> DfOops \<and>
    (dp_pc (th_local c i) \<noteq> DfUser \<longrightarrow>
      (\<exists>j c'. threads_exec (df_step srb swb) c (j, DfStep) = Some c' \<and>
        (j = i \<or> df_inside (dp_pc (th_local c j))))) \<and>
    (df_inside (dp_pc (th_local c i)) \<longrightarrow>
      (\<forall>j. df_inside (dp_pc (th_local c j)) \<longrightarrow> j = i) \<and>
      (\<exists>k c'. k \<le> 4 \<and> threads_run (df_step srb swb) c (replicate k (i, DfStep)) = Some c' \<and>
        \<not> ds_lock (th_shared c') \<and> dp_pc (th_local c' i) = DfUser))"
proof -
  note safe = simple_buffer.df_run_safe[OF sb run]
  note one = df_mutex.run_one_inside[OF run df_boot_one_inside]
  have step: "\<exists>c'. threads_exec (df_step srb swb) c (j, DfStep) = Some c'"
    if "dp_pc (th_local c j) \<noteq> DfUser" "df_waits (dp_pc (th_local c j)) \<longrightarrow> \<not> ds_lock (th_shared c)" for j
    using df_step_possible[OF safe that, of srb swb] by (auto simp: threads_exec_def split: option.split)
  have alive: "dp_pc (th_local c i) \<noteq> DfOops" using safe[of i] by (auto simp: df_safe_def)
  have go: "\<exists>j c'. threads_exec (df_step srb swb) c (j, DfStep) = Some c' \<and>
      (j = i \<or> df_inside (dp_pc (th_local c j)))" if call: "dp_pc (th_local c i) \<noteq> DfUser"
  proof (cases "df_waits (dp_pc (th_local c i)) \<and> ds_lock (th_shared c)")
    case True
    with one obtain j where j: "df_inside (dp_pc (th_local c j))"
      by (auto simp: df_mutex.one_inside_def)
    then have "dp_pc (th_local c j) \<noteq> DfUser" "\<not> df_waits (dp_pc (th_local c j))"
      by (cases "dp_pc (th_local c j)"; simp)+
    with step j show ?thesis by blast
  next
    case False
    with step call show ?thesis by blast
  qed
  have work: "df_work (dp_pc (th_local c i)) \<le> 4" if "df_inside (dp_pc (th_local c i))"
    using that by (cases "dp_pc (th_local c i)") auto
  have "\<forall>j. df_inside (dp_pc (th_local c j)) \<longrightarrow> j = i" if "df_inside (dp_pc (th_local c i))"
    using one that by (auto simp: df_mutex.one_inside_def split: if_splits)
  with alive go work df_holder_returns[OF sb safe] show ?thesis by (meson le_trans)
qed

theorem debugfs_mutex_comes_free_witness:
  "\<exists>c. threads_run (df_step (libfs_read bytewise) (libfs_write bytewise))
      (df_boot (\<lambda>_. umem_with 0 [])) df_two = Some c \<and> dp_pc (th_local c 1) \<noteq> DfOops"
  using df_two_run[OF libfs.simple_buffer_axioms, of "\<lambda>_. umem_with 0 []"]
    debugfs_mutex_comes_free[OF libfs.simple_buffer_axioms] by blast

end
