(* ===== verification/Procfs_Smp.thy ===== *)
theory Procfs_Smp
  imports Procfs Interleaving
begin

text \<open>
  \<open>procfs2.c\<close> and \<open>procfs3.c\<close> with any number of processes in their functions at the same time.
  \<open>procfs_buffer_size\<close> is shared, no lock guards it, and the functions use it like a local variable.
  The functions of \<open>Procfs\<close> are cut here into steps, one for each access to it, in the order
  in which they are written (a compiler may merge some); a copy is one step. The two modules differ:
  \<open>procfs3.c\<close> never stores a size that is too large, and stays in its array; \<open>procfs2.c\<close> does for
  a moment, and another process may leave the array.
\<close>

section \<open>Processes\<close>

datatype pf_call = PfRead umem nat nat int | PfWrite umem nat nat int

datatype pf_action = PfCall pf_call | PfStep

text \<open>Where a process is, its memory, the offset of the file, and what its last call returned.\<close>

record 'pc pf_proc =
  pp_pc :: 'pc
  pp_mem :: umem
  pp_off :: int
  pp_ret :: int

section \<open>\<open>procfs3.c\<close>\<close>

text \<open>
  In \<open>procfs_read\<close>: before the test for the end, before \<open>min\<close> reads the size, before the result is
  stored, before \<open>copy_to_user\<close>, before the offset moves, before \<open>return\<close>; in \<open>procfs_write\<close>: before the
  size is stored, before \<open>copy_from_user\<close>, before the offset moves, before \<open>return\<close>. In \<open>P3Oops\<close>
  the process has left the array.
\<close>

datatype p3_pc =
    P3User
  | P3ReadTest nat nat
  | P3ReadMin nat nat
  | P3ReadStore nat nat
  | P3ReadCopy nat
  | P3ReadOffset
  | P3ReadReturn
  | P3WriteSize nat nat
  | P3WriteCopy nat
  | P3WriteOffset
  | P3WriteReturn
  | P3Oops

definition p3_return :: "int \<Rightarrow> p3_pc pf_proc \<Rightarrow> p3_pc pf_proc" where
  "p3_return r p = p\<lparr>pp_pc := P3User, pp_ret := r\<rparr>"

fun p3_read :: "not_copied \<Rightarrow> procfs \<Rightarrow> p3_pc pf_proc \<Rightarrow> p3_pc \<Rightarrow> (procfs \<times> p3_pc pf_proc) option" where
  "p3_read nc s p (P3ReadTest buffer len) =
     Some (s, if pp_off p \<noteq> 0 \<or> pf_buffer_size s = 0 then p3_return 0 (p\<lparr>pp_off := 0\<rparr>)
              else p\<lparr>pp_pc := P3ReadMin buffer len\<rparr>)"
| "p3_read nc s p (P3ReadMin buffer len) =
     Some (s, p\<lparr>pp_pc := P3ReadStore buffer (min (pf_buffer_size s) len)\<rparr>)"
| "p3_read nc s p (P3ReadStore buffer m) =
     Some (s\<lparr>pf_buffer_size := m\<rparr>, p\<lparr>pp_pc := P3ReadCopy buffer\<rparr>)"
| "p3_read nc s p (P3ReadCopy buffer) =
     Some (s,
       if length (pf_buffer s) < pf_buffer_size s then p\<lparr>pp_pc := P3Oops\<rparr>
       else case copy_to_user nc (pp_mem p) buffer (take (pf_buffer_size s) (pf_buffer s)) of
              (n, u) \<Rightarrow> if n \<noteq> 0 then p3_return (- EFAULT) (p\<lparr>pp_mem := u\<rparr>)
                        else p\<lparr>pp_mem := u, pp_pc := P3ReadOffset\<rparr>)"
| "p3_read nc s p P3ReadOffset =
     Some (s, p\<lparr>pp_off := pp_off p + int (pf_buffer_size s), pp_pc := P3ReadReturn\<rparr>)"
| "p3_read nc s p P3ReadReturn = Some (s, p3_return (int (pf_buffer_size s)) p)"
| "p3_read nc s p _ = None"

fun p3_write :: "not_copied \<Rightarrow> procfs \<Rightarrow> p3_pc pf_proc \<Rightarrow> p3_pc \<Rightarrow> (procfs \<times> p3_pc pf_proc) option" where
  "p3_write nc s p (P3WriteSize buffer len) =
     Some (s\<lparr>pf_buffer_size := min procfs3_MAX_SIZE len\<rparr>, p\<lparr>pp_pc := P3WriteCopy buffer\<rparr>)"
| "p3_write nc s p (P3WriteCopy buffer) =
     Some (case copy_from_user nc (pp_mem p) buffer (pf_buffer_size s) (pf_buffer s) of
             None \<Rightarrow> (s, p\<lparr>pp_pc := P3Oops\<rparr>)
           | Some (n, bs) \<Rightarrow>
               (s\<lparr>pf_buffer := bs\<rparr>,
                if n \<noteq> 0 then p3_return (- EFAULT) p else p\<lparr>pp_pc := P3WriteOffset\<rparr>))"
| "p3_write nc s p P3WriteOffset =
     Some (s, p\<lparr>pp_off := pp_off p + int (pf_buffer_size s), pp_pc := P3WriteReturn\<rparr>)"
| "p3_write nc s p P3WriteReturn = Some (s, p3_return (int (pf_buffer_size s)) p)"
| "p3_write nc s p _ = None"

text \<open>The table \<open>file_ops_4_our_proc_file\<close>: where a system call begins.\<close>

definition p3_fops :: "pf_call \<Rightarrow> p3_pc pf_proc \<Rightarrow> p3_pc pf_proc" where
  "p3_fops call p =
     (case call of
        PfRead u a n off \<Rightarrow> p\<lparr>pp_mem := u, pp_off := off, pp_pc := P3ReadTest a n\<rparr>
      | PfWrite u a n off \<Rightarrow> p\<lparr>pp_mem := u, pp_off := off, pp_pc := P3WriteSize a n\<rparr>)"

fun p3_step :: "not_copied \<Rightarrow> (pf_action, procfs, p3_pc pf_proc) thread_step" where
  "p3_step nc (PfCall call) s p = (if pp_pc p = P3User then Some (s, p3_fops call p) else None)"
| "p3_step nc PfStep s p =
     (case p3_read nc s p (pp_pc p) of None \<Rightarrow> p3_write nc s p (pp_pc p) | Some x \<Rightarrow> Some x)"

definition p3_boot :: "(nat \<Rightarrow> umem) \<Rightarrow> (procfs, p3_pc pf_proc) threads" where
  "p3_boot us = \<lparr>th_shared = procfs3_zero,
     th_local = (\<lambda>i. \<lparr>pp_pc = P3User, pp_mem = us i, pp_off = 0, pp_ret = 0\<rparr>)\<rparr>"

lemmas p3_simps = p3_return_def p3_fops_def

text \<open>A call that nobody interrupts is the function of \<open>Procfs\<close>.\<close>

lemma p3_write_alone:
  assumes "pp_pc (th_local c i) = P3User" and "procfs3_write nc (th_shared c) u a n off = Some (r, off', s')"
  shows "\<exists>k c'. k \<le> 4 \<and>
    threads_run (p3_step nc) c ((i, PfCall (PfWrite u a n off)) # replicate k (i, PfStep)) = Some c' \<and>
    th_shared c' = s' \<and>
    th_local c' i = \<lparr>pp_pc = P3User, pp_mem = u, pp_off = off', pp_ret = r\<rparr>"
proof -
  from assms(2) obtain k bs where
    c: "copy_from_user nc u a (min procfs3_MAX_SIZE n) (pf_buffer (th_shared c)) = Some (k, bs)"
    by (auto simp: procfs3_write_def split: option.splits)
  show ?thesis
  proof (cases "k = 0")
    case True
    with assms c show ?thesis
      by (intro exI[of _ 4]) (auto simp: procfs3_write_def p3_simps threads_exec_def numeral_eq_Suc)
  next
    case False
    with assms c show ?thesis
      by (intro exI[of _ 2]) (auto simp: procfs3_write_def p3_simps threads_exec_def numeral_eq_Suc)
  qed
qed

lemma p3_read_alone:
  assumes "pp_pc (th_local c i) = P3User" and "procfs3_read nc (th_shared c) u a n off = Some (r, off', s', u')"
  shows "\<exists>k c'. k \<le> 6 \<and>
    threads_run (p3_step nc) c ((i, PfCall (PfRead u a n off)) # replicate k (i, PfStep)) = Some c' \<and>
    th_shared c' = s' \<and>
    th_local c' i = \<lparr>pp_pc = P3User, pp_mem = u', pp_off = off', pp_ret = r\<rparr>"
proof (cases "off \<noteq> 0 \<or> pf_buffer_size (th_shared c) = 0")
  case True
  with assms show ?thesis
    by (intro exI[of _ 1]) (auto simp: procfs3_read_def p3_simps threads_exec_def)
next
  case go: False
  define m where "m = min (pf_buffer_size (th_shared c)) n"
  obtain k v where c: "copy_to_user nc u a (take m (pf_buffer (th_shared c))) = (k, v)" by fastforce
  have l: "\<not> length (pf_buffer (th_shared c)) < m"
    using assms(2) go by (auto simp: procfs3_read_def m_def[symmetric] Let_def split: if_splits)
  show ?thesis
  proof (cases "k = 0")
    case True
    with assms c l go show ?thesis
      by (intro exI[of _ 6])
        (auto simp: procfs3_read_def p3_simps threads_exec_def numeral_eq_Suc Let_def simp flip: m_def)
  next
    case False
    with assms c l go show ?thesis
      by (intro exI[of _ 4])
        (auto simp: procfs3_read_def p3_simps threads_exec_def numeral_eq_Suc Let_def simp flip: m_def)
  qed
qed

text \<open>No size that is stored is too large, so that no process leaves the array.\<close>

definition p3_own :: "procfs \<Rightarrow> p3_pc pf_proc \<Rightarrow> bool" where
  "p3_own s p \<longleftrightarrow> procfs3_good s \<and>
     (case pp_pc p of P3ReadStore a m \<Rightarrow> m \<le> procfs3_MAX_SIZE | P3Oops \<Rightarrow> False | _ \<Rightarrow> True)"

lemma copy_from_user_room: "copy_from_user nc u a n buf = None \<longleftrightarrow> length buf < n"
  by (simp add: copy_from_user_def linorder_not_le)

fun p3_work :: "p3_pc \<Rightarrow> nat" where
  "p3_work (P3ReadTest a n) = 6"
| "p3_work (P3ReadMin a n) = 5"
| "p3_work (P3ReadStore a n) = 4"
| "p3_work (P3ReadCopy a) = 3"
| "p3_work P3ReadOffset = 2"
| "p3_work P3ReadReturn = 1"
| "p3_work (P3WriteSize a n) = 4"
| "p3_work (P3WriteCopy a) = 3"
| "p3_work P3WriteOffset = 2"
| "p3_work P3WriteReturn = 1"
| "p3_work P3User = 0"
| "p3_work P3Oops = 0"

lemma p3_step_work:
  assumes "p3_step nc act s p = Some (s', p')" and "act = PfStep"
  shows "p3_work (pp_pc p') < p3_work (pp_pc p)"
  using assms by (cases "pp_pc p") (auto simp: p3_simps split: if_splits option.splits prod.splits)

context user_access begin

lemma p3_step_own:
  assumes s: "p3_step nc act s p = Some (s', p')" and own: "p3_own s p"
  shows "p3_own s' p'"
proof (cases act)
  case (PfCall call)
  with s own show ?thesis by (cases call) (auto simp: p3_own_def p3_fops_def split: if_splits)
next
  case PfStep
  show ?thesis
  proof (cases "pp_pc p")
    case (P3WriteCopy a)
    from own have "\<not> length (pf_buffer s) < pf_buffer_size s" by (simp add: p3_own_def procfs3_good_def)
    with copy_from_user_room obtain n bs where
      c: "copy_from_user nc (pp_mem p) a (pf_buffer_size s) (pf_buffer s) = Some (n, bs)"
      by (metis not_None_eq surj_pair)
    from length_copy_from_user[OF c user_access_axioms] have "length bs = length (pf_buffer s)" .
    with c s own PfStep P3WriteCopy show ?thesis
      by (auto simp: p3_own_def procfs3_good_def p3_simps split: if_splits)
  qed (use s own PfStep in \<open>auto simp: p3_own_def procfs3_good_def p3_simps split: if_splits prod.splits\<close>)
qed

lemma p3_wait_free: "wait_free (p3_step nc) (\<lambda>_. True) p3_own (\<lambda>_ _. True) (\<lambda>act. act = PfStep)
    (\<lambda>p. p3_work (pp_pc p))"
proof
  fix act s p s' p'
  assume s: "p3_step nc act s p = Some (s', p')" and own: "p3_own s p"
  from p3_step_own[OF s own] show "p3_own s' p'" .
  show "p3_own s' m \<and> True" if "p3_own s m" for m
    using that p3_step_own[OF s own] by (simp add: p3_own_def)
  show "p3_work (pp_pc p') < p3_work (pp_pc p)" if "act = PfStep" using p3_step_work[OF s that] .
qed simp

end

sublocale user_access \<subseteq> p3: wait_free "p3_step nc" "\<lambda>_. True" p3_own "\<lambda>_ _. True" "\<lambda>act. act = PfStep"
    "\<lambda>p. p3_work (pp_pc p)"
  by (rule p3_wait_free)

context user_access begin

lemma p3_run_own:
  assumes "threads_run (p3_step nc) (p3_boot us) acts = Some c"
  shows "p3.all_own c"
proof -
  have "p3.all_own (p3_boot us)"
    by (simp add: p3.all_own_def p3_own_def p3_boot_def procfs3_zero_good)
  from p3.run_all_own[OF assms _ this] show ?thesis by (simp add: list_all_def)
qed

lemma p3_own_at: "p3.all_own c \<Longrightarrow> p3_own (th_shared c) (th_local c j)"
  by (simp add: p3.all_own_def)

lemma p3_steps_bounded:
  assumes "threads_run (p3_step nc) c acts = Some c'" and "p3.all_own c"
    and "list_all (\<lambda>act. fst act = i \<longrightarrow> snd act = PfStep) acts"
  shows "length (filter (\<lambda>act. fst act = i) acts) \<le> 6"
proof -
  have "p3_work (pp_pc (th_local c i)) \<le> 6" by (cases "pp_pc (th_local c i)") auto
  with p3.steps_bounded[OF assms(1) _ assms(2,3)] show ?thesis by (simp add: list_all_def)
qed

end

section \<open>\<open>procfs2.c\<close>\<close>

text \<open>
  In \<open>procfile_read\<close>, which does not touch the array; in \<open>procfile_write\<close>: before the size is
  stored, before the test, before the size is cut, before \<open>copy_from_user\<close>, before the terminator is stored,
  before the offset moves, before \<open>return\<close>. In \<open>P2Oops\<close> the process has left the array.
\<close>

datatype p2_pc =
    P2User
  | P2Read nat nat
  | P2Size nat nat
  | P2Test nat
  | P2Cut nat
  | P2Copy nat
  | P2Nul
  | P2Offset
  | P2Return
  | P2Oops

fun p2_read :: "not_copied \<Rightarrow> procfs \<Rightarrow> p2_pc pf_proc \<Rightarrow> p2_pc \<Rightarrow> (procfs \<times> p2_pc pf_proc) option" where
  "p2_read nc s p (P2Read buffer len) =
     (case procfs2_read nc (pp_mem p) buffer len (pp_off p) of
        (ret, off, u) \<Rightarrow> Some (s, \<lparr>pp_pc = P2User, pp_mem = u, pp_off = off, pp_ret = ret\<rparr>))"
| "p2_read nc s p _ = None"

fun p2_write :: "not_copied \<Rightarrow> procfs \<Rightarrow> p2_pc pf_proc \<Rightarrow> p2_pc \<Rightarrow> (procfs \<times> p2_pc pf_proc) option" where
  "p2_write nc s p (P2Size buff len) = Some (s\<lparr>pf_buffer_size := len\<rparr>, p\<lparr>pp_pc := P2Test buff\<rparr>)"
| "p2_write nc s p (P2Test buff) =
     Some (s, p\<lparr>pp_pc := if procfs2_MAX_SIZE \<le> pf_buffer_size s then P2Cut buff else P2Copy buff\<rparr>)"
| "p2_write nc s p (P2Cut buff) =
     Some (s\<lparr>pf_buffer_size := procfs2_MAX_SIZE - 1\<rparr>, p\<lparr>pp_pc := P2Copy buff\<rparr>)"
| "p2_write nc s p (P2Copy buff) =
     Some (case copy_from_user nc (pp_mem p) buff (pf_buffer_size s) (pf_buffer s) of
             None \<Rightarrow> (s, p\<lparr>pp_pc := P2Oops\<rparr>)
           | Some (n, bs) \<Rightarrow>
               (s\<lparr>pf_buffer := bs\<rparr>,
                if n \<noteq> 0 then p\<lparr>pp_pc := P2User, pp_ret := - EFAULT\<rparr> else p\<lparr>pp_pc := P2Nul\<rparr>))"
| "p2_write nc s p P2Nul =
     Some (if pf_buffer_size s < length (pf_buffer s)
           then (s\<lparr>pf_buffer := (pf_buffer s)[pf_buffer_size s := NUL]\<rparr>, p\<lparr>pp_pc := P2Offset\<rparr>)
           else (s, p\<lparr>pp_pc := P2Oops\<rparr>))"
| "p2_write nc s p P2Offset =
     Some (s, p\<lparr>pp_off := pp_off p + int (pf_buffer_size s), pp_pc := P2Return\<rparr>)"
| "p2_write nc s p P2Return = Some (s, p\<lparr>pp_pc := P2User, pp_ret := int (pf_buffer_size s)\<rparr>)"
| "p2_write nc s p _ = None"

text \<open>The table \<open>proc_file_fops\<close>: where a system call begins.\<close>

definition p2_fops :: "pf_call \<Rightarrow> p2_pc pf_proc \<Rightarrow> p2_pc pf_proc" where
  "p2_fops call p =
     (case call of
        PfRead u a n off \<Rightarrow> p\<lparr>pp_mem := u, pp_off := off, pp_pc := P2Read a n\<rparr>
      | PfWrite u a n off \<Rightarrow> p\<lparr>pp_mem := u, pp_off := off, pp_pc := P2Size a n\<rparr>)"

fun p2_step :: "not_copied \<Rightarrow> (pf_action, procfs, p2_pc pf_proc) thread_step" where
  "p2_step nc (PfCall call) s p = (if pp_pc p = P2User then Some (s, p2_fops call p) else None)"
| "p2_step nc PfStep s p =
     (case p2_read nc s p (pp_pc p) of None \<Rightarrow> p2_write nc s p (pp_pc p) | Some x \<Rightarrow> Some x)"

definition p2_boot :: "(nat \<Rightarrow> umem) \<Rightarrow> (procfs, p2_pc pf_proc) threads" where
  "p2_boot us = \<lparr>th_shared = procfs2_zero,
     th_local = (\<lambda>i. \<lparr>pp_pc = P2User, pp_mem = us i, pp_off = 0, pp_ret = 0\<rparr>)\<rparr>"

lemma p2_write_alone:
  assumes "pp_pc (th_local c i) = P2User" and "procfs2_write nc (th_shared c) u a n off = Some (r, off', s')"
  shows "\<exists>k c'. k \<le> 7 \<and>
    threads_run (p2_step nc) c ((i, PfCall (PfWrite u a n off)) # replicate k (i, PfStep)) = Some c' \<and>
    th_shared c' = s' \<and>
    th_local c' i = \<lparr>pp_pc = P2User, pp_mem = u, pp_off = off', pp_ret = r\<rparr>"
proof -
  define m where "m = (if procfs2_MAX_SIZE \<le> n then procfs2_MAX_SIZE - 1 else n)"
  from assms(2) obtain k bs where
    c: "copy_from_user nc u a m (pf_buffer (th_shared c)) = Some (k, bs)"
    by (auto simp: procfs2_write_def m_def Let_def split: option.splits if_splits)
  have m: "n < procfs2_MAX_SIZE \<Longrightarrow> m = n" "\<not> n < procfs2_MAX_SIZE \<Longrightarrow> m = procfs2_MAX_SIZE - 1"
    by (simp_all add: m_def)
  show ?thesis
  proof (cases "n < procfs2_MAX_SIZE")
    case True
    with assms c m show ?thesis
      by (intro exI[of _ "if k = 0 then 6 else 3"])
        (auto simp: procfs2_write_def p2_fops_def threads_exec_def numeral_eq_Suc Let_def split: if_splits)
  next
    case False
    with assms c m show ?thesis
      by (intro exI[of _ "if k = 0 then 7 else 4"])
        (auto simp: procfs2_write_def p2_fops_def threads_exec_def numeral_eq_Suc Let_def split: if_splits)
  qed
qed

section \<open>Properties\<close>

text \<open>
  C16 (invariant): however reads and writes of \<open>/proc/buffer2k\<close> interleave, the size stays at most 2048
  and no process leaves the array; and no call ever waits: whatever the others do, it takes at most 6
  steps of its own process.
\<close>

theorem procfs3_smp_safe:
  assumes nc: "user_access nc"
    and run: "threads_run (p3_step nc) (p3_boot us) acts = Some c" "threads_run (p3_step nc) c acts' = Some c'"
    and only: "list_all (\<lambda>act. fst act = i \<longrightarrow> snd act = PfStep) acts'"
  shows "length (pf_buffer (th_shared c)) = 2048 \<and> pf_buffer_size (th_shared c) \<le> 2048 \<and>
    (\<forall>j. pp_pc (th_local c j) \<noteq> P3Oops) \<and> length (filter (\<lambda>act. fst act = i) acts') \<le> 6"
proof -
  note own = user_access.p3_run_own[OF nc run(1)]
  note safe = user_access.p3_own_at[OF nc own]
  have "pp_pc (th_local c j) \<noteq> P3Oops" for j using safe[of j] by (auto simp: p3_own_def)
  with safe user_access.p3_steps_bounded[OF nc run(2) own only] show ?thesis
    by (simp add: p3_own_def procfs3_good_def procfs3_MAX_SIZE_def)
qed

theorem procfs3_smp_safe_witness:
  "\<exists>c c'. threads_run (p3_step bytewise) (p3_boot (\<lambda>_. umem_with 0 [])) [] = Some c \<and>
    threads_run (p3_step bytewise) c [(0, PfCall (PfWrite (umem_with 0 []) 8 5000 0)), (0, PfStep)] = Some c' \<and>
    pf_buffer_size (th_shared c') = 2048 \<and> (\<forall>j. pp_pc (th_local c j) \<noteq> P3Oops)"
proof -
  let ?b = "p3_boot (\<lambda>_. umem_with 0 [])"
  let ?a = "[(0, PfCall (PfWrite (umem_with 0 []) 8 5000 0)), (0, PfStep)] :: (nat \<times> pf_action) list"
  have s: "threads_run (p3_step bytewise) ?b [] = Some ?b" by simp
  obtain c' where c': "threads_run (p3_step bytewise) ?b ?a = Some c'" "pf_buffer_size (th_shared c') = 2048"
    by (simp add: p3_boot_def p3_simps threads_exec_def procfs3_MAX_SIZE_def)
  have "list_all (\<lambda>act. fst act = 2 \<longrightarrow> snd act = PfStep) ?a" by simp
  from procfs3_smp_safe[OF bytewise.user_access_axioms s c'(1) this] s c' show ?thesis by blast
qed

text \<open>
  A reader with room for \<open>n\<close> bytes at \<open>a\<close>, whose call another process interrupts with a write of
  \<open>m\<close> bytes, after it has written these before.
\<close>

definition p3_race :: "umem \<Rightarrow> nat \<Rightarrow> nat \<Rightarrow> umem \<Rightarrow> nat \<Rightarrow> nat \<Rightarrow> (nat \<times> pf_action) list" where
  "p3_race u a n v b m =
     [(1, PfCall (PfWrite v b m 0)), (1, PfStep), (1, PfStep), (1, PfStep), (1, PfStep),
      (0, PfCall (PfRead u a n 0)), (0, PfStep), (0, PfStep), (0, PfStep), (0, PfStep),
      (1, PfCall (PfWrite v b m 0)), (1, PfStep), (0, PfStep), (0, PfStep)]"

text \<open>
  C36 (bounds): a read of \<open>/proc/buffer2k\<close> may return more than it was asked for: when another process
  has written \<open>m \<le> 2048\<close> bytes, and begins to write \<open>m\<close> bytes again after the copy, a read of \<open>n < m\<close> bytes
  returns \<open>m\<close> and moves the offset by \<open>m\<close>, though only \<open>n\<close> bytes were stored.
\<close>

theorem procfs3_read_returns_too_much:
  assumes nc: "user_access nc" and n: "0 < n" "n < m" "m \<le> 2048"
    and u: "mapped u a n" and v: "mapped v b m"
  shows "\<exists>c. threads_run (p3_step nc) (p3_boot us) (p3_race u a n v b m) = Some c \<and>
    th_local c 0 = \<lparr>pp_pc = P3User, pp_mem = put_bytes u a (get_bytes v b n),
      pp_off = int m, pp_ret = int m\<rparr>"
proof -
  let ?z = "replicate 2048 NUL" and ?f = "get_bytes v b m"
  have w: "copy_from_user nc v b m ?z = Some (0, put_front ?f ?z)"
    using user_access.copy_from_user_ok[OF nc v, of ?z] n by simp
  have l: "length (put_front ?f ?z) = 2048" using n by simp
  have t: "take n (put_front ?f ?z) = get_bytes v b n"
    using n get_bytes_take[of n m v b] by (simp add: put_front_def min_absorb1)
  have r: "copy_to_user nc u a (get_bytes v b n) = (0, put_bytes u a (get_bytes v b n))"
    using user_access.copy_to_user_ok[OF nc, of u a "get_bytes v b n"] u by simp
  have m: "min 2048 m = m" "min m n = n" "m \<noteq> 0" "\<not> 2048 < n" using n by simp_all
  show ?thesis
    by (simp add: p3_race_def p3_boot_def p3_simps threads_exec_def procfs3_zero_def
      procfs3_MAX_SIZE_def w l t r m del: One_nat_def)
qed

theorem procfs3_read_returns_too_much_witness:
  "\<exists>c. threads_run (p3_step bytewise) (p3_boot (\<lambda>_. umem_with 0 []))
      (p3_race (umem_with 0 []) 4 2 (umem_with 8 ''hello'') 8 5) = Some c \<and> pp_ret (th_local c 0) = 5"
  using procfs3_read_returns_too_much[OF bytewise.user_access_axioms, of 2 5 "umem_with 0 []" 4
    "umem_with 8 ''hello''" 8 "\<lambda>_. umem_with 0 []"] by auto

text \<open>
  A writer of \<open>n\<close> bytes, interrupted by one of \<open>m\<close> bytes between its test and its copy, or between
  its copy and the store of the terminator.
\<close>

definition p2_race :: "umem \<Rightarrow> nat \<Rightarrow> nat \<Rightarrow> umem \<Rightarrow> nat \<Rightarrow> nat \<Rightarrow> (nat \<times> pf_action) list" where
  "p2_race u a n v b m =
     [(0, PfCall (PfWrite u a n 0)), (0, PfStep), (0, PfStep),
      (1, PfCall (PfWrite v b m 0)), (1, PfStep), (0, PfStep)]"

definition p2_race_nul :: "umem \<Rightarrow> nat \<Rightarrow> nat \<Rightarrow> umem \<Rightarrow> nat \<Rightarrow> nat \<Rightarrow> (nat \<times> pf_action) list" where
  "p2_race_nul u a n v b m =
     [(0, PfCall (PfWrite u a n 0)), (0, PfStep), (0, PfStep), (0, PfStep),
      (1, PfCall (PfWrite v b m 0)), (1, PfStep), (0, PfStep)]"

text \<open>
  C17 (safety): two writes of \<open>/proc/buffer1k\<close> at the same time may leave the array, though each alone
  stays in it: a write of \<open>n < 1024\<close> bytes, which has passed its test, copies with the size that a
  write of \<open>m > 1024\<close> bytes has just stored, which is more than the array has (a kernel that checks the
  sizes of copies refuses this one); and when the other write comes after the copy of \<open>n\<close> accessible bytes,
  the terminator is stored beyond the array, which no kernel checks.
\<close>

theorem procfs2_writes_race:
  assumes "n < 1024" and "1024 < m"
  shows "(\<exists>c. threads_run (p2_step nc) (p2_boot us) (p2_race u a n v b m) = Some c \<and>
      pp_pc (th_local c 0) = P2Oops) \<and>
    (user_access nc \<and> mapped u a n \<longrightarrow>
      (\<exists>c. threads_run (p2_step nc) (p2_boot us) (p2_race_nul u a n v b m) = Some c \<and>
        pp_pc (th_local c 0) = P2Oops))"
proof (intro conjI impI)
  show "\<exists>c. threads_run (p2_step nc) (p2_boot us) (p2_race u a n v b m) = Some c \<and>
      pp_pc (th_local c 0) = P2Oops"
    using assms
    by (simp add: p2_race_def p2_boot_def p2_fops_def threads_exec_def procfs2_zero_def
      procfs2_MAX_SIZE_def copy_from_user_def del: One_nat_def)
next
  assume nc: "user_access nc \<and> mapped u a n"
  have "copy_from_user nc u a n (replicate 1024 NUL) = Some (0, put_front (get_bytes u a n) (replicate 1024 NUL))"
    using user_access.copy_from_user_ok[of nc u a n "replicate 1024 NUL"] nc assms by simp
  then show "\<exists>c. threads_run (p2_step nc) (p2_boot us) (p2_race_nul u a n v b m) = Some c \<and>
      pp_pc (th_local c 0) = P2Oops"
    using assms
    by (simp add: p2_race_nul_def p2_boot_def p2_fops_def threads_exec_def procfs2_zero_def
      procfs2_MAX_SIZE_def del: One_nat_def)
qed

theorem procfs2_writes_race_witness:
  "(\<exists>c. threads_run (p2_step bytewise) (p2_boot (\<lambda>_. umem_with 0 []))
      (p2_race (umem_with 4 ''abc'') 4 3 (umem_with 0 []) 8 2000) = Some c \<and>
    pp_pc (th_local c 0) = P2Oops) \<and>
   (\<exists>c. threads_run (p2_step bytewise) (p2_boot (\<lambda>_. umem_with 0 []))
      (p2_race_nul (umem_with 4 ''abc'') 4 3 (umem_with 0 []) 8 2000) = Some c \<and>
    pp_pc (th_local c 0) = P2Oops)"
  using procfs2_writes_race[of 3 2000 bytewise "\<lambda>_. umem_with 0 []" "umem_with 4 ''abc''" 4 "umem_with 0 []" 8]
    bytewise.user_access_axioms by simp

end
