(* ===== verification/Rw_Lock.thy ===== *)
theory Rw_Lock
  imports Interleaving
begin

text \<open>
  Threads around a lock that any number of readers or one writer may have, with the number of readers
  and whether there is a writer in the shared state. The contract of the steps that go in, stay
  inside and come out; what follows is that the counts are right, that a writer is alone, and that
  every call takes effect at once, at the step that gives the lock back.
\<close>

section \<open>The lock\<close>

datatype rw_mode = RwOut | RwReading | RwWriting

text \<open>
  \<open>view\<close> is what the lock guards. \<open>call_of\<close> is the call of a thread that has the lock, \<open>rest\<close> what is
  left of it on the guarded state, \<open>result_of\<close> what it found once the lock is given back, and \<open>whole\<close> a call
  in one go. A reader leaves the guarded state alone.
\<close>

locale rw_section =
  fixes step :: "('a, 'g, 'l) thread_step" and mode :: "'l \<Rightarrow> rw_mode"
    and readers :: "'g \<Rightarrow> nat" and writer :: "'g \<Rightarrow> bool" and view :: "'g \<Rightarrow> 's"
    and call_of :: "'l \<Rightarrow> 'c" and result_of :: "'l \<Rightarrow> 'r"
    and whole :: "'c \<Rightarrow> 's \<Rightarrow> ('r \<times> 's) option" and rest :: "'s \<Rightarrow> 'l \<Rightarrow> ('r \<times> 's) option"
  assumes outside: "step a g l = Some (g', l') \<Longrightarrow> mode l = RwOut \<Longrightarrow> mode l' = RwOut \<Longrightarrow>
        readers g' = readers g \<and> writer g' = writer g \<and> view g' = view g"
    and read_lock: "step a g l = Some (g', l') \<Longrightarrow> mode l = RwOut \<Longrightarrow> mode l' = RwReading \<Longrightarrow>
        \<not> writer g \<and> \<not> writer g' \<and> readers g' = Suc (readers g) \<and> view g' = view g \<and>
        rest (view g) l' = whole (call_of l') (view g)"
    and write_lock: "step a g l = Some (g', l') \<Longrightarrow> mode l = RwOut \<Longrightarrow> mode l' = RwWriting \<Longrightarrow>
        \<not> writer g \<and> writer g' \<and> readers g = 0 \<and> readers g' = 0 \<and> view g' = view g \<and>
        rest (view g) l' = whole (call_of l') (view g)"
    and reading: "step a g l = Some (g', l') \<Longrightarrow> mode l = RwReading \<Longrightarrow>
        view g' = view g \<and> writer g' = writer g \<and>
        (mode l' = RwReading \<and> readers g' = readers g \<and> call_of l' = call_of l \<and>
           rest (view g) l' = rest (view g) l \<or>
         mode l' = RwOut \<and> readers g' = readers g - 1 \<and> rest (view g) l = Some (result_of l', view g))"
    and writing: "step a g l = Some (g', l') \<Longrightarrow> mode l = RwWriting \<Longrightarrow>
        readers g' = readers g \<and>
        (mode l' = RwWriting \<and> writer g' = writer g \<and> call_of l' = call_of l \<and>
           rest (view g') l' = rest (view g) l \<or>
         mode l' = RwOut \<and> \<not> writer g' \<and> rest (view g) l = Some (result_of l', view g'))"
begin

definition reading_threads :: "('g, 'l) threads \<Rightarrow> nat set" where
  "reading_threads c = {i. mode (th_local c i) = RwReading}"

text \<open>The counts are right, and a writer is alone.\<close>

definition rw_ok :: "('g, 'l) threads \<Rightarrow> bool" where
  "rw_ok c \<longleftrightarrow> finite (reading_threads c) \<and> readers (th_shared c) = card (reading_threads c) \<and>
     (if writer (th_shared c)
      then (\<exists>!i. mode (th_local c i) = RwWriting) \<and> reading_threads c = {}
      else \<forall>i. mode (th_local c i) \<noteq> RwWriting)"

lemma reading_threads_update:
  "reading_threads \<lparr>th_shared = g, th_local = (th_local c)(i := l)\<rparr> =
    (if mode l = RwReading then insert i (reading_threads c) else reading_threads c - {i})"
  by (auto simp: reading_threads_def)

lemma writer_alone:
  assumes "rw_ok c" and "mode (th_local c i) = RwWriting" and "mode (th_local c j) \<noteq> RwOut"
  shows "j = i"
  using assms rw_mode.exhaust[of "mode (th_local c j)"]
  by (auto simp: rw_ok_def reading_threads_def split: if_splits)

lemma writer_up:
  assumes "rw_ok c" and "mode (th_local c i) = RwWriting"
  shows "writer (th_shared c)"
  using assms by (meson rw_ok_def)

lemma no_writer:
  assumes "rw_ok c" and "mode (th_local c i) = RwReading"
  shows "\<not> writer (th_shared c)"
  using assms by (auto simp: rw_ok_def reading_threads_def split: if_splits)

lemma rw_ok_step:
  assumes c: "rw_ok c" and s: "step a (th_shared c) (th_local c i) = Some (g, l)"
  shows "rw_ok \<lparr>th_shared = g, th_local = (th_local c)(i := l)\<rparr>"
proof (cases "mode (th_local c i)")
  case RwOut
  then have i: "i \<notin> reading_threads c" by (simp add: reading_threads_def)
  have fin: "finite (reading_threads c)" "readers (th_shared c) = card (reading_threads c)"
    using c by (simp_all add: rw_ok_def)
  show ?thesis
  proof (cases "mode l")
    case out: RwOut
    have "(mode (((th_local c)(i := l)) j) = m) = (mode (th_local c j) = m)" for j m
      using RwOut out by simp
    with outside[OF s RwOut out] c i show ?thesis
      unfolding rw_ok_def reading_threads_update by (simp add: out)
  next
    case RwReading
    have "mode (th_local c j) \<noteq> RwWriting" for j
      using read_lock[OF s RwOut RwReading] c by (simp add: rw_ok_def)
    with read_lock[OF s RwOut RwReading] fin i RwReading show ?thesis
      unfolding rw_ok_def reading_threads_update by simp
  next
    case RwWriting
    from write_lock[OF s RwOut RwWriting] fin have "reading_threads c = {}" by simp
    moreover have "mode (th_local c j) \<noteq> RwWriting" for j
      using write_lock[OF s RwOut RwWriting] c by (simp add: rw_ok_def)
    ultimately show ?thesis using write_lock[OF s RwOut RwWriting] RwWriting
      unfolding rw_ok_def reading_threads_update by auto
  qed
next
  case RwReading
  note nw = no_writer[OF c RwReading]
  have i: "i \<in> reading_threads c" using RwReading by (simp add: reading_threads_def)
  have w: "mode (th_local c j) \<noteq> RwWriting" for j using c nw by (simp add: rw_ok_def)
  show ?thesis
  proof (cases "mode l = RwReading")
    case True
    then have "insert i (reading_threads c) = reading_threads c" using i by auto
    with reading[OF s RwReading] True nw w c show ?thesis
      unfolding rw_ok_def reading_threads_update by simp
  next
    case False
    with reading[OF s RwReading] have "mode l = RwOut" "readers g = readers (th_shared c) - 1"
      "\<not> writer g" using nw by auto
    with c i w show ?thesis
      unfolding rw_ok_def reading_threads_update by (simp add: card_Diff_singleton)
  qed
next
  case RwWriting
  have w: "writer (th_shared c)" by (rule writer_up[OF c RwWriting])
  then have e: "reading_threads c = {}" "readers (th_shared c) = 0" using c by (auto simp: rw_ok_def)
  have one: "mode (th_local c j) = RwWriting \<Longrightarrow> j = i" for j using writer_alone[OF c RwWriting] by simp
  show ?thesis
  proof (cases "mode l = RwWriting")
    case True
    with writing[OF s RwWriting] e w one show ?thesis
      unfolding rw_ok_def reading_threads_update by auto
  next
    case False
    with writing[OF s RwWriting] e one show ?thesis
      unfolding rw_ok_def reading_threads_update by auto
  qed
qed

section \<open>Calls take effect at once\<close>

text \<open>The calls that gave the lock back in a run, in that order, with what they found.\<close>

fun commits :: "('g, 'l) threads \<Rightarrow> (nat \<times> 'a) list \<Rightarrow> ('c \<times> 'r) list" where
  "commits c [] = []"
| "commits c (act # acts) =
     (case threads_exec step c act of
        None \<Rightarrow> []
      | Some d \<Rightarrow>
          (let l = th_local c (fst act); l' = th_local d (fst act)
           in if mode l \<noteq> RwOut \<and> mode l' = RwOut then (call_of l, result_of l') # commits d acts
              else commits d acts))"

text \<open>
  What the calls that are done have left is the guarded state, unless a writer is at work; and who has
  the lock still does, on the guarded state, what its whole call does after them.
\<close>

definition committed :: "'s \<Rightarrow> ('g, 'l) threads \<Rightarrow> bool" where
  "committed v c \<longleftrightarrow> (\<not> writer (th_shared c) \<longrightarrow> view (th_shared c) = v) \<and>
     (\<forall>i. mode (th_local c i) \<noteq> RwOut \<longrightarrow>
       rest (view (th_shared c)) (th_local c i) = whole (call_of (th_local c i)) v)"

lemma committed_step:
  assumes c: "rw_ok c" "committed v c" and s: "step a (th_shared c) (th_local c i) = Some (g, l)"
  defines "d \<equiv> \<lparr>th_shared = g, th_local = (th_local c)(i := l)\<rparr>"
  shows "if mode (th_local c i) \<noteq> RwOut \<and> mode l = RwOut
    then \<exists>v'. whole (call_of (th_local c i)) v = Some (result_of l, v') \<and> committed v' d
    else committed v d"
proof (cases "mode (th_local c i)")
  case RwOut
  show ?thesis
  proof (cases "mode l")
    case out: RwOut
    from outside[OF s RwOut out] c RwOut out show ?thesis by (auto simp: committed_def d_def)
  next
    case RwReading
    from read_lock[OF s RwOut RwReading] c RwOut RwReading show ?thesis
      by (auto simp: committed_def d_def)
  next
    case RwWriting
    from write_lock[OF s RwOut RwWriting] c RwOut RwWriting show ?thesis
      by (auto simp: committed_def d_def)
  qed
next
  case RwReading
  have v: "view (th_shared c) = v" using no_writer[OF c(1) RwReading] c(2) by (simp add: committed_def)
  have w: "rest v (th_local c i) = whole (call_of (th_local c i)) v"
    using c(2) RwReading v by (simp add: committed_def)
  from reading[OF s RwReading] c(2) w v RwReading show ?thesis
    by (auto simp: committed_def d_def)
next
  case RwWriting
  have w: "rest (view (th_shared c)) (th_local c i) = whole (call_of (th_local c i)) v"
    using c(2) RwWriting by (simp add: committed_def)
  have up: "writer (th_shared c)" using writer_up[OF c(1) RwWriting] .
  have alone: "mode (th_local c j) = RwOut" if "j \<noteq> i" for j
    using writer_alone[OF c(1) RwWriting, of j] that by auto
  show ?thesis
  proof (cases "mode l = RwOut")
    case True
    with writing[OF s RwWriting] w have "whole (call_of (th_local c i)) v = Some (result_of l, view g)"
      by simp
    moreover have "committed (view g) d" using alone True by (simp add: committed_def d_def)
    ultimately show ?thesis using True RwWriting by auto
  next
    case False
    with writing[OF s RwWriting] w up alone show ?thesis by (auto simp: committed_def d_def)
  qed
qed

lemma run_linear:
  assumes "threads_run step c acts = Some c'" and "rw_ok c" and "committed v c"
  shows "rw_ok c' \<and> (\<exists>v'. serve whole v (map fst (commits c acts)) = Some (v', map snd (commits c acts)) \<and>
    committed v' c')"
  using assms
proof (induction acts arbitrary: c v)
  case Nil
  then show ?case by simp
next
  case (Cons act acts)
  obtain i a where act: "act = (i, a)" by (cases act)
  from Cons.prems(1) obtain d where d: "threads_exec step c act = Some d"
    "threads_run step d acts = Some c'" by (auto split: option.splits)
  then obtain g l where s: "step a (th_shared c) (th_local c i) = Some (g, l)"
    and d': "d = \<lparr>th_shared = g, th_local = (th_local c)(i := l)\<rparr>"
    by (auto simp: act threads_exec_Some)
  have ok: "rw_ok d" using rw_ok_step[OF Cons.prems(2) s] by (simp add: d')
  note k = committed_step[OF Cons.prems(2,3) s]
  show ?case
  proof (cases "mode (th_local c i) \<noteq> RwOut \<and> mode l = RwOut")
    case True
    with k obtain w where w: "whole (call_of (th_local c i)) v = Some (result_of l, w)" "committed w d"
      by (auto simp: d')
    from Cons.IH[OF d(2) ok w(2)] w(1) True d show ?thesis by (auto simp: act d' Let_def)
  next
    case False
    with k have "committed v d" by (simp add: d' split: if_splits)
    from Cons.IH[OF d(2) ok this] False d show ?thesis by (auto simp: act d' Let_def)
  qed
qed

end

end
