(* ===== verification/Ioctl_Smp.thy ===== *)
theory Ioctl_Smp
  imports Ioctl_Test Rw_Lock
begin

text \<open>
  \<open>ioctl.c\<close> with any number of processes that share an open file, and so its object, in the functions
  at the same time. The byte of the object is guarded by a read-write lock, the number
  \<open>ioctl_num\<close> by nothing. The functions of \<open>Ioctl_Test\<close> are cut here into steps, one for each statement
  that touches the lock, the byte or the number.
\<close>

section \<open>Steps\<close>

text \<open>
  \<open>read_lock\<close> in \<open>test_ioctl_ioctl\<close> and in \<open>test_ioctl_read\<close>: where the byte goes, with the argument of the
  one, the buffer and the count of the other.
\<close>

datatype io_dest = ToArg nat | ToBuffer nat nat

text \<open>
  Where a process is: in user mode; before the \<open>switch\<close> (the command and its argument); with the number to
  set, before \<open>write_lock\<close>, before the assignment and before \<open>write_unlock\<close>; before \<open>read_lock\<close>, before
  the byte is loaded, before \<open>read_unlock\<close>, and before the copy to the user. \<open>IoStray\<close> is where a process
  stops that gave \<open>IOCTL_VALGET_NUM\<close> a kernel address: what that store overwrote is not modelled.
\<close>

datatype io_pc =
    IoUser
  | IoSwitch "32 word" "64 word"
  | SetLock "32 word"
  | SetStore "32 word"
  | SetUnlock "32 word"
  | GetLock io_dest
  | GetLoad io_dest
  | GetUnlock io_dest "8 word"
  | GetCopy io_dest "8 word"
  | IoStray

record io_proc =
  ip_pc :: io_pc
  ip_mem :: umem
  ip_ret :: int

record io_shared =
  is_val :: "8 word"
  is_readers :: nat
  is_writer :: bool
  is_num :: "32 word"

definition io_return :: "int \<Rightarrow> io_proc \<Rightarrow> io_proc" where
  "io_return r p = p\<lparr>ip_pc := IoUser, ip_ret := r\<rparr>"

definition io_switch ::
    "not_copied \<Rightarrow> io_shared \<Rightarrow> io_proc \<Rightarrow> 32 word \<Rightarrow> 64 word \<Rightarrow> io_shared \<times> io_proc" where
  "io_switch nc s p cmd arg =
     (if cmd = IOCTL_VALSET then
        (s, case copy_from_user nc (ip_mem p) (unat arg) 4 (replicate 4 NUL) of
              Some (n, bs) \<Rightarrow> if n \<noteq> 0 then io_return (- EFAULT) p else p\<lparr>ip_pc := SetLock (le_word bs)\<rparr>
            | None \<Rightarrow> p)
      else if cmd = IOCTL_VALGET then (s, p\<lparr>ip_pc := GetLock (ToArg (unat arg))\<rparr>)
      else if cmd = IOCTL_VALGET_NUM then
        (s, if kernel_address arg then p\<lparr>ip_pc := IoStray\<rparr>
            else if mapped (ip_mem p) (unat arg) 4
            then io_return 0 (p\<lparr>ip_mem := put_bytes (ip_mem p) (unat arg) (le_bytes (is_num s))\<rparr>)
            else io_return (- EFAULT) p)
      else if cmd = IOCTL_VALSET_NUM then (s\<lparr>is_num := ucast arg\<rparr>, io_return 0 p)
      else (s, io_return (- ENOTTY) p))"

definition io_copy :: "not_copied \<Rightarrow> io_proc \<Rightarrow> io_dest \<Rightarrow> 8 word \<Rightarrow> io_proc" where
  "io_copy nc p dest val =
     (case dest of
        ToArg arg \<Rightarrow>
          (case copy_to_user nc (ip_mem p) arg (le_bytes (ucast val)) of
             (n, u) \<Rightarrow> io_return (if n \<noteq> 0 then - EFAULT else 0) (p\<lparr>ip_mem := u\<rparr>))
      | ToBuffer buf count \<Rightarrow>
          (case ioctl_read_loop nc (ip_mem p) buf count (char_of (unat val)) of
             (fault, u) \<Rightarrow> io_return (if fault then - EFAULT else int count) (p\<lparr>ip_mem := u\<rparr>)))"

text \<open>A system call: of \<open>ioctl\<close> or of \<open>read\<close>, as the table \<open>fops\<close> names them.\<close>

datatype io_call = IoIoctl umem "32 word" "64 word" | IoRead umem nat nat

definition io_fops :: "io_call \<Rightarrow> io_proc \<Rightarrow> io_proc" where
  "io_fops call p =
     (case call of
        IoIoctl u cmd arg \<Rightarrow> p\<lparr>ip_mem := u, ip_pc := IoSwitch cmd arg\<rparr>
      | IoRead u buf count \<Rightarrow> p\<lparr>ip_mem := u, ip_pc := GetLock (ToBuffer buf count)\<rparr>)"

datatype io_action = IoCall io_call | IoStep

text \<open>No step is possible while \<open>write_lock\<close> or \<open>read_lock\<close> waits.\<close>

fun io_step :: "not_copied \<Rightarrow> (io_action, io_shared, io_proc) thread_step" where
  "io_step nc (IoCall call) s p = (if ip_pc p = IoUser then Some (s, io_fops call p) else None)"
| "io_step nc IoStep s p =
     (case ip_pc p of
        IoUser \<Rightarrow> None
      | IoSwitch cmd arg \<Rightarrow> Some (io_switch nc s p cmd arg)
      | SetLock w \<Rightarrow>
          if is_writer s \<or> is_readers s \<noteq> 0 then None
          else Some (s\<lparr>is_writer := True\<rparr>, p\<lparr>ip_pc := SetStore w\<rparr>)
      | SetStore w \<Rightarrow> Some (s\<lparr>is_val := ucast w\<rparr>, p\<lparr>ip_pc := SetUnlock w\<rparr>)
      | SetUnlock w \<Rightarrow> Some (s\<lparr>is_writer := False\<rparr>, io_return 0 p)
      | GetLock dest \<Rightarrow>
          if is_writer s then None
          else Some (s\<lparr>is_readers := Suc (is_readers s)\<rparr>, p\<lparr>ip_pc := GetLoad dest\<rparr>)
      | GetLoad dest \<Rightarrow> Some (s, p\<lparr>ip_pc := GetUnlock dest (is_val s)\<rparr>)
      | GetUnlock dest val \<Rightarrow>
          Some (s\<lparr>is_readers := is_readers s - 1\<rparr>, p\<lparr>ip_pc := GetCopy dest val\<rparr>)
      | GetCopy dest val \<Rightarrow> Some (s, io_copy nc p dest val)
      | IoStray \<Rightarrow> None)"

type_synonym io_conf = "(io_shared, io_proc) threads"

text \<open>After \<open>test_ioctl_open\<close>.\<close>

definition io_boot :: "(nat \<Rightarrow> umem) \<Rightarrow> io_conf" where
  "io_boot us =
     \<lparr>th_shared = \<lparr>is_val = 0xFF, is_readers = 0, is_writer = False, is_num = 0\<rparr>,
      th_local = (\<lambda>i. \<lparr>ip_pc = IoUser, ip_mem = us i, ip_ret = 0\<rparr>)\<rparr>"

section \<open>The lock\<close>

fun io_mode :: "io_pc \<Rightarrow> rw_mode" where
  "io_mode (SetStore w) = RwWriting"
| "io_mode (SetUnlock w) = RwWriting"
| "io_mode (GetLoad dest) = RwReading"
| "io_mode (GetUnlock dest val) = RwReading"
| "io_mode _ = RwOut"

text \<open>The byte on its own: set, or got.\<close>

datatype byte_call = ByteSet "8 word" | ByteGet

fun byte_whole :: "byte_call \<Rightarrow> 8 word \<Rightarrow> (8 word option \<times> 8 word) option" where
  "byte_whole (ByteSet b) v = Some (None, b)"
| "byte_whole ByteGet v = Some (Some v, v)"

fun io_call_of :: "io_pc \<Rightarrow> byte_call" where
  "io_call_of (SetStore w) = ByteSet (ucast w)"
| "io_call_of (SetUnlock w) = ByteSet (ucast w)"
| "io_call_of _ = ByteGet"

fun io_found :: "io_pc \<Rightarrow> 8 word option" where
  "io_found (GetCopy dest val) = Some val"
| "io_found _ = None"

fun io_rest :: "8 word \<Rightarrow> io_pc \<Rightarrow> (8 word option \<times> 8 word) option" where
  "io_rest v (SetStore w) = Some (None, ucast w)"
| "io_rest v (SetUnlock w) = Some (None, v)"
| "io_rest v (GetLoad dest) = Some (Some v, v)"
| "io_rest v (GetUnlock dest val) = Some (Some val, v)"
| "io_rest v _ = None"

lemma io_switch_out: "ip_pc (snd (io_switch nc s p cmd arg)) = q \<Longrightarrow> ip_pc p = IoSwitch cmd arg \<Longrightarrow> io_mode q = RwOut"
  by (auto simp: io_switch_def io_return_def copy_from_user_def split: option.splits if_splits)

lemma io_switch_shared:
  "is_readers (fst (io_switch nc s p cmd arg)) = is_readers s"
  "is_writer (fst (io_switch nc s p cmd arg)) = is_writer s"
  "is_val (fst (io_switch nc s p cmd arg)) = is_val s"
  by (auto simp: io_switch_def)

lemma io_copy_pc [simp]: "ip_pc (io_copy nc p dest val) = IoUser"
  by (auto simp: io_copy_def io_return_def split: io_dest.split prod.split)

lemma io_step_cases:
  assumes "io_step nc act s p = Some (s', p')"
  obtains (other) "io_mode (ip_pc p) = RwOut" "io_mode (ip_pc p') = RwOut"
      "is_readers s' = is_readers s" "is_writer s' = is_writer s" "is_val s' = is_val s"
  | (inside) "act = IoStep" "\<forall>cmd arg. ip_pc p \<noteq> IoSwitch cmd arg" "ip_pc p \<noteq> IoUser"
      "\<forall>dest val. ip_pc p \<noteq> GetCopy dest val"
proof (cases act)
  case (IoCall call)
  with assms show ?thesis by (cases call) (auto simp: io_fops_def split: if_splits intro: other)
next
  case IoStep
  show ?thesis
  proof (cases "ip_pc p")
    case (IoSwitch cmd arg)
    with assms IoStep have "io_switch nc s p cmd arg = (s', p')" by simp
    with io_switch_out[of nc s p cmd arg "ip_pc p'"] io_switch_shared[of nc s p cmd arg] IoSwitch
    show ?thesis by (intro other) simp_all
  next
    case (GetCopy dest val)
    with assms IoStep show ?thesis by (intro other) auto
  qed (use assms IoStep inside in auto)
qed

interpretation io_lock: rw_section "io_step nc" "\<lambda>p. io_mode (ip_pc p)" is_readers is_writer is_val
    "\<lambda>p. io_call_of (ip_pc p)" "\<lambda>p. io_found (ip_pc p)" byte_whole "\<lambda>v p. io_rest v (ip_pc p)" for nc
proof
  fix act s p s' p'
  assume s: "io_step nc act s p = Some (s', p')"
  {
    assume "io_mode (ip_pc p) = RwOut" "io_mode (ip_pc p') = RwOut"
    with s show "is_readers s' = is_readers s \<and> is_writer s' = is_writer s \<and> is_val s' = is_val s"
      by (cases rule: io_step_cases[OF s]) (auto split: io_pc.splits if_splits)
  next
    assume "io_mode (ip_pc p) = RwOut" "io_mode (ip_pc p') = RwReading"
    with s show "\<not> is_writer s \<and> \<not> is_writer s' \<and> is_readers s' = Suc (is_readers s) \<and> is_val s' = is_val s \<and>
        io_rest (is_val s) (ip_pc p') = byte_whole (io_call_of (ip_pc p')) (is_val s)"
      by (cases rule: io_step_cases[OF s]) (auto split: io_pc.splits if_splits)
  next
    assume "io_mode (ip_pc p) = RwOut" "io_mode (ip_pc p') = RwWriting"
    with s show "\<not> is_writer s \<and> is_writer s' \<and> is_readers s = 0 \<and> is_readers s' = 0 \<and> is_val s' = is_val s \<and>
        io_rest (is_val s) (ip_pc p') = byte_whole (io_call_of (ip_pc p')) (is_val s)"
      by (cases rule: io_step_cases[OF s]) (auto split: io_pc.splits if_splits)
  next
    assume "io_mode (ip_pc p) = RwReading"
    with s show "is_val s' = is_val s \<and> is_writer s' = is_writer s \<and>
        (io_mode (ip_pc p') = RwReading \<and> is_readers s' = is_readers s \<and>
           io_call_of (ip_pc p') = io_call_of (ip_pc p) \<and>
           io_rest (is_val s) (ip_pc p') = io_rest (is_val s) (ip_pc p) \<or>
         io_mode (ip_pc p') = RwOut \<and> is_readers s' = is_readers s - 1 \<and>
           io_rest (is_val s) (ip_pc p) = Some (io_found (ip_pc p'), is_val s))"
      by (cases rule: io_step_cases[OF s]) (auto split: io_pc.splits if_splits)
  next
    assume "io_mode (ip_pc p) = RwWriting"
    with s show "is_readers s' = is_readers s \<and>
        (io_mode (ip_pc p') = RwWriting \<and> is_writer s' = is_writer s \<and>
           io_call_of (ip_pc p') = io_call_of (ip_pc p) \<and>
           io_rest (is_val s') (ip_pc p') = io_rest (is_val s) (ip_pc p) \<or>
         io_mode (ip_pc p') = RwOut \<and> \<not> is_writer s' \<and>
           io_rest (is_val s) (ip_pc p) = Some (io_found (ip_pc p'), is_val s'))"
      by (cases rule: io_step_cases[OF s]) (auto simp: io_return_def split: io_pc.splits if_splits)
  }
qed

section \<open>A call on its own\<close>

text \<open>The object of the file \<open>f\<close> and the number, as the functions of \<open>Ioctl_Test\<close> have them, with nobody inside.\<close>

definition io_shared_of :: "ioctl_sys \<Rightarrow> nat \<Rightarrow> io_shared" where
  "io_shared_of s a = \<lparr>is_val = (case it_heap s a of Some v \<Rightarrow> v | None \<Rightarrow> 0), is_readers = 0,
     is_writer = False, is_num = it_num s\<rparr>"

text \<open>A call that nobody interrupts is the function of \<open>Ioctl_Test\<close>.\<close>

lemma io_ioctl_alone:
  assumes "it_files s f = Some a" and "it_heap s a = Some v"
    and "test_ioctl_ioctl nc s f u cmd arg = Some (r, s', u')"
    and "th_shared c = io_shared_of s a" and "ip_pc (th_local c i) = IoUser"
  shows "\<exists>k c'. k \<le> 5 \<and>
    threads_run (io_step nc) c ((i, IoCall (IoIoctl u cmd arg)) # replicate k (i, IoStep)) = Some c' \<and>
    th_shared c' = io_shared_of s' a \<and> th_local c' i = \<lparr>ip_pc = IoUser, ip_mem = u', ip_ret = r\<rparr>"
proof -
  consider (set) "cmd = IOCTL_VALSET" | (get) "cmd = IOCTL_VALGET"
    | (other) "cmd \<noteq> IOCTL_VALSET" "cmd \<noteq> IOCTL_VALGET" by blast
  then show ?thesis
  proof cases
    case set
    obtain n bs where cp: "copy_from_user nc u (unat arg) 4 (replicate 4 NUL) = Some (n, bs)"
      by (simp add: copy_from_user_def)
    show ?thesis
    proof (cases "n = 0")
      case True
      with assms set cp show ?thesis
        by (intro exI[of _ 4]) (auto simp: test_ioctl_ioctl_def io_shared_of_def io_fops_def
          io_return_def io_switch_def threads_exec_def eval_nat_numeral)
    next
      case False
      with assms set cp show ?thesis
        by (intro exI[of _ 1]) (auto simp: test_ioctl_ioctl_def io_shared_of_def io_fops_def
          io_return_def io_switch_def threads_exec_def)
    qed
  next
    case get
    obtain n w where cp: "copy_to_user nc u (unat arg) (le_bytes (ucast v)) = (n, w)" by fastforce
    have ne: "IOCTL_VALGET \<noteq> IOCTL_VALSET" by (simp add: ioctl_test_nums)
    from assms get cp ne show ?thesis
      by (intro exI[of _ 5]) (auto simp: test_ioctl_ioctl_def io_shared_of_def io_fops_def
        io_return_def io_switch_def io_copy_def threads_exec_def eval_nat_numeral)
  next
    case other
    with assms show ?thesis
      by (intro exI[of _ 1]) (auto simp: test_ioctl_ioctl_def io_shared_of_def io_fops_def
        io_return_def io_switch_def threads_exec_def split: if_splits)
  qed
qed

lemma io_read_alone:
  assumes "it_files s f = Some a" and "it_heap s a = Some v"
    and "test_ioctl_read nc s f u buf count = Some (r, u')"
    and "th_shared c = io_shared_of s a" and "ip_pc (th_local c i) = IoUser"
  shows "\<exists>c'. threads_run (io_step nc) c ((i, IoCall (IoRead u buf count)) # replicate 4 (i, IoStep)) = Some c' \<and>
    th_shared c' = th_shared c \<and> th_local c' i = \<lparr>ip_pc = IoUser, ip_mem = u', ip_ret = r\<rparr>"
  using assms
  by (cases "ioctl_read_loop nc u buf count (char_of (unat v))")
    (auto simp: test_ioctl_read_def io_shared_of_def io_fops_def io_return_def io_copy_def
      threads_exec_def eval_nat_numeral)

section \<open>Who can go on\<close>

text \<open>
  A process in a call can go on, or it waits for the lock, and then one that has it can go on.
\<close>

definition io_in_call :: "io_proc \<Rightarrow> bool" where
  "io_in_call p \<longleftrightarrow> ip_pc p \<noteq> IoUser \<and> ip_pc p \<noteq> IoStray"

lemma io_step_possible:
  assumes "io_in_call p" and "(\<exists>w. ip_pc p = SetLock w) \<longrightarrow> \<not> is_writer s \<and> is_readers s = 0"
    and "(\<exists>dest. ip_pc p = GetLock dest) \<longrightarrow> \<not> is_writer s"
  shows "io_step nc IoStep s p \<noteq> None"
  using assms by (cases "ip_pc p") (auto simp: io_in_call_def)

lemma io_can_go_on:
  assumes ok: "io_lock.rw_ok c" and call: "io_in_call (th_local c i)"
  shows "\<exists>j c'. threads_exec (io_step nc) c (j, IoStep) = Some c' \<and>
    (j = i \<or> io_mode (ip_pc (th_local c j)) \<noteq> RwOut)"
proof -
  have step: "\<exists>c'. threads_exec (io_step nc) c (j, IoStep) = Some c'"
    if "io_step nc IoStep (th_shared c) (th_local c j) \<noteq> None" for j
    using that by (auto simp: threads_exec_def simp del: io_step.simps)
  have has: "io_step nc IoStep (th_shared c) (th_local c j) \<noteq> None" if "io_mode (ip_pc (th_local c j)) \<noteq> RwOut" for j
    by (rule io_step_possible) (use that in \<open>auto simp: io_in_call_def\<close>)
  show ?thesis
  proof (cases "\<exists>j. io_mode (ip_pc (th_local c j)) \<noteq> RwOut")
    case True
    with has step show ?thesis by blast
  next
    case False
    then have "\<not> is_writer (th_shared c)" "is_readers (th_shared c) = 0"
      using ok by (auto simp: io_lock.rw_ok_def io_lock.reading_threads_def split: if_splits)
    with io_step_possible[OF call] step show ?thesis by blast
  qed
qed

section \<open>Properties\<close>

lemma io_boot_ok: "io_lock.rw_ok (io_boot us)" "io_lock.committed 0xFF (io_boot us)"
  by (simp_all add: io_lock.rw_ok_def io_lock.reading_threads_def io_lock.committed_def io_boot_def)

text \<open>The sets and gets of the byte in a run, in the order in which they gave the lock back, with what they found.\<close>

definition io_history ::
    "not_copied \<Rightarrow> io_conf \<Rightarrow> (nat \<times> io_action) list \<Rightarrow> (byte_call \<times> 8 word option) list" where
  "io_history nc = io_lock.commits nc"

text \<open>
  C27 (refinement): however any number of processes interleave that share an open file, at most one sets the byte
  while nobody gets it, the lock counts those who get it, and every ioctl and read that uses the byte
  takes effect at once, when it gives the lock back: those that have, in that order, found and left
  what sets and gets of a byte one after the other do, from 0xFF on. None waits for one
  that cannot go on. This is about the runs up to the first store of \<open>IOCTL_VALGET_NUM\<close> to a kernel
  address, if there is one, whose process goes no further here.
\<close>

theorem ioctl_byte_linear:
  assumes run: "threads_run (io_step nc) (io_boot us) acts = Some c"
  shows "is_readers (th_shared c) = card {i. io_mode (ip_pc (th_local c i)) = RwReading} \<and>
    (\<forall>i j. io_mode (ip_pc (th_local c i)) = RwWriting \<and> io_mode (ip_pc (th_local c j)) \<noteq> RwOut \<longrightarrow> j = i) \<and>
    (\<exists>v. serve byte_whole 0xFF (map fst (io_history nc (io_boot us) acts)) =
        Some (v, map snd (io_history nc (io_boot us) acts)) \<and>
      (\<not> is_writer (th_shared c) \<longrightarrow> is_val (th_shared c) = v)) \<and>
    (\<forall>i. io_in_call (th_local c i) \<longrightarrow>
      (\<exists>j c'. threads_exec (io_step nc) c (j, IoStep) = Some c' \<and>
        (j = i \<or> io_mode (ip_pc (th_local c j)) \<noteq> RwOut)))"
proof -
  from io_lock.run_linear[OF run io_boot_ok] obtain v where ok: "io_lock.rw_ok c"
    and v: "serve byte_whole 0xFF (map fst (io_history nc (io_boot us) acts)) =
      Some (v, map snd (io_history nc (io_boot us) acts))" "io_lock.committed v c"
    by (auto simp: io_history_def)
  from ok have "is_readers (th_shared c) = card {i. io_mode (ip_pc (th_local c i)) = RwReading}"
    by (simp add: io_lock.rw_ok_def io_lock.reading_threads_def)
  with v io_lock.writer_alone[OF ok] io_can_go_on[OF ok] show ?thesis
    unfolding io_lock.committed_def by blast
qed

text \<open>A get whose copy to the user comes after a set of another process.\<close>

definition io_two :: "(nat \<times> io_action) list" where
  "io_two =
     [(0, IoCall (IoRead (umem_with 0 []) 8 1)), (1, IoCall (IoIoctl (umem_with 4 (le_bytes 7)) IOCTL_VALSET 4)),
      (0, IoStep), (1, IoStep), (0, IoStep), (0, IoStep), (1, IoStep), (1, IoStep), (1, IoStep), (0, IoStep),
      (0, IoCall (IoRead (umem_with 0 []) 8 1)), (0, IoStep), (0, IoStep), (0, IoStep)]"

lemma io_two_run:
  "\<exists>c. threads_run (io_step bytewise) (io_boot us) io_two = Some c \<and>
    io_history bytewise (io_boot us) io_two = [(ByteGet, Some 0xFF), (ByteSet 7, None), (ByteGet, Some 7)]"
proof -
  have g: "copy_from_user bytewise (umem_with 4 (le_bytes 7)) 4 4 (replicate 4 NUL) = Some (0, le_bytes 7)"
    using bytewise.copy_from_user_ok[of "umem_with 4 (le_bytes 7)" 4 4 "replicate 4 NUL"]
      get_bytes_umem_with[of 4 "le_bytes 7" 4] by (simp add: put_front_def)
  have n: "unat (4 :: 64 word) = 4" by simp
  show ?thesis
    by (simp add: io_two_def io_boot_def io_fops_def io_return_def io_switch_def threads_exec_def
      io_history_def g le_word_bytes n Let_def del: One_nat_def)
qed

theorem ioctl_byte_linear_witness:
  "\<exists>v. serve byte_whole 0xFF [ByteGet, ByteSet 7, ByteGet] = Some (v, [Some 0xFF, None, Some 7])"
proof -
  obtain c where c: "threads_run (io_step bytewise) (io_boot (\<lambda>_. umem_with 0 [])) io_two = Some c"
    "io_history bytewise (io_boot (\<lambda>_. umem_with 0 [])) io_two =
      [(ByteGet, Some 0xFF), (ByteSet 7, None), (ByteGet, Some 7)]"
    using io_two_run by blast
  from ioctl_byte_linear[OF c(1)] c(2) show ?thesis by auto
qed

end
