(* ===== verification/Spec2Isabelle.thy ===== *)
theory Spec2Isabelle
  imports Ioctl_Client Static_Key Sleep Vkbd Gpio_Buttons Dht11 Blkram Ioctl_Test Procfs
    Syscall_Steal Vnetloop Completions Debugfs_File Cat_Nonblock Module_Params Platform
    Deferred_Work Locks Chardev2_Smp Vinput_Smp Hello Char_Devices
    Blkram_Smp Debugfs_Smp Procfs_Smp Ioctl_Smp
begin

text \<open>
  A verification development for the example modules of the Linux Kernel Module Programming Guide,
  the C files below \<open>src/examples\<close>.

  \<^bold>\<open>The program.\<close> Every example is a kernel module of its own: it is loaded, acquires what it needs
  from the kernel (device numbers, device nodes, files below /proc, GPIO lines, interrupts, memory),
  serves the calls of processes, interrupts and the block layer, and gives everything back when it
  is unloaded. Two pairs work together: \<open>vkbd.c\<close> is a device type of the framework \<open>vinput.c\<close>, and
  the process \<open>other/userspace_ioctl.c\<close> is a client of the ioctls of \<open>chardev2.c\<close>.

  \<^bold>\<open>The theories.\<close> The shared ones:
  \<^item> \<open>LKM_Prelude\<close>: error numbers, C strings in arrays, the conversions of printf, bit maps, lists
    and memory objects, atomic integers.
  \<^item> \<open>User_Memory\<close>: the memory of the calling process with \<open>get_user\<close>, \<open>put_user\<close>, \<open>copy_from_user\<close>
    and \<open>copy_to_user\<close>. How much of a block is copied before a fault is a parameter, under the
    contract \<open>user_access\<close>.
  \<^item> \<open>Resources\<close>: what load and unload functions acquire and release, as lists of events that are
    replayed against what is held; the contract \<open>module_leaving\<close> of a module that never releases what
    it does not hold, and keeps only what is stated, whatever the kernel's calls return; \<open>lkm_module\<close>, that
    of a module that keeps nothing.
  \<^item> \<open>Vfs\<close>: the contracts of a device that one process at a time may open (\<open>exclusive_device\<close>), of one
    whose content is read in pieces (\<open>stream_device\<close>), and of both (\<open>exclusive_stream\<close>), with the
    processes that use them.
  \<^item> \<open>File_Operations\<close>: the table of file operations as a record of functions, the system calls that
    go through it, \<open>pread\<close> and \<open>pwrite\<close> at any offset among them, and loading and unloading with the reference count; the contract \<open>char_module\<close> of
    the functions in a table.
  \<^item> \<open>Msg_Read\<close>: the read function that three of the modules share statement by statement.
  \<^item> \<open>Kstrtol\<close>: the contract of the kernel's conversion of a string to a number.
  \<^item> \<open>Interleaving\<close>: threads that take steps in any order over a shared state; what follows from single
    steps for whole runs, when no thread breaks what another relies on (\<open>interference_free\<close>), when a
    flag keeps all threads but one out (\<open>flag_lock\<close>), when every step brings its call closer to
    the end (\<open>wait_free\<close>, and \<open>self_reliant\<close> where a thread needs nothing of the others), and when a flag
    makes calls atomic (\<open>critical_section\<close>).
  \<^item> \<open>Rw_Lock\<close>: the same for a lock that many readers or one writer may have (\<open>rw_section\<close>).

  Where one component calls another,
  the calls are the parameters of a locale, the client's lemmas are proved in it, and it is
  interpreted on the definitions of every module that provides them.

  The components, in the order they build on each other:
  \<^item> \<open>Chardev\<close> (\<open>chardev.c\<close>), \<open>Chardev2\<close> (\<open>chardev2.c\<close>, \<open>chardev.h\<close>), \<open>Ioctl_Client\<close>
    (\<open>other/userspace_ioctl.c\<close>), \<open>Static_Key\<close> (\<open>static_key.c\<close>): message devices. The record of each
    holds the module's variables; \<open>chardev_open\<close> is \<open>device_open\<close>, and so on.
  \<^item> \<open>Chardev2_Smp\<close>: \<open>chardev2.c\<close> again, with any number of processes in its functions at once; every
    access to the message or to the flag is a step (\<open>c2_device_read\<close> is \<open>device_read\<close>, and so on).
  \<^item> \<open>Ioctl_Test\<close> (\<open>ioctl.c\<close>): an object per open file. The theorems are about any sequence of calls.
  \<^item> \<open>Ioctl_Smp\<close>: \<open>ioctl.c\<close> again, with any number of processes that share an open file (\<open>io_step\<close>); every
    statement that touches the read-write lock, the byte or the number is a step.
  \<^item> \<open>Sleep\<close> (\<open>sleep.c\<close>): \<open>module_open\<close> and \<open>module_close\<close> as steps of any number of processes, with
    signals, between which the scheduler may switch; an inductive predicate of the reachable
    configurations, and its invariant.
  \<^item> \<open>Procfs\<close> (\<open>procfs1.c\<close> to \<open>procfs4.c\<close>): arrays and a sequence below /proc.
  \<^item> \<open>Procfs_Smp\<close>: \<open>procfs2.c\<close> and \<open>procfs3.c\<close> again, with any number of processes in their functions at
    once (\<open>p2_write\<close> is the write of the one, \<open>p3_read\<close> and \<open>p3_write\<close> are the functions of the other);
    every access to the size is a step.
  \<^item> \<open>Vinput\<close>, \<open>Vinput_Inv\<close>, \<open>Vkbd\<close> (\<open>vinput.c\<close>, \<open>vinput.h\<close>, \<open>vkbd.c\<close>): the framework with its heap,
    lists and id bitmap; its invariant and the table it refines; the contract \<open>vinput_driver\<close> of a
    device type, which the keyboard keeps. Runs are over a \<open>vinput_world\<close>, which also has the open files with
    their pointers: a read or write through a file whose object is freed is \<open>None\<close>.
  \<^item> \<open>Vinput_Smp\<close>: \<open>export_store\<close> and \<open>unexport_store\<close> of \<open>vinput.c\<close> again, by any number of tasks at
    once (\<open>vi_export\<close>, \<open>vi_unexport\<close>); every critical section of the spin lock is a step.
  \<^item> \<open>Gpio_Buttons\<close> (\<open>intrpt.c\<close>, \<open>bottomhalf.c\<close>, \<open>bh_threaded.c\<close>), \<open>Gpio_Led\<close> (\<open>led.c\<close>), \<open>Dht11\<close>
    (\<open>dht11.c\<close>): GPIO lines, interrupts, and the decoding of a sensor's signal in time.
  \<^item> \<open>Char_Devices\<close>: the tables of \<open>chardev.c\<close>, \<open>chardev2.c\<close>, \<open>static_key.c\<close>, \<open>led.c\<close>, \<open>dht11.c\<close>,
    \<open>ioctl.c\<close> and \<open>hello-debugfs-file.c\<close> (\<open>chardev_fops\<close>, and so on), and which of the modules stay loaded below an open file.
  \<^item> \<open>Blkram\<close> (\<open>blkram.c\<close>): a block device with its 64-bit offsets.
  \<^item> \<open>Blkram_Smp\<close>: \<open>blkram.c\<close> again, with any number of requests at once (\<open>blk_step\<close>); every byte that
    \<open>memcpy\<close> copies is a step.
  \<^item> \<open>Debugfs_File\<close> (\<open>hello-debugfs-file.c\<close>, \<open>hello-debugfs.c\<close>): a message file over two functions of
    the kernel, which are the parameters of the contract \<open>simple_buffer\<close>.
  \<^item> \<open>Debugfs_Smp\<close>: \<open>hello-debugfs-file.c\<close> again, with any number of processes in \<open>message_read\<close> and
    \<open>message_write\<close> at once (\<open>df_message_read\<close>, \<open>df_message_write\<close>); every statement that touches the mutex
    or the message is a step.
  \<^item> \<open>Cat_Nonblock\<close> (\<open>other/cat_nonblock.c\<close>): the client of \<open>/proc/sleep\<close> and of every device that keeps
    \<open>stream_device\<close>.
  \<^item> \<open>Completions\<close> (\<open>completions.c\<close>): two threads and the module as steps in any order; a thread that still
    has a statement before it when the module is unloaded crashes at its next step.
  \<^item> \<open>Vnetloop\<close> (\<open>vnetloop.c\<close>): the network device, and the reading of its 64-bit counters in halves
    while another processor updates them under a sequence counter.
  \<^item> \<open>Syscall_Steal\<close> (\<open>syscall-steal.c\<close>): the kernel's memory and write protection, the search for the
    table of system calls, and any number of modules that replace the same entry.
  \<^item> \<open>Deferred_Work\<close> (\<open>kbleds.c\<close>, \<open>sched.c\<close>, \<open>example_tasklet.c\<close>), \<open>Module_Params\<close> (\<open>hello-5.c\<close>,
    \<open>hello-6.c\<close>, \<open>hello-sysfs.c\<close>), \<open>Platform\<close> (\<open>dma.c\<close>, \<open>devicetree.c\<close>, \<open>devicemodel.c\<close>,
    \<open>kmem_cache.c\<close>), \<open>Locks\<close> (\<open>example_mutex.c\<close>, \<open>example_spinlock.c\<close>, \<open>example_rwlock.c\<close>,
    \<open>example_atomic.c\<close>, \<open>print_string.c\<close>), \<open>Hello\<close> (\<open>hello-1.c\<close> to \<open>hello-4.c\<close>, \<open>start.c\<close>, \<open>stop.c\<close>):
    small modules, each with what its one mechanism promises.

  \<^bold>\<open>How the code is modelled.\<close> State is a record that the operations take and return. A value of an
  option type is \<open>None\<close> exactly when the C code would leave the bounds of an array, follow a pointer to
  an object that is freed, free one twice, or store to an address of the kernel that a process chose
  (\<open>__put_user\<close> in \<open>ioctl.c\<close>); error numbers are return values as in the code. Words
  have the width of the code where a wrap-around can be reached (ids and keys, the block
  device's offsets, signal masks, the sensor's bytes); loop counters and sizes that cannot are
  natural numbers. A file that the preprocessor turns into several programs has an argument that
  selects the program. Where the code converts a \<open>char\<close> to an integer (\<open>schar\<close>, in an ioctl of
  \<open>chardev2.c\<close>), \<open>char\<close> is signed, as it is on x86 for kernels before 6.2; for bytes up to 127, and so for every
  message of ASCII text, it makes no difference. A copy of a size that the array does not have is
  outside the array, although kernels that check the sizes of copies refuse it.

  Most functions are modelled as a whole, as if a call ran without another in between. Where the
  interleaving matters, the functions are cut into steps: \<open>Sleep\<close>, \<open>Completions\<close>, \<open>Vnetloop\<close>,
  \<open>Chardev2_Smp\<close>, \<open>Vinput_Smp\<close>, \<open>Blkram_Smp\<close>, \<open>Debugfs_Smp\<close>, \<open>Ioctl_Smp\<close> and \<open>Procfs_Smp\<close>. A step is one access to
  shared state, a call of a function of the kernel that copies, or what is done while a spin
  lock is held; \<open>mutex_lock\<close>, \<open>read_lock\<close> and \<open>write_lock\<close> have no step while they wait. In \<open>Vinput_Smp\<close>, \<open>kzalloc\<close> is part of the step that puts the new object on the list,
  since no other task knows the object before. The theorems \<open>chardev2_ioctls_atomic\<close>,
  \<open>vinput_export_alone\<close>, \<open>blkram_batch_serial\<close>, \<open>debugfs_calls_atomic\<close>, \<open>p2_write_alone\<close>, \<open>p3_read_alone\<close>,
  \<open>p3_write_alone\<close>, \<open>io_ioctl_alone\<close> and \<open>io_read_alone\<close> tie the steps to the functions modelled as a whole.

  The C library's functions that the kernel also has (the string functions, \<open>sprintf\<close>, \<open>snprintf\<close>,
  \<open>sscanf\<close>), atomic integers, bit operations, linked lists, completions, sequence counters, locks and
  timers are modelled as their documentation states them. The kernel's subsystems are parameters:
  the return values of their functions are arguments, over which the theorems quantify, and what a
  caller relies on is stated in the locales \<open>user_access\<close>, \<open>kstrtol_fun\<close>, \<open>simple_buffer\<close>,
  \<open>ethernet\<close> and \<open>param_int\<close>, each with a function that keeps it. The log messages are left out,
  except where they are what a module is for.

  \<^bold>\<open>Bounds and fuel.\<close> Loops of the code are recursive functions that terminate. Fuel occurs in the
  clients only: \<open>read_all\<close> is given one more than the length of the content, which is enough since
  every read but the last returns a byte or more (\<open>read_all_content\<close>), and \<open>seq_loop\<close> two, since the
  sequence of \<open>procfs4.c\<close> has one element; \<open>openat_call\<close> is given one more than the number of modules,
  which is enough when each found the function of the one before it (\<open>openat_call_chained\<close>), and
  \<open>sleep_open_steps\<close> three, as an open that does not block returns after two steps; and \<open>vi_alone\<close> nine,
  one more than the steps of the longest export. A call of \<open>chardev2.c\<close> takes at most 168 steps, two for
  each byte of the message and a few around them; one of \<open>procfs3.c\<close> at most 6. Loops that may run
  for ever are partial functions into an option type: the loop over the bytes of a message in
  \<open>Ioctl_Client\<close>, the loop of \<open>cat_nonblock\<close>, and the two of \<open>Syscall_Steal\<close>.

  \<^bold>\<open>What the theorems show.\<close> For each component the functional behaviour on every branch, an invariant
  that every operation keeps, and, where it has one, the abstract state it refines: the
  virtual input devices a table from ids to types, the block device a list of bytes, the
  buttons the last button pressed, the exclusive devices at most one open file. The theorem of this
  theory spans the components: the modules that acquire resources of the kernel, one session after the
  other, balance what they acquire and release, but for the interrupt that the button modules leak for kernels
  before 6.10. Not in that log are the modules that acquire nothing, and \<open>completions.c\<close>, \<open>kbleds.c\<close>,
  \<open>example_tasklet.c\<close> and the table-replacing build of \<open>syscall-steal.c\<close>, whose loads and unloads have
  theorems of their own; sessions do not overlap.
  For concurrent callers: the ioctls of \<open>chardev2.c\<close> are atomic, and no process leaves the message that did
  not ask for a place beyond it;
  exports of \<open>vinput.c\<close> keep out of each other's way; requests of \<open>blkram.c\<close> for different bytes are as good
  as one after the other; the mutex of \<open>hello-debugfs-file.c\<close> makes its calls atomic, and comes free again;
  the read-write lock of \<open>ioctl.c\<close> does so for the byte of an open file.
  Over the file layer, for calls one after the other: a table with an owner keeps its
  module loaded exactly as long as a file is open, and the position of a file keeps reads in their
  arrays, which a \<open>pread\<close> leaves. What a theorem supposes of the calls is in the predicates
  \<open>chardev_ok\<close>, \<open>chardev2_ok\<close>, \<open>static_key_ok\<close>, \<open>led_ok\<close>, \<open>ioctl_ok\<close> and \<open>message_ok\<close>.
  Several theorems state precisely where the code does not do what it means to: reads
  without bounds, a leaked id, a leaked interrupt, a stale pointer, retries in vain, loops that do not
  end, an entry of the system call table that dangles, threads that outlive their module, an unexport
  that comes between the steps of another task, a message torn by a write that ignores the flag,
  modules that can be unloaded below an open file, a length that is shared without a lock, a number that
  is stored wherever a process says, a message that a failing write fills with zeros.

  \<^bold>\<open>What is not modelled.\<close> The tables of \<open>vinput.c\<close> and of the drivers, and of the files below /proc but for where a
  call begins, which only name functions for the kernel; the Makefiles, scripts and the text of the guide.
\<close>

section \<open>All modules\<close>

text \<open>
  The log of what modules acquire and release on a machine where the administrator runs sessions with
  the modules one after the other, in any order and with any results of the kernel's calls, and what
  those have left: the programs with buttons for kernels before 6.10 (\<open>old\<close>) leave the interrupt of
  the first button for each load that fails because the second one's line has none.
\<close>

inductive kernel_log :: "event list \<Rightarrow> kres list \<Rightarrow> bool" where
  boot: "kernel_log [] []"
| chardev: "kernel_log t h \<Longrightarrow> kernel_log (t @ session chardev_init chardev_exit es s) h"
| chardev2: "kernel_log t h \<Longrightarrow> kernel_log (t @ session chardev2_init chardev2_exit es s) h"
| static_key: "kernel_log t h \<Longrightarrow> kernel_log (t @ session static_key_init static_key_exit es s) h"
| ioctl: "kernel_log t h \<Longrightarrow> kernel_log (t @ session ioctl_init ioctl_exit es s) h"
| sleep: "kernel_log t h \<Longrightarrow> kernel_log (t @ session sleep_init sleep_exit es s) h"
| procfs1: "kernel_log t h \<Longrightarrow> kernel_log (t @ session procfs1_init procfs1_exit es s) h"
| procfs2: "kernel_log t h \<Longrightarrow> kernel_log (t @ session procfs2_init procfs2_exit es s) h"
| procfs3: "kernel_log t h \<Longrightarrow> kernel_log (t @ session procfs3_init procfs3_exit es s) h"
| procfs4: "kernel_log t h \<Longrightarrow> kernel_log (t @ session procfs4_init procfs4_exit es s) h"
| vinput: "kernel_log t h \<Longrightarrow> kernel_log (t @ session vinput_init vinput_end es s) h"
| intrpt: "kernel_log t h \<Longrightarrow> kernel_log (t @ session (intrpt_init True) (intrpt_exit True) es s) h"
| bottomhalf:
    "kernel_log t h \<Longrightarrow> kernel_log (t @ session (bottomhalf_init True) (bottomhalf_exit True) es s) h"
| bh_threaded:
    "kernel_log t h \<Longrightarrow> kernel_log (t @ session (bh_threaded_init True) (bh_threaded_exit True) es s) h"
| intrpt_old:
    "kernel_log t h \<Longrightarrow> kernel_log (t @ session (intrpt_init False) (intrpt_exit False) es s)
      (left_over (array_leaves ''NULL'') es @ h)"
| bottomhalf_old:
    "kernel_log t h \<Longrightarrow> kernel_log (t @ session (bottomhalf_init False) (bottomhalf_exit False) es s)
      (left_over (array_leaves ''NULL'') es @ h)"
| bh_threaded_old:
    "kernel_log t h \<Longrightarrow> kernel_log (t @ session (bh_threaded_init False) (bh_threaded_exit False) es s)
      (left_over (array_leaves ''&buttons[0]'') es @ h)"
| led: "kernel_log t h \<Longrightarrow> kernel_log (t @ session led_init led_exit es s) h"
| dht11: "kernel_log t h \<Longrightarrow> kernel_log (t @ session dht11_init dht11_exit es s) h"
| blkram:
    "kernel_log t h \<Longrightarrow> kernel_log (t @ session (blkram_init era mb) (blkram_exit era) es s) h"
| vnetloop: "kernel_log t h \<Longrightarrow> kernel_log (t @ session vnetloop_init vnetloop_exit es s) h"
| debugfs: "kernel_log t h \<Longrightarrow> kernel_log (t @ session hello_debugfs_init hello_debugfs_exit es s) h"
| debugfs_file:
    "kernel_log t h \<Longrightarrow> kernel_log (t @ session hello_debugfs_file_init hello_debugfs_file_exit es s) h"
| steal_kprobe:
    "kernel_log t h \<Longrightarrow> kernel_log (t @ session syscall_kprobe_start syscall_kprobe_end es s) h"
| sysfs: "kernel_log t h \<Longrightarrow> kernel_log (t @ session mymodule_init mymodule_exit es s) h"
| dma: "kernel_log t h \<Longrightarrow> kernel_log (t @ session (dma_demo_init c n) dma_demo_exit es s) h"
| devicetree: "kernel_log t h \<Longrightarrow> kernel_log (t @ session dt_init dt_exit es s) h"
| devicemodel:
    "kernel_log t h \<Longrightarrow> kernel_log (t @ session devicemodel_init devicemodel_exit es s) h"
| kmem_cache:
    "kernel_log t h \<Longrightarrow>
      kernel_log (t @ session kmem_cache_example_init kmem_cache_example_exit es s) h"
| sched: "kernel_log t h \<Longrightarrow> kernel_log (t @ session sched_init sched_exit es s) h"

lemmas sessions_balanced = chardev_mod.session_balanced chardev2_mod.session_balanced
  static_key_mod.session_balanced ioctl_mod.session_balanced sleep_mod.session_balanced
  procfs1_mod.session_balanced procfs2_mod.session_balanced procfs3_mod.session_balanced
  procfs4_mod.session_balanced vinput_mod.session_balanced intrpt_mod.session_balanced
  bottomhalf_mod.session_balanced bh_threaded_mod.session_balanced intrpt_array_mod.session_balanced
  bottomhalf_array_mod.session_balanced bh_threaded_array_mod.session_balanced led_mod.session_balanced
  dht11_mod.session_balanced blkram_mod.session_balanced vnetloop_mod.session_balanced
  debugfs_mod.session_balanced debugfs_file_mod.session_balanced steal_kprobe_mod.session_balanced
  mymodule_mod.session_balanced dma_mod.session_balanced dt_mod.session_balanced
  devicemodel_mod.session_balanced kmem_mod.session_balanced sched_mod.session_balanced

text \<open>
  C19 (safety): in every such log nothing is released that is not held, and what is held in the end is
  just those interrupts: of the modules in the log no other load function leaks on any of its error
  paths, and every unload function gives back exactly what its load function acquired. With sessions of the
  programs for kernels from 6.10 on, or without a second line that fails, nothing is left.
\<close>

theorem modules_balanced:
  assumes "kernel_log t h"
  shows "replay [] t = Some h \<and> (\<forall>r \<in> set h. \<exists>irq dev_id. r = Irq irq dev_id)"
proof -
  from assms have "replay [] t = Some h \<and> list_all is_irq h"
    by induction
      (simp_all add: replay_append sessions_balanced intrpt_array_mod.left_over_irqs
        bh_threaded_array_mod.left_over_irqs)
  then show ?thesis by (auto simp: list_all_iff elim!: is_irq.elims)
qed

theorem modules_balanced_witness:
  "replay [] (session (intrpt_init False) (intrpt_exit False) [second_line_env] (buttons_zero False 0) @
    session led_init led_exit [\<lparr>ret_region = 0, ret_dev_num = 5, ret_cdev_add = 0,
    ret_cdev_class = 1, ret_cdev_device = - ENOMEM, ret_gpio_request = 0, ret_gpio_direction = 0\<rparr>]
    led_zero) = Some [Irq 55 ''NULL'']"
  (is "replay [] (?intrpt @ session _ _ ?es _) = _")
proof -
  have "kernel_log ([] @ ?intrpt) (left_over (array_leaves ''NULL'') [second_line_env] @ [])"
    by (rule kernel_log.intrpt_old[OF kernel_log.boot])
  then have "kernel_log ?intrpt [Irq 55 ''NULL'']"
    by (simp add: array_leaves_def second_line_env_def second_line_fails_def)
  from kernel_log.led[OF this] have "kernel_log (?intrpt @ session led_init led_exit ?es led_zero) [Irq 55 ''NULL'']" .
  from modules_balanced[OF this] show ?thesis by simp
qed

end
